(* ===== verification/Py_Base.thy ===== *)
theory Py_Base
  imports Main "HOL-Library.Sublist" "HOL-Library.AList"
begin

text \<open>
  The prelude: the parts of Python that the modelled code uses, and the generic lemmas
  the component theories share.

  \<^item> A Python string is a \<open>string\<close>, that is, a list of code points below 256. The case
    mapping \<open>py_lower\<close> and the white space test \<open>py_isspace\<close> are the ones Python
    has on exactly these code points.
  \<^item> A dict is an association list in insertion order with distinct keys:
    \<open>map_of\<close> looks a key up, \<open>AList.update\<close> is item assignment (it keeps the position of
    a key that is present and appends a new one), \<open>AList.delete\<close> is \<open>pop\<close>.
  \<^item> A JSON-like value is a \<open>json\<close>; \<open>truthy\<close> is Python's truth value.
  \<^item> A call that may raise has type \<open>'e + 'a\<close>, with \<open>Inl\<close> for the exception.
\<close>

named_theorems py_simps \<open>unfolding rules of the string and dict operations\<close>

section \<open>Strings\<close>

definition py_lower_char :: "char \<Rightarrow> char" where
  "py_lower_char c =
     (let n = (of_char c :: nat)
      in if (65 \<le> n \<and> n \<le> 90) \<or> (192 \<le> n \<and> n \<le> 222 \<and> n \<noteq> 215) then char_of (n + 32) else c)"

definition py_lower :: "string \<Rightarrow> string" where
  "py_lower s = map py_lower_char s"

definition py_isspace :: "char \<Rightarrow> bool" where
  "py_isspace c =
     (let n = (of_char c :: nat)
      in (9 \<le> n \<and> n \<le> 13) \<or> (28 \<le> n \<and> n \<le> 32) \<or> n = 133 \<or> n = 160)"

definition py_lstrip :: "string \<Rightarrow> string" where
  "py_lstrip s = dropWhile py_isspace s"

definition py_strip :: "string \<Rightarrow> string" where
  "py_strip s = rev (py_lstrip (rev (py_lstrip s)))"

definition is_lower_az :: "char \<Rightarrow> bool" where
  "is_lower_az c = (let n = (of_char c :: nat) in 97 \<le> n \<and> n \<le> 122)"

definition is_upper_az :: "char \<Rightarrow> bool" where
  "is_upper_az c = (let n = (of_char c :: nat) in 65 \<le> n \<and> n \<le> 90)"

definition is_dig :: "char \<Rightarrow> bool" where
  "is_dig c = (let n = (of_char c :: nat) in 48 \<le> n \<and> n \<le> 57)"

text \<open>\<open>s.startswith(p)\<close> and \<open>p in s\<close>.\<close>

abbreviation py_startswith :: "string \<Rightarrow> string \<Rightarrow> bool" where
  "py_startswith s p \<equiv> prefix p s"

abbreviation py_endswith :: "string \<Rightarrow> string \<Rightarrow> bool" where
  "py_endswith s p \<equiv> suffix p s"

abbreviation py_in :: "string \<Rightarrow> string \<Rightarrow> bool" where
  "py_in p s \<equiv> sublist p s"

text \<open>
  \<open>find_split sep s\<close> cuts \<open>s\<close> at the first occurrence of \<open>sep\<close>; it is what
  \<open>split(sep, 1)\<close>, \<open>split(sep)\<close> and \<open>replace\<close> are built from.
\<close>

fun find_split :: "string \<Rightarrow> string \<Rightarrow> (string \<times> string) option" where
  "find_split sep [] = (if sep = [] then Some ([], []) else None)"
| "find_split sep (c # cs) =
     (if prefix sep (c # cs) then Some ([], drop (length sep) (c # cs))
      else map_option (\<lambda>(a, b). (c # a, b)) (find_split sep cs))"

lemma find_split_Some: "find_split sep s = Some (a, b) \<Longrightarrow> s = a @ sep @ b"
proof (induction s arbitrary: a b)
  case Nil
  then show ?case by (auto split: if_splits)
next
  case (Cons c cs)
  then show ?case
    by (auto split: if_splits simp: prefix_def)
qed

lemma find_split_length: "find_split sep s = Some (a, b) \<Longrightarrow> sep \<noteq> [] \<Longrightarrow> length b < length s"
  by (drule find_split_Some) auto

lemma find_split_None: "find_split sep s = None \<longleftrightarrow> \<not> sublist sep s"
  by (induction s) (auto simp: sublist_Cons_right split: if_splits)

lemma find_split_prefix: "sep \<noteq> [] \<Longrightarrow> find_split sep (sep @ b) = Some ([], b)"
  by (cases sep) auto

function py_split :: "string \<Rightarrow> string \<Rightarrow> string list" where
  "py_split sep s =
     (if sep = [] then [s]
      else case find_split sep s of None \<Rightarrow> [s] | Some (a, b) \<Rightarrow> a # py_split sep b)"
  by pat_completeness auto
termination
  by (relation "measure (\<lambda>(sep, s). length s)") (auto dest: find_split_length)

declare py_split.simps [simp del]

fun py_join :: "string \<Rightarrow> string list \<Rightarrow> string" where
  "py_join sep [] = []"
| "py_join sep [x] = x"
| "py_join sep (x # y # ys) = x @ sep @ py_join sep (y # ys)"

definition py_replace :: "string \<Rightarrow> string \<Rightarrow> string \<Rightarrow> string" where
  "py_replace old new s = py_join new (py_split old s)"

lemma py_split_not_Nil [simp]: "py_split sep s \<noteq> []"
  by (subst py_split.simps) (auto split: option.splits)

lemma py_join_Cons: "xs \<noteq> [] \<Longrightarrow> py_join sep (x # xs) = x @ sep @ py_join sep xs"
  by (cases xs) auto

lemma py_join_py_split: "py_join sep (py_split sep s) = s"
proof (induction sep s rule: py_split.induct)
  case (1 sep s)
  show ?case
  proof (cases "sep = []")
    case True
    then show ?thesis by (simp add: py_split.simps)
  next
    case False
    show ?thesis
    proof (cases "find_split sep s")
      case None
      with False show ?thesis by (subst py_split.simps) simp
    next
      case (Some p)
      obtain a b where p: "p = (a, b)" by force
      have "py_join sep (py_split sep s) = a @ sep @ py_join sep (py_split sep b)"
        using False Some p by (subst py_split.simps) (simp add: py_join_Cons)
      also have "\<dots> = s"
        using "1.IH" [OF False] Some p by (auto dest: find_split_Some)
      finally show ?thesis .
    qed
  qed
qed

lemma py_split_absent: "\<not> sublist sep s \<Longrightarrow> py_split sep s = [s]"
  by (subst py_split.simps) (auto simp: find_split_None [symmetric])

lemma py_replace_absent: "\<not> sublist old s \<Longrightarrow> py_replace old new s = s"
  by (simp add: py_replace_def py_split_absent)

text \<open>Pieces of a split hold no separator.\<close>

lemma find_split_first_free:
  "find_split sep s = Some (a, b) \<Longrightarrow> length sep = 1 \<Longrightarrow> \<not> sublist sep a"
proof (induction s arbitrary: a b)
  case Nil
  then show ?case by (auto split: if_splits)
next
  case (Cons c cs)
  then obtain d where d: "sep = [d]" by (cases sep) auto
  show ?case
  proof (cases "prefix sep (c # cs)")
    case True
    with Cons.prems show ?thesis by (auto simp: d)
  next
    case False
    then obtain a' where a: "a = c # a'" and a': "find_split sep cs = Some (a', b)"
      using Cons.prems by auto
    have "\<not> sublist sep a'" using Cons.IH [OF a' Cons.prems(2)] .
    with False d show ?thesis by (auto simp: a sublist_Cons_right)
  qed
qed

lemma py_split_pieces_free:
  "length sep = 1 \<Longrightarrow> p \<in> set (py_split sep s) \<Longrightarrow> \<not> sublist sep p"
proof (induction sep s rule: py_split.induct)
  case (1 sep s)
  then have ne: "sep \<noteq> []" by auto
  show ?case
  proof (cases "find_split sep s")
    case None
    with "1.prems" ne show ?thesis
      by (auto simp: py_split.simps [of sep s] find_split_None)
  next
    case (Some q)
    obtain a b where q: "q = (a, b)" by force
    have "p = a \<or> p \<in> set (py_split sep b)"
      using "1.prems"(2) ne Some q by (simp add: py_split.simps [of sep s])
    then show ?thesis
      using "1.IH" [OF ne Some q [symmetric]] "1.prems"(1) Some q
      by (auto dest: find_split_first_free)
  qed
qed

lemma length_py_lower [simp]: "length (py_lower s) = length s"
  by (simp add: py_lower_def)

lemma py_lower_append [simp]: "py_lower (s @ t) = py_lower s @ py_lower t"
  by (simp add: py_lower_def)

lemma of_char_lt_256: "(of_char c :: nat) < 256"
  using of_char_mod_256 [of c, where ?'a = nat] by (metis mod_less_divisor zero_less_numeral)

lemma py_lower_char_idem [simp]: "py_lower_char (py_lower_char c) = py_lower_char c"
proof -
  have "(of_char c :: nat) < 256" by (rule of_char_lt_256)
  then show ?thesis
    by (auto simp: py_lower_char_def Let_def of_char_of)
qed

lemma py_lower_idem [simp]: "py_lower (py_lower s) = py_lower s"
  by (simp add: py_lower_def)

lemmas [py_simps] = py_lower_def py_lower_char_def py_strip_def py_lstrip_def py_isspace_def
  py_replace_def

section \<open>Values\<close>

datatype json =
    JNull
  | JBool bool
  | JInt int
  | JStr string
  | JArr "json list"
  | JObj "(string \<times> json) list"

type_synonym jdict = "(string \<times> json) list"

fun truthy :: "json \<Rightarrow> bool" where
  "truthy JNull = False"
| "truthy (JBool b) = b"
| "truthy (JInt n) = (n \<noteq> 0)"
| "truthy (JStr s) = (s \<noteq> [])"
| "truthy (JArr xs) = (xs \<noteq> [])"
| "truthy (JObj kvs) = (kvs \<noteq> [])"

text \<open>\<open>isinstance(value, int)\<close>: a bool is an int in Python.\<close>

fun as_int :: "json \<Rightarrow> int option" where
  "as_int (JInt i) = Some i"
| "as_int (JBool b) = Some (if b then 1 else 0)"
| "as_int _ = None"

text \<open>\<open>d.get(k, default)\<close>.\<close>

definition dict_get :: "('k \<times> 'v) list \<Rightarrow> 'k \<Rightarrow> 'v \<Rightarrow> 'v" where
  "dict_get d k v = (case map_of d k of None \<Rightarrow> v | Some x \<Rightarrow> x)"

definition dict_has :: "('k \<times> 'v) list \<Rightarrow> 'k \<Rightarrow> bool" where
  "dict_has d k = (map_of d k \<noteq> None)"

lemma dict_has_iff: "dict_has d k \<longleftrightarrow> k \<in> fst ` set d"
  by (auto simp: dict_has_def map_of_eq_None_iff)

lemma map_of_update [simp]: "map_of (AList.update k v d) = (map_of d)(k \<mapsto> v)"
  by (rule AList.update_conv')

lemma distinct_keys_update [simp]:
  "distinct (map fst d) \<Longrightarrow> distinct (map fst (AList.update k v d))"
  by (rule distinct_update)

section \<open>Sequences of calls that may raise\<close>

fun foldM :: "('s \<Rightarrow> 'a \<Rightarrow> 'e + 's) \<Rightarrow> 's \<Rightarrow> 'a list \<Rightarrow> 'e + 's" where
  "foldM f s [] = Inr s"
| "foldM f s (x # xs) = (case f s x of Inl e \<Rightarrow> Inl e | Inr s' \<Rightarrow> foldM f s' xs)"

lemma foldM_invariant:
  assumes "\<And>s x s'. P s \<Longrightarrow> f s x = Inr s' \<Longrightarrow> P s'"
  shows "P s \<Longrightarrow> foldM f s xs = Inr s' \<Longrightarrow> P s'"
  by (induction xs arbitrary: s) (auto split: sum.splits intro: assms)

lemma foldM_append:
  "foldM f s (xs @ ys) = (case foldM f s xs of Inl e \<Rightarrow> Inl e | Inr s' \<Rightarrow> foldM f s' ys)"
  by (induction xs arbitrary: s) (auto split: sum.splits)

fun enumerate1 :: "nat \<Rightarrow> 'a list \<Rightarrow> (nat \<times> 'a) list" where
  "enumerate1 n [] = []"
| "enumerate1 n (x # xs) = (n, x) # enumerate1 (Suc n) xs"

lemma map_snd_enumerate1 [simp]: "map snd (enumerate1 n xs) = xs"
  by (induction xs arbitrary: n) auto

lemma length_enumerate1 [simp]: "length (enumerate1 n xs) = length xs"
  by (induction xs arbitrary: n) auto

section \<open>Result sets of a query\<close>

text \<open>
  SQLAlchemy's \<open>scalar_one_or_none()\<close>: no row is \<open>None\<close>, one row is that row, and
  several rows raise \<open>MultipleResultsFound\<close>, here \<open>None\<close> of the outer option.
\<close>

fun scalar_one_or_none :: "'a list \<Rightarrow> 'a option option" where
  "scalar_one_or_none [] = Some None"
| "scalar_one_or_none [x] = Some (Some x)"
| "scalar_one_or_none (x # y # zs) = None"

lemma scalar_one_or_none_unique:
  assumes "distinct (map f xs)" and "\<And>x. x \<in> set xs \<Longrightarrow> P x \<Longrightarrow> f x = k"
  shows "scalar_one_or_none (filter P xs) \<noteq> None"
proof (rule ccontr)
  assume "\<not> ?thesis"
  then obtain a b rest where ab: "filter P xs = a # b # rest"
    by (cases "filter P xs" rule: scalar_one_or_none.cases) auto
  have "distinct (map f (filter P xs))"
    using assms(1) by (simp add: distinct_map_filter)
  then have "f a \<noteq> f b" by (simp add: ab)
  moreover have "a \<in> set (filter P xs)" "b \<in> set (filter P xs)" by (simp_all add: ab)
  ultimately show False using assms(2) by auto
qed

lemma scalar_one_or_none_Some:
  "scalar_one_or_none (filter P xs) = Some (Some x) \<Longrightarrow> x \<in> set xs \<and> P x"
  by (cases "filter P xs" rule: scalar_one_or_none.cases)
     (auto simp: filter_eq_Cons_iff)

lemma scalar_one_or_none_None:
  "scalar_one_or_none xs = Some None \<longleftrightarrow> xs = []"
  by (cases xs rule: scalar_one_or_none.cases) auto

lemma find_SomeD: "find P xs = Some x \<Longrightarrow> x \<in> set xs \<and> P x"
  by (induction xs) (auto split: if_splits)

lemma find_exists: "x \<in> set xs \<Longrightarrow> P x \<Longrightarrow> \<exists>y. find P xs = Some y"
  by (induction xs) auto

lemma in_map_filter: "y \<in> set (List.map_filter g xs) \<longleftrightarrow> (\<exists>x\<in>set xs. g x = Some y)"
  by (induction xs) (auto split: option.splits)

lemma foldM_post:
  assumes "\<And>s x s'. P s \<Longrightarrow> f s x = Inr s' \<Longrightarrow> P s'" and "\<And>s x e. P s \<Longrightarrow> f s x = Inl e \<Longrightarrow> Q e"
  shows "P s \<Longrightarrow> case foldM f s xs of Inl e \<Rightarrow> Q e | Inr s' \<Rightarrow> P s'"
proof (induction xs arbitrary: s)
  case (Cons x xs)
  show ?case
  proof (cases "f s x")
    case (Inl e)
    then show ?thesis using assms(2) [OF Cons.prems] by simp
  next
    case (Inr s')
    then show ?thesis using Cons.IH [OF assms(1) [OF Cons.prems Inr]] by simp
  qed
qed simp

end
