(* ===== verification/Exceptions.thy ===== *)
theory Exceptions
  imports Py_Base
begin

text \<open>
  The exception classes of \<open>core/exceptions.py\<close>, with the HTTP status and the error code the
  handler of \<open>middleware/error_handler.py\<close> answers with. The text of a message is not
  modelled; a constructor argument says which resource an error is about where one operation
  raises the same class for several reasons. \<open>ValueError\<close>, \<open>KeyError\<close> for a missing key, \<open>TypeError\<close>
  for an operation on a value of a wrong type (Python also says \<open>AttributeError\<close>), \<open>RuntimeError\<close> (also for the errors of the
  container host that no handler catches), and the exceptions of the query layer
  (\<open>IntegrityError\<close> for a violated constraint, \<open>DBAPIError\<close> for a value the database refuses,
  \<open>MultipleResultsFound\<close>), are the exceptions outside the hierarchy that the services can raise.
\<close>

datatype exc =
    InvalidApiKeyError
  | TokenExpiredError
  | InvalidTokenError
  | InvalidCredentialsError
  | RefreshTokenExpiredError
  | InsufficientTierError
  | InsufficientScopeError
  | NotFoundError string
  | ConflictError string
  | ForbiddenError string
  | UserNotFoundError
  | ApiKeyNotFoundError
  | EmailExistsError
  | ServiceUnavailableError string int
  | ServiceTimeoutError
  | RateLimitExceededError int string int
  | InvalidVerificationPinError
  | VerificationPinExpiredError
  | VerificationAttemptsExceededError
  | VerificationResendLimitError
  | AlreadyVerifiedError
  | ValidationError string
  | ValueError string
  | KeyError string
  | TypeError string
  | RuntimeError string
  | IntegrityError
  | DBAPIError
  | MultipleResultsFound

fun exc_status :: "exc \<Rightarrow> nat" where
  "exc_status InvalidApiKeyError = 401"
| "exc_status TokenExpiredError = 401"
| "exc_status InvalidTokenError = 401"
| "exc_status InvalidCredentialsError = 401"
| "exc_status RefreshTokenExpiredError = 401"
| "exc_status InsufficientTierError = 403"
| "exc_status InsufficientScopeError = 403"
| "exc_status (NotFoundError _) = 404"
| "exc_status (ConflictError _) = 409"
| "exc_status (ForbiddenError _) = 403"
| "exc_status UserNotFoundError = 404"
| "exc_status ApiKeyNotFoundError = 404"
| "exc_status EmailExistsError = 409"
| "exc_status (ServiceUnavailableError _ _) = 503"
| "exc_status ServiceTimeoutError = 504"
| "exc_status (RateLimitExceededError _ _ _) = 429"
| "exc_status InvalidVerificationPinError = 400"
| "exc_status VerificationPinExpiredError = 400"
| "exc_status VerificationAttemptsExceededError = 429"
| "exc_status VerificationResendLimitError = 429"
| "exc_status AlreadyVerifiedError = 409"
| "exc_status (ValidationError _) = 422"
| "exc_status (ValueError _) = 500"
| "exc_status (KeyError _) = 500"
| "exc_status (TypeError _) = 500"
| "exc_status (RuntimeError _) = 500"
| "exc_status IntegrityError = 500"
| "exc_status DBAPIError = 500"
| "exc_status MultipleResultsFound = 500"

type_synonym 'a res = "exc + 'a"

text \<open>Sequencing: an exception ends the operation.\<close>

fun res_bind :: "'a res \<Rightarrow> ('a \<Rightarrow> 'b res) \<Rightarrow> 'b res" where
  "res_bind (Inl e) f = Inl e"
| "res_bind (Inr x) f = f x"

lemma res_bind_Inr [simp]: "res_bind m f = Inr y \<longleftrightarrow> (\<exists>x. m = Inr x \<and> f x = Inr y)"
  by (cases m) auto

lemma not_islE: "\<not> isl m \<Longrightarrow> (\<And>x. m = Inr x \<Longrightarrow> thesis) \<Longrightarrow> thesis"
  by (cases m) auto

lemma res_bind_Inl: "res_bind m f = Inl e \<longleftrightarrow> m = Inl e \<or> (\<exists>x. m = Inr x \<and> f x = Inl e)"
  by (cases m) auto

text \<open>A query for at most one row, as the services write it.\<close>

definition one_or_none :: "('a \<Rightarrow> bool) \<Rightarrow> 'a list \<Rightarrow> 'a option res" where
  "one_or_none P xs =
     (case scalar_one_or_none (filter P xs) of
        None \<Rightarrow> Inl MultipleResultsFound | Some r \<Rightarrow> Inr r)"

lemma one_or_none_Some: "one_or_none P xs = Inr (Some x) \<Longrightarrow> x \<in> set xs \<and> P x"
  by (auto simp: one_or_none_def split: option.splits dest: scalar_one_or_none_Some)

lemma one_or_none_None: "one_or_none P xs = Inr None \<longleftrightarrow> (\<forall>x\<in>set xs. \<not> P x)"
proof -
  have "one_or_none P xs = Inr None \<longleftrightarrow> scalar_one_or_none (filter P xs) = Some None"
    by (auto simp: one_or_none_def split: option.splits)
  then show ?thesis by (simp add: scalar_one_or_none_None filter_empty_conv)
qed

lemma one_or_none_unique:
  assumes "distinct (map f xs)" and "\<And>x. x \<in> set xs \<Longrightarrow> P x \<Longrightarrow> f x = k"
  shows "\<exists>r. one_or_none P xs = Inr r"
proof -
  have "scalar_one_or_none (filter P xs) \<noteq> None"
    by (rule scalar_one_or_none_unique [OF assms])
  then show ?thesis by (auto simp: one_or_none_def)
qed

lemma one_or_none_mem:
  assumes "distinct (map f xs)" and "\<And>y. y \<in> set xs \<Longrightarrow> P y \<Longrightarrow> f y = k"
    and "x \<in> set xs" and "P x"
  shows "one_or_none P xs = Inr (Some x)"
proof -
  obtain r where r: "one_or_none P xs = Inr r"
    using one_or_none_unique [OF assms(1,2)] by blast
  show ?thesis
  proof (cases r)
    case None
    with r assms(3,4) show ?thesis by (auto simp: one_or_none_None)
  next
    case (Some y)
    with r have y: "y \<in> set xs" "P y" by (auto dest: one_or_none_Some)
    have "f y = f x" using assms(2) [OF y] assms(2) [OF assms(3,4)] by simp
    then have "y = x" using assms(1) y(1) assms(3) by (metis distinct_map inj_onD)
    with r Some show ?thesis by simp
  qed
qed

lemma one_or_none_error: "one_or_none P xs = Inl e \<Longrightarrow> e = MultipleResultsFound"
  by (auto simp: one_or_none_def split: option.splits)

text \<open>A query for one row that raises \<open>e\<close> when there is none.\<close>

definition fetch :: "exc \<Rightarrow> ('a \<Rightarrow> bool) \<Rightarrow> 'a list \<Rightarrow> 'a res" where
  "fetch e P xs = res_bind (one_or_none P xs) (\<lambda>r. case r of None \<Rightarrow> Inl e | Some x \<Rightarrow> Inr x)"

lemma fetch_Inr: "fetch e P xs = Inr x \<Longrightarrow> x \<in> set xs \<and> P x"
  by (auto simp: fetch_def split: option.splits dest: one_or_none_Some)

lemma fetch_mem:
  assumes "distinct (map f xs)" and "\<And>y. y \<in> set xs \<Longrightarrow> P y \<Longrightarrow> f y = k"
  shows "fetch e P xs = Inr x \<longleftrightarrow> x \<in> set xs \<and> P x"
proof (rule iffI)
  assume "x \<in> set xs \<and> P x"
  then have "one_or_none P xs = Inr (Some x)" using one_or_none_mem [OF assms] by blast
  then show "fetch e P xs = Inr x" by (simp add: fetch_def)
qed (rule fetch_Inr)

end
