(* ===== verification/Database.thy ===== *)
theory Database
  imports Exceptions
begin

text \<open>
  The tables the services work on (\<open>models/*.py\<close>), one record per row type, and the naming
  rules their validators and check constraints enforce. Identifiers are natural numbers drawn
  from \<open>next_id\<close>, which stands for the generation of fresh UUIDs; a date is an integer number of
  seconds. Columns no modelled operation reads or writes are left out.

  An operation takes the database and returns an exception or the new database with its
  result: a request runs in one transaction, so a raised exception leaves the database as it
  was. A query reads the committed rows.
\<close>

section \<open>Names\<close>

definition slug_char :: "bool \<Rightarrow> char \<Rightarrow> bool" where
  "slug_char us c = (is_lower_az c \<or> is_dig c \<or> c = CHR ''-'' \<or> (us \<and> c = CHR ''_''))"

definition alnum_lower :: "char \<Rightarrow> bool" where
  "alnum_lower c = (is_lower_az c \<or> is_dig c)"

text \<open>
  The strings of \<open>[a-z0-9]([a-z0-9-]{0,61}[a-z0-9])?\<close>, with the underscore among the inner
  characters when \<open>us\<close> is set.
\<close>

definition slug :: "bool \<Rightarrow> string \<Rightarrow> bool" where
  "slug us s =
     (s \<noteq> [] \<and> length s \<le> 63 \<and> alnum_lower (hd s) \<and> alnum_lower (last s)
      \<and> list_all (slug_char us) s)"

text \<open>
  \<open>re.match("^...$", s)\<close>: the dollar also matches in front of a final newline, so the validator
  admits a name followed by one line feed. The check constraint of the database does not.
\<close>

definition slug_match :: "bool \<Rightarrow> string \<Rightarrow> bool" where
  "slug_match us s = (slug us s \<or> (s \<noteq> [] \<and> last s = CHR 0x0A \<and> slug us (butlast s)))"

definition validate_name :: "bool \<Rightarrow> string \<Rightarrow> string res" where
  "validate_name us value =
     (if value = [] then Inl (ValueError ''empty'')
      else if 63 < length value then Inl (ValueError ''length'')
      else if \<not> slug_match us value then Inl (ValueError ''format'')
      else Inr (py_lower value))"

lemma py_lower_slug: "slug us s \<Longrightarrow> py_lower s = s"
proof -
  have "slug_char us c \<Longrightarrow> py_lower_char c = c" for c
    by (auto simp: slug_char_def py_lower_char_def is_lower_az_def is_dig_def Let_def)
  then show "slug us s \<Longrightarrow> py_lower s = s"
    by (auto simp: slug_def py_lower_def list_all_iff intro: map_idI)
qed

lemma validate_name_slug: "slug us s \<Longrightarrow> validate_name us s = Inr s"
  by (auto simp: validate_name_def slug_match_def py_lower_slug) (auto simp: slug_def)

section \<open>Rows\<close>

record user_row =
  u_id :: nat
  u_email :: string
  u_name :: "string option"

record account_row =
  a_id :: nat
  a_user_id :: nat

record namespace_row =
  ns_id :: nat
  ns_account_id :: nat
  ns_name :: string
  ns_description :: "string option"
  ns_network_allowlist :: "string list option"
  ns_allowlist_updated_at :: "int option"
  ns_allowlist_changes_today :: int
  ns_call_count :: int
  ns_deleted_at :: "int option"

record service_row =
  svc_id :: nat
  svc_namespace_id :: nat
  svc_name :: string
  svc_description :: "string option"
  svc_call_count :: int

record function_row =
  fn_id :: nat
  fn_service_id :: nat
  fn_name :: string
  fn_description :: "string option"
  fn_tags :: "string list option"
  fn_output_trust :: string
  fn_active_version :: int
  fn_call_count :: int
  fn_locked :: bool
  fn_locked_by :: "nat option"
  fn_locked_at :: "int option"
  fn_public_safe :: bool
  fn_deleted_at :: "int option"

record version_row =
  fv_id :: nat
  fv_function_id :: nat
  fv_version :: int
  fv_backend :: string
  fv_language :: string
  fv_code :: "string option"
  fv_config :: "json option"
  fv_input_schema :: "json option"
  fv_output_schema :: "json option"
  fv_requirements :: "string list option"
  fv_required_env :: "string list option"
  fv_optional_env :: "string list option"
  fv_created_by :: "string option"
  fv_created_at :: int

datatype share_status = Pending | Accepted | Declined | Revoked

record share_row =
  sh_id :: nat
  sh_namespace_id :: nat
  sh_user_id :: nat
  sh_granted_by :: "nat option"
  sh_permissions :: "string list"
  sh_status :: share_status
  sh_accepted_at :: "int option"
  sh_revoked_at :: "int option"

record procedure_row =
  pr_id :: nat
  pr_namespace_id :: nat
  pr_service_id :: nat
  pr_name :: string
  pr_description :: "string option"
  pr_active_version :: int
  pr_is_deleted :: bool

type_synonym json_dict = "(string \<times> json) list"

record pversion_row =
  pv_id :: nat
  pv_procedure_id :: nat
  pv_version :: int
  pv_steps :: "json_dict list"
  pv_created_by :: "string option"

record pexec_row =
  pe_id :: nat
  pe_procedure_id :: nat
  pe_procedure_version :: int
  pe_agent_id :: "nat option"
  pe_trigger_type :: string
  pe_status :: string
  pe_current_step :: int
  pe_step_results :: "json list"
  pe_input_context :: "json option"
  pe_completed_at :: "int option"
  pe_error :: "string option"

record platform_db =
  users :: "user_row list"
  accounts :: "account_row list"
  namespaces :: "namespace_row list"
  services :: "service_row list"
  funcs :: "function_row list"
  fversions :: "version_row list"
  shares :: "share_row list"
  procs :: "procedure_row list"
  pversions :: "pversion_row list"
  pexecs :: "pexec_row list"
  next_id :: nat

definition empty_db :: platform_db where
  "empty_db = \<lparr>users = [], accounts = [], namespaces = [], services = [], funcs = [], fversions = [],
     shares = [], procs = [], pversions = [], pexecs = [], next_id = 0\<rparr>"

section \<open>Updating one row\<close>

definition update_row :: "('r \<Rightarrow> nat) \<Rightarrow> nat \<Rightarrow> ('r \<Rightarrow> 'r) \<Rightarrow> 'r list \<Rightarrow> 'r list" where
  "update_row rid i f rows = map (\<lambda>r. if rid r = i then f r else r) rows"

lemma map_update_row:
  "(\<And>r. rid r = i \<Longrightarrow> g (f r) = g r) \<Longrightarrow> map g (update_row rid i f rows) = map g rows"
  by (auto simp: update_row_def)

lemma in_update_row:
  "x \<in> set (update_row rid i f rows) \<longleftrightarrow>
     (\<exists>r\<in>set rows. x = (if rid r = i then f r else r))"
  unfolding update_row_def set_map image_iff by simp

lemma update_row_hit:
  "r \<in> set rows \<Longrightarrow> rid r = i \<Longrightarrow> f r \<in> set (update_row rid i f rows)"
  by (force simp: update_row_def)

lemma distinct_update_row [simp]:
  "(\<And>r. rid r = i \<Longrightarrow> g (f r) = g r) \<Longrightarrow>
     distinct (map g (update_row rid i f rows)) = distinct (map g rows)"
  by (simp add: map_update_row)

lemma length_update_row [simp]: "length (update_row rid i f rows) = length rows"
  by (simp add: update_row_def)

lemma distinct_key_unique:
  "distinct (map g xs) \<Longrightarrow> x \<in> set xs \<Longrightarrow> y \<in> set xs \<Longrightarrow> g x = g y \<Longrightarrow> x = y"
  by (metis distinct_map inj_onD)

lemma filter_update_row_other:
  "(\<And>r. rid r = i \<Longrightarrow> \<not> P r \<and> \<not> P (f r)) \<Longrightarrow> filter P (update_row rid i f rows) = filter P rows"
  by (induction rows) (auto simp: update_row_def)

lemma one_or_none_update_other:
  "(\<And>r. rid r = i \<Longrightarrow> \<not> P r \<and> \<not> P (f r)) \<Longrightarrow>
     one_or_none P (update_row rid i f rows) = one_or_none P rows"
  by (simp add: one_or_none_def filter_update_row_other)

lemma one_or_none_append_other:
  "list_all (\<lambda>r. \<not> P r) new \<Longrightarrow> one_or_none P (rows @ new) = one_or_none P rows"
  by (simp add: one_or_none_def list_all_iff)

end
