(* ===== verification/Machines.thy ===== *)
theory Machines
  imports Main
begin

text \<open>
  Two interfaces that the stores of the program share. A store handles a sequence of requests; a
  request that fails leaves the store as it was, so one request is a total function on the state.
  \<open>request_machine\<close> lifts an invariant from one request to a sequence of admissible requests, and
  \<open>version_history\<close> adds a table whose entries are never changed once they are written.
\<close>

locale request_machine =
  fixes apply_op :: "'s \<Rightarrow> 'o \<Rightarrow> 's"
    and inv :: "'s \<Rightarrow> bool"
    and admissible :: "'o \<Rightarrow> bool"
  assumes inv_apply: "inv s \<Longrightarrow> admissible r \<Longrightarrow> inv (apply_op s r)"
begin

lemma inv_run: "inv s \<Longrightarrow> list_all admissible rs \<Longrightarrow> inv (foldl apply_op s rs)"
  by (induction rs arbitrary: s) (auto intro: inv_apply)

lemma run_preserves:
  assumes "\<And>s r. inv s \<Longrightarrow> admissible r \<Longrightarrow> P s \<Longrightarrow> P (apply_op s r)"
    and "inv s" and "list_all admissible rs" and "P s"
  shows "P (foldl apply_op s rs)"
  using assms(2-4) by (induction rs arbitrary: s) (auto intro: inv_apply assms(1))

end

locale version_history = request_machine +
  fixes version_at :: "'a \<Rightarrow> 'k \<Rightarrow> 'v option"
  assumes version_apply:
    "inv s \<Longrightarrow> admissible r \<Longrightarrow> version_at s k = Some v \<Longrightarrow> version_at (apply_op s r) k = Some v"
begin

lemma version_run:
  "inv s \<Longrightarrow> list_all admissible rs \<Longrightarrow> version_at s k = Some v \<Longrightarrow>
     version_at (foldl apply_op s rs) k = Some v"
  by (rule run_preserves [where P = "\<lambda>s. version_at s k = Some v"]) (auto intro: version_apply)

end

end
