(* ===== verification/FunctionStore.thy ===== *)
theory FunctionStore
  imports Database Machines "HOL-Library.Multiset"
begin

text \<open>
  The function service (\<open>services/function.py\<close>, class \<open>FunctionService\<close>) with the validators
  of \<open>models/function.py\<close> and \<open>models/function_version.py\<close>: one definition per method.
  \<open>fn_inv\<close> is the invariant of the two tables, \<open>fn_step\<close> the transitions the service makes, and
  the locale \<open>version_history\<close> the interface of a store whose versions never change once written.
\<close>

section \<open>Versions\<close>

record version_spec =
  vs_backend :: string
  vs_code :: "string option"
  vs_config :: "json option"
  vs_input_schema :: "json option"
  vs_output_schema :: "json option"
  vs_requirements :: "string list option"
  vs_required_env :: "string list option"
  vs_optional_env :: "string list option"
  vs_created_by :: "string option"

definition ALLOWED_BACKENDS :: "string list" where
  "ALLOWED_BACKENDS = [''code_sandbox'', ''nanobot'', ''github_repo'']"

definition ALLOWED_LANGUAGES :: "string list" where
  "ALLOWED_LANGUAGES = [''python'', ''typescript'']"

text \<open>
  The constructor \<open>FunctionVersion(...)\<close> with its three validators, and the insertion of the row:
  the column \<open>created_by\<close> holds at most 100 characters.
\<close>

definition new_version ::
  "nat \<Rightarrow> nat \<Rightarrow> int \<Rightarrow> string \<Rightarrow> version_spec \<Rightarrow> int \<Rightarrow> version_row res" where
  "new_version vid fid n language spec now =
     (if n < 1 then Inl (ValueError ''version'')
      else if vs_backend spec \<notin> set ALLOWED_BACKENDS then Inl (ValueError ''backend'')
      else if language \<notin> set ALLOWED_LANGUAGES then Inl (ValueError ''language'')
      else if (case vs_created_by spec of None \<Rightarrow> False | Some s \<Rightarrow> 100 < length s) then Inl DBAPIError
      else Inr \<lparr>fv_id = vid, fv_function_id = fid, fv_version = n, fv_backend = vs_backend spec,
                fv_language = language, fv_code = vs_code spec, fv_config = vs_config spec,
                fv_input_schema = vs_input_schema spec, fv_output_schema = vs_output_schema spec,
                fv_requirements = vs_requirements spec, fv_required_env = vs_required_env spec,
                fv_optional_env = vs_optional_env spec, fv_created_by = vs_created_by spec,
                fv_created_at = now\<rparr>)"

text \<open>\<open>Function.versions\<close>, ordered by descending version number.\<close>

definition versions_of :: "platform_db \<Rightarrow> nat \<Rightarrow> version_row list" where
  "versions_of db fid = rev (sort_key fv_version (filter (\<lambda>v. fv_function_id v = fid) (fversions db)))"

definition next_version :: "version_row list \<Rightarrow> int" where
  "next_version vs = (if vs = [] then 0 else Max (set (map fv_version vs))) + 1"

definition get_active_version_obj :: "platform_db \<Rightarrow> function_row \<Rightarrow> version_row option" where
  "get_active_version_obj db f = find (\<lambda>v. fv_version v = fn_active_version f) (versions_of db (fn_id f))"

section \<open>Operations\<close>

text \<open>
  The three parts of \<open>create\<close>: the row that a new function gets, the changes made to a soft-deleted
  row that is taken up again, and the method itself.
\<close>

definition new_function_row ::
  "nat \<Rightarrow> nat \<Rightarrow> string \<Rightarrow> string option \<Rightarrow> string list option \<Rightarrow> string \<Rightarrow> bool \<Rightarrow> function_row" where
  "new_function_row fid service_id name description tags output_trust public_safe =
     \<lparr>fn_id = fid, fn_service_id = service_id, fn_name = name, fn_description = description,
      fn_tags = tags, fn_output_trust = output_trust, fn_active_version = 1, fn_call_count = 0,
      fn_locked = False, fn_locked_by = None, fn_locked_at = None, fn_public_safe = public_safe,
      fn_deleted_at = None\<rparr>"

definition revive_function_row ::
  "string option \<Rightarrow> string list option \<Rightarrow> string \<Rightarrow> int \<Rightarrow> function_row \<Rightarrow> function_row" where
  "revive_function_row description tags output_trust n f =
     f\<lparr>fn_description := description, fn_tags := tags, fn_output_trust := output_trust,
       fn_deleted_at := None, fn_locked := False, fn_locked_by := None, fn_locked_at := None,
       fn_active_version := n\<rparr>"

definition fn_create ::
  "platform_db \<Rightarrow> int \<Rightarrow> nat \<Rightarrow> string \<Rightarrow> string option \<Rightarrow> string list option \<Rightarrow> version_spec \<Rightarrow> string
   \<Rightarrow> bool \<Rightarrow> string \<Rightarrow> (platform_db \<times> function_row) res" where
  "fn_create db now service_id name description tags spec language public_safe output_trust =
     res_bind (one_or_none (\<lambda>f. fn_service_id f = service_id \<and> fn_name f = py_lower name) (funcs db))
     (\<lambda>existing. case existing of
        Some old \<Rightarrow>
          if fn_deleted_at old = None then Inl (ConflictError ''Function'')
          else
            (let n = next_version (versions_of db (fn_id old));
                 g = revive_function_row description tags output_trust n
             in res_bind (new_version (next_id db) (fn_id old) n language spec now)
                (\<lambda>v. if 10 < length output_trust then Inl DBAPIError
                     else Inr (db\<lparr>funcs := update_row fn_id (fn_id old) g (funcs db),
                                  fversions := fversions db @ [v],
                                  next_id := Suc (next_id db)\<rparr>, g old)))
      | None \<Rightarrow>
          res_bind (validate_name True (py_lower name))
          (\<lambda>nm. let fid = next_id db;
                    f = new_function_row fid service_id nm description tags output_trust public_safe
                in if 10 < length output_trust then Inl DBAPIError
                   else if \<not> slug True nm \<or> service_id \<notin> set (map svc_id (services db))
                   then Inl IntegrityError
                   else res_bind (new_version (Suc fid) fid 1 language spec now)
                        (\<lambda>v. Inr (db\<lparr>funcs := funcs db @ [f], fversions := fversions db @ [v],
                                     next_id := Suc (Suc fid)\<rparr>, f))))"

definition fn_get_by_id :: "platform_db \<Rightarrow> nat \<Rightarrow> function_row res" where
  "fn_get_by_id db function_id =
     res_bind (one_or_none (\<lambda>f. fn_id f = function_id \<and> fn_deleted_at f = None) (funcs db))
     (\<lambda>r. case r of None \<Rightarrow> Inl (NotFoundError ''Function'') | Some f \<Rightarrow> Inr f)"

definition fn_get_by_name :: "platform_db \<Rightarrow> nat \<Rightarrow> string \<Rightarrow> function_row res" where
  "fn_get_by_name db service_id name =
     res_bind (one_or_none (\<lambda>f. fn_service_id f = service_id \<and> fn_name f = py_lower name
                               \<and> fn_deleted_at f = None) (funcs db))
     (\<lambda>r. case r of None \<Rightarrow> Inl (NotFoundError ''Function'') | Some f \<Rightarrow> Inr f)"

text \<open>
  \<open>list\<close>: \<open>overlap\<close> is the array overlap of the database. The collation that \<open>ORDER BY\<close> follows is
  a setting of the database, so the sort key it induces is an argument. A negative \<open>LIMIT\<close> or
  \<open>OFFSET\<close> is refused by the database.
\<close>

definition overlap :: "string list option \<Rightarrow> string list \<Rightarrow> bool" where
  "overlap us ts = (case us of None \<Rightarrow> False | Some xs \<Rightarrow> list_ex (\<lambda>t. t \<in> set xs) ts)"

definition paginate :: "int \<Rightarrow> int \<Rightarrow> 'a list \<Rightarrow> 'a list res" where
  "paginate page page_size rows =
     (if page_size < 0 \<or> (page - 1) * page_size < 0 then Inl DBAPIError
      else Inr (take (nat page_size) (drop (nat ((page - 1) * page_size)) rows)))"

definition fn_list ::
  "(string \<Rightarrow> int) \<Rightarrow> platform_db \<Rightarrow> nat \<Rightarrow> int \<Rightarrow> int \<Rightarrow> string list option
   \<Rightarrow> (function_row list \<times> nat) res" where
  "fn_list collation db service_id page page_size tags =
     (let rows = filter (\<lambda>f. fn_service_id f = service_id \<and> fn_deleted_at f = None
                   \<and> (case tags of None \<Rightarrow> True | Some ts \<Rightarrow> ts = [] \<or> overlap (fn_tags f) ts))
                   (funcs db)
      in res_bind (paginate page page_size (sort_key (collation \<circ> fn_name) rows))
         (\<lambda>fs. Inr (fs, length rows)))"

definition fn_update ::
  "platform_db \<Rightarrow> nat \<Rightarrow> string option \<Rightarrow> string list option \<Rightarrow> bool option \<Rightarrow> string option
   \<Rightarrow> (platform_db \<times> function_row) res" where
  "fn_update db function_id description tags public_safe output_trust =
     res_bind (fn_get_by_id db function_id)
     (\<lambda>f. let g = (\<lambda>f. f\<lparr>fn_description := (if description = None then fn_description f else description),
                        fn_tags := (if tags = None then fn_tags f else tags),
                        fn_public_safe := (case public_safe of None \<Rightarrow> fn_public_safe f | Some b \<Rightarrow> b),
                        fn_output_trust := (case output_trust of None \<Rightarrow> fn_output_trust f | Some t \<Rightarrow> t)\<rparr>)
          in if (case output_trust of None \<Rightarrow> False | Some t \<Rightarrow> 10 < length t) then Inl DBAPIError
             else Inr (db\<lparr>funcs := update_row fn_id function_id g (funcs db)\<rparr>, g f))"

definition version_language :: "version_row list \<Rightarrow> string option \<Rightarrow> string res" where
  "version_language vs language =
     (case vs of
        v # _ \<Rightarrow> (case language of
                    None \<Rightarrow> Inr (fv_language v)
                  | Some l \<Rightarrow> if l \<noteq> fv_language v then Inl (ValueError ''language'') else Inr l)
      | [] \<Rightarrow> (case language of None \<Rightarrow> Inr ''python'' | Some l \<Rightarrow> Inr l))"

definition fn_create_version ::
  "platform_db \<Rightarrow> int \<Rightarrow> nat \<Rightarrow> version_spec \<Rightarrow> bool \<Rightarrow> bool \<Rightarrow> string option
   \<Rightarrow> (platform_db \<times> version_row) res" where
  "fn_create_version db now function_id spec activate is_admin language =
     res_bind (fn_get_by_id db function_id)
     (\<lambda>f. if fn_locked f \<and> \<not> is_admin then Inl (ForbiddenError ''locked'')
          else res_bind (version_language (versions_of db function_id) language)
          (\<lambda>lang. let n = next_version (versions_of db function_id)
             in res_bind (new_version (next_id db) function_id n lang spec now)
                (\<lambda>v. Inr (db\<lparr>funcs := (if activate
                                        then update_row fn_id function_id
                                               (\<lambda>f. f\<lparr>fn_active_version := n\<rparr>) (funcs db)
                                        else funcs db),
                             fversions := fversions db @ [v],
                             next_id := Suc (next_id db)\<rparr>, v))))"

definition fn_get_version :: "platform_db \<Rightarrow> nat \<Rightarrow> int \<Rightarrow> version_row res" where
  "fn_get_version db function_id version =
     res_bind (one_or_none (\<lambda>v. fv_function_id v = function_id \<and> fv_version v = version) (fversions db))
     (\<lambda>r. case r of None \<Rightarrow> Inl (NotFoundError ''Version'') | Some v \<Rightarrow> Inr v)"

definition fn_get_active_version :: "platform_db \<Rightarrow> nat \<Rightarrow> version_row res" where
  "fn_get_active_version db function_id =
     res_bind (fn_get_by_id db function_id)
     (\<lambda>f. fn_get_version db function_id (fn_active_version f))"

definition fn_set_active_version ::
  "platform_db \<Rightarrow> nat \<Rightarrow> int \<Rightarrow> (platform_db \<times> function_row) res" where
  "fn_set_active_version db function_id version =
     res_bind (fn_get_by_id db function_id)
     (\<lambda>f. res_bind (fn_get_version db function_id version)
       (\<lambda>_. if version < 1 then Inl (ValueError ''active_version'')
            else Inr (db\<lparr>funcs := update_row fn_id function_id
                            (\<lambda>f. f\<lparr>fn_active_version := version\<rparr>) (funcs db)\<rparr>,
                      f\<lparr>fn_active_version := version\<rparr>)))"

definition fn_delete :: "platform_db \<Rightarrow> int \<Rightarrow> nat \<Rightarrow> bool \<Rightarrow> platform_db res" where
  "fn_delete db now function_id is_admin =
     res_bind (fn_get_by_id db function_id)
     (\<lambda>f. if fn_locked f \<and> \<not> is_admin then Inl (ForbiddenError ''locked'')
          else Inr (db\<lparr>funcs := update_row fn_id function_id
                          (\<lambda>f. f\<lparr>fn_deleted_at := Some now\<rparr>) (funcs db)\<rparr>))"

definition lock_function :: "platform_db \<Rightarrow> int \<Rightarrow> nat \<Rightarrow> nat \<Rightarrow> (platform_db \<times> function_row) res" where
  "lock_function db now function_id locked_by =
     res_bind (fn_get_by_id db function_id)
     (\<lambda>f. let g = (\<lambda>f. f\<lparr>fn_locked := True, fn_locked_by := Some locked_by, fn_locked_at := Some now\<rparr>)
          in if locked_by \<notin> set (map u_id (users db)) then Inl IntegrityError
             else Inr (db\<lparr>funcs := update_row fn_id function_id g (funcs db)\<rparr>, g f))"

definition unlock_function :: "platform_db \<Rightarrow> nat \<Rightarrow> (platform_db \<times> function_row) res" where
  "unlock_function db function_id =
     res_bind (fn_get_by_id db function_id)
     (\<lambda>f. let g = (\<lambda>f. f\<lparr>fn_locked := False, fn_locked_by := None, fn_locked_at := None\<rparr>)
          in Inr (db\<lparr>funcs := update_row fn_id function_id g (funcs db)\<rparr>, g f))"

text \<open>
  The two queries that join functions with the services of a namespace. A function belongs to
  one service, so the join selects the functions whose service is in the namespace.
\<close>

definition list_all_for_namespace :: "platform_db \<Rightarrow> nat \<Rightarrow> (function_row \<times> version_row) list" where
  "list_all_for_namespace db namespace_id =
     List.map_filter
       (\<lambda>f. if list_ex (\<lambda>s. svc_id s = fn_service_id f \<and> svc_namespace_id s = namespace_id) (services db)
               \<and> fn_deleted_at f = None
            then map_option (Pair f) (get_active_version_obj db f) else None)
       (funcs db)"

definition get_for_execution ::
  "platform_db \<Rightarrow> nat \<Rightarrow> string \<Rightarrow> string \<Rightarrow> (function_row \<times> version_row) res" where
  "get_for_execution db namespace_id service_name function_name =
     res_bind (one_or_none
        (\<lambda>f. list_ex (\<lambda>s. svc_id s = fn_service_id f \<and> svc_namespace_id s = namespace_id
                        \<and> svc_name s = py_lower service_name) (services db)
             \<and> fn_name f = py_lower function_name \<and> fn_deleted_at f = None) (funcs db))
     (\<lambda>r. case r of
            None \<Rightarrow> Inl (NotFoundError ''Function'')
          | Some f \<Rightarrow> (case get_active_version_obj db f of
                         None \<Rightarrow> Inl (NotFoundError ''active version'')
                       | Some v \<Rightarrow> Inr (f, v)))"

section \<open>Requests\<close>

datatype fn_op =
    FCreate int nat string "string option" "string list option" version_spec string bool string
  | FUpdate nat "string option" "string list option" "bool option" "string option"
  | FVersion int nat version_spec bool bool "string option"
  | FActivate nat int
  | FDelete int nat bool
  | FLock int nat nat
  | FUnlock nat

fun fn_exec :: "fn_op \<Rightarrow> platform_db \<Rightarrow> platform_db res" where
  "fn_exec (FCreate now sid name d ts spec lang ps ot) db =
     res_bind (fn_create db now sid name d ts spec lang ps ot) (Inr \<circ> fst)"
| "fn_exec (FUpdate i d ts ps ot) db = res_bind (fn_update db i d ts ps ot) (Inr \<circ> fst)"
| "fn_exec (FVersion now i spec act adm lang) db =
     res_bind (fn_create_version db now i spec act adm lang) (Inr \<circ> fst)"
| "fn_exec (FActivate i n) db = res_bind (fn_set_active_version db i n) (Inr \<circ> fst)"
| "fn_exec (FDelete now i adm) db = fn_delete db now i adm"
| "fn_exec (FLock now i u) db = res_bind (lock_function db now i u) (Inr \<circ> fst)"
| "fn_exec (FUnlock i) db = res_bind (unlock_function db i) (Inr \<circ> fst)"

definition fn_request :: "platform_db \<Rightarrow> fn_op \<Rightarrow> platform_db" where
  "fn_request db r = (case fn_exec r db of Inl _ \<Rightarrow> db | Inr db' \<Rightarrow> db')"

section \<open>The invariant of the two tables\<close>

definition version_ok :: "version_row \<Rightarrow> bool" where
  "version_ok v \<longleftrightarrow> 1 \<le> fv_version v \<and> fv_backend v \<in> set ALLOWED_BACKENDS
                  \<and> fv_language v \<in> set ALLOWED_LANGUAGES"

definition has_version :: "platform_db \<Rightarrow> nat \<Rightarrow> int \<Rightarrow> bool" where
  "has_version db i n = list_ex (\<lambda>v. fv_function_id v = i \<and> fv_version v = n) (fversions db)"

definition fn_inv :: "platform_db \<Rightarrow> bool" where
  "fn_inv db \<longleftrightarrow>
     distinct (map fn_id (funcs db))
     \<and> distinct (map (\<lambda>f. (fn_service_id f, fn_name f)) (funcs db))
     \<and> distinct (map (\<lambda>v. (fv_function_id v, fv_version v)) (fversions db))
     \<and> list_all (\<lambda>f. fn_id f < next_id db \<and> slug True (fn_name f)
                    \<and> fn_service_id f \<in> set (map svc_id (services db))
                    \<and> has_version db (fn_id f) (fn_active_version f)) (funcs db)
     \<and> list_all (\<lambda>v. version_ok v \<and> fv_function_id v \<in> set (map fn_id (funcs db))) (fversions db)"

lemma has_version_iff:
  "has_version db i n \<longleftrightarrow> (\<exists>v\<in>set (fversions db). fv_function_id v = i \<and> fv_version v = n)"
  by (auto simp: has_version_def list_ex_iff)

lemma set_versions_of [simp]:
  "set (versions_of db i) = {v \<in> set (fversions db). fv_function_id v = i}"
  by (auto simp: versions_of_def)

lemma next_version_above: "v \<in> set vs \<Longrightarrow> fv_version v < next_version vs"
  by (auto simp: next_version_def intro: le_imp_less_Suc)

lemma fn_inv_update:
  assumes "fn_inv db"
    and "\<And>f. fn_id (g f) = fn_id f \<and> fn_service_id (g f) = fn_service_id f \<and> fn_name (g f) = fn_name f"
    and "\<And>f. f \<in> set (funcs db) \<Longrightarrow> fn_id f = i \<Longrightarrow> has_version db i (fn_active_version (g f))"
  shows "fn_inv (db\<lparr>funcs := update_row fn_id i g (funcs db)\<rparr>)"
  using assms unfolding fn_inv_def
  by (auto simp: map_update_row list_all_iff in_update_row has_version_def)

lemma fn_inv_add_version:
  assumes "fn_inv db" and "version_ok v" and "fv_function_id v \<in> set (map fn_id (funcs db))"
    and "\<not> has_version db (fv_function_id v) (fv_version v)"
  shows "fn_inv (db\<lparr>fversions := fversions db @ [v], next_id := Suc (next_id db)\<rparr>)"
  using assms unfolding fn_inv_def
  by (auto simp: list_all_iff has_version_iff)

lemma fn_get_by_id_Inr:
  "fn_get_by_id db i = Inr f \<Longrightarrow> f \<in> set (funcs db) \<and> fn_id f = i \<and> fn_deleted_at f = None"
  by (auto simp: fn_get_by_id_def split: option.splits dest: one_or_none_Some)

lemma fn_get_by_id_iff:
  assumes "fn_inv db"
  shows "fn_get_by_id db i = Inr f \<longleftrightarrow> f \<in> set (funcs db) \<and> fn_id f = i \<and> fn_deleted_at f = None"
proof (rule iffI)
  assume f: "f \<in> set (funcs db) \<and> fn_id f = i \<and> fn_deleted_at f = None"
  then have "one_or_none (\<lambda>f. fn_id f = i \<and> fn_deleted_at f = None) (funcs db) = Inr (Some f)"
    using assms by (intro one_or_none_mem [where f = fn_id and k = i]) (auto simp: fn_inv_def)
  then show "fn_get_by_id db i = Inr f" by (simp add: fn_get_by_id_def)
qed (rule fn_get_by_id_Inr)

lemma fn_get_version_iff:
  assumes "fn_inv db"
  shows "fn_get_version db i n = Inr v \<longleftrightarrow>
           v \<in> set (fversions db) \<and> fv_function_id v = i \<and> fv_version v = n"
proof (rule iffI)
  assume v: "v \<in> set (fversions db) \<and> fv_function_id v = i \<and> fv_version v = n"
  then have "one_or_none (\<lambda>v. fv_function_id v = i \<and> fv_version v = n) (fversions db) = Inr (Some v)"
    using assms
    by (intro one_or_none_mem [where f = "\<lambda>v. (fv_function_id v, fv_version v)" and k = "(i, n)"])
      (auto simp: fn_inv_def)
  then show "fn_get_version db i n = Inr v" by (simp add: fn_get_version_def)
qed (auto simp: fn_get_version_def split: option.splits dest: one_or_none_Some)

lemma new_version_ok:
  assumes "new_version vid fid n lang spec now = Inr v"
  shows "version_ok v \<and> fv_function_id v = fid \<and> fv_version v = n \<and> fv_language v = lang"
  using assms by (auto simp: new_version_def version_ok_def split: if_splits)

lemma fresh_version: "\<not> has_version db i (next_version (versions_of db i))"
proof
  assume "has_version db i (next_version (versions_of db i))"
  then obtain v where "v \<in> set (versions_of db i)" "fv_version v = next_version (versions_of db i)"
    by (auto simp: has_version_iff)
  then show False using next_version_above by fastforce
qed

text \<open>Appending the next version of a function and then changing the row of that function.\<close>

lemma fn_inv_new_version:
  assumes inv: "fn_inv db" and f: "i \<in> set (map fn_id (funcs db))"
    and v: "new_version vid i (next_version (versions_of db i)) lang spec now = Inr v"
    and g: "\<And>f. fn_id (g f) = fn_id f \<and> fn_service_id (g f) = fn_service_id f \<and> fn_name (g f) = fn_name f
              \<and> fn_active_version (g f) \<in> {fn_active_version f, fv_version v}"
  shows "fn_inv (db\<lparr>funcs := update_row fn_id i g (funcs db), fversions := fversions db @ [v],
                   next_id := Suc (next_id db)\<rparr>)"
proof -
  let ?db = "db\<lparr>fversions := fversions db @ [v], next_id := Suc (next_id db)\<rparr>"
  have v': "version_ok v" "fv_function_id v = i" "\<not> has_version db i (fv_version v)"
    using new_version_ok [OF v] fresh_version by auto
  have "fn_inv ?db" using fn_inv_add_version [OF inv v'(1)] v' f by simp
  moreover have "has_version ?db i (fn_active_version (g f))"
    if "f \<in> set (funcs ?db)" "fn_id f = i" for f
    using that inv g [of f] v'(2) by (auto simp: fn_inv_def list_all_iff has_version_iff)
  ultimately have *: "fn_inv (?db\<lparr>funcs := update_row fn_id i g (funcs ?db)\<rparr>)"
    using g by (intro fn_inv_update) auto
  have "db\<lparr>funcs := update_row fn_id i g (funcs db), fversions := fversions db @ [v],
            next_id := Suc (next_id db)\<rparr> = ?db\<lparr>funcs := update_row fn_id i g (funcs ?db)\<rparr>" by simp
  then show ?thesis using * by (simp only:)
qed

lemma fn_inv_new_function:
  assumes inv: "fn_inv db" and sid: "sid \<in> set (map svc_id (services db))" and nm: "slug True nm"
    and fresh: "\<forall>f\<in>set (funcs db). \<not> (fn_service_id f = sid \<and> fn_name f = nm)"
    and v: "new_version vid (next_id db) 1 lang spec now = Inr v"
  shows "fn_inv (db\<lparr>funcs := funcs db @ [new_function_row (next_id db) sid nm d ts ot ps],
                   fversions := fversions db @ [v], next_id := Suc (Suc (next_id db))\<rparr>)"
  using inv sid nm fresh new_version_ok [OF v] unfolding fn_inv_def
  by (force simp: list_all_iff has_version_iff new_function_row_def)

lemma update_row_ident [simp]: "update_row rid i (\<lambda>r. r) rows = rows"
  by (auto simp: update_row_def intro: map_idI)

lemma fn_inv_create:
  assumes "fn_inv db" and "fn_create db now sid name d ts spec lang ps ot = Inr (db', f)"
  shows "fn_inv db'"
proof (cases "\<exists>old. one_or_none (\<lambda>f. fn_service_id f = sid \<and> fn_name f = py_lower name) (funcs db)
                   = Inr (Some old)")
  case True
  then obtain old where
    old: "one_or_none (\<lambda>f. fn_service_id f = sid \<and> fn_name f = py_lower name) (funcs db) = Inr (Some old)"
    by blast
  then have mem: "fn_id old \<in> set (map fn_id (funcs db))" by (auto dest: one_or_none_Some)
  from assms(2) old obtain v where
    "new_version (next_id db) (fn_id old) (next_version (versions_of db (fn_id old))) lang spec now = Inr v"
    and "db' = db\<lparr>funcs := update_row fn_id (fn_id old) (revive_function_row d ts ot
                       (next_version (versions_of db (fn_id old)))) (funcs db),
                  fversions := fversions db @ [v], next_id := Suc (next_id db)\<rparr>"
    by (auto simp: fn_create_def Let_def split: if_splits)
  then show ?thesis using assms(1) mem new_version_ok
    by (auto simp: revive_function_row_def intro!: fn_inv_new_version)
next
  case False
  with assms(2) have none:
    "one_or_none (\<lambda>f. fn_service_id f = sid \<and> fn_name f = py_lower name) (funcs db) = Inr None"
    by (auto simp: fn_create_def split: option.splits)
  with assms(2) obtain nm v where "validate_name True (py_lower name) = Inr nm" "slug True nm"
    and "sid \<in> set (map svc_id (services db))"
    and "new_version (Suc (next_id db)) (next_id db) 1 lang spec now = Inr v"
    and "db' = db\<lparr>funcs := funcs db @ [new_function_row (next_id db) sid nm d ts ot ps],
                  fversions := fversions db @ [v], next_id := Suc (Suc (next_id db))\<rparr>"
    by (auto simp: fn_create_def Let_def split: if_splits)
  moreover have "nm = py_lower name" if "validate_name True (py_lower name) = Inr nm" for nm
    using that by (auto simp: validate_name_def split: if_splits)
  ultimately show ?thesis using assms(1) none
    by (auto simp: one_or_none_None intro!: fn_inv_new_function)
qed

lemma fn_inv_create_version:
  assumes "fn_inv db" and "fn_create_version db now i spec act adm lang = Inr (db', v)"
  shows "fn_inv db'"
proof -
  let ?n = "next_version (versions_of db i)"
  let ?g = "\<lambda>f::function_row. if act then f\<lparr>fn_active_version := ?n\<rparr> else f"
  from assms(2) obtain f l where f: "fn_get_by_id db i = Inr f"
    and v: "new_version (next_id db) i ?n l spec now = Inr v"
    and db': "db' = db\<lparr>funcs := update_row fn_id i ?g (funcs db), fversions := fversions db @ [v],
                      next_id := Suc (next_id db)\<rparr>"
    by (auto simp: fn_create_version_def Let_def split: if_splits)
  have "fn_inv (db\<lparr>funcs := update_row fn_id i ?g (funcs db), fversions := fversions db @ [v],
                  next_id := Suc (next_id db)\<rparr>)"
    using fn_get_by_id_Inr [OF f] new_version_ok [OF v]
    by (intro fn_inv_new_version [OF assms(1) _ v]) auto
  then show ?thesis unfolding db' .
qed

lemma fn_inv_active:
  "fn_inv db \<Longrightarrow> f \<in> set (funcs db) \<Longrightarrow> has_version db (fn_id f) (fn_active_version f)"
  by (simp add: fn_inv_def list_all_iff)

lemma fn_inv_exec: "fn_inv db \<Longrightarrow> fn_exec r db = Inr db' \<Longrightarrow> fn_inv db'"
proof (induction r db rule: fn_exec.induct)
  case 1 then show ?case by (auto intro: fn_inv_create)
next
  case (2 i d ts ps ot db)
  then show ?case
    by (auto simp: fn_update_def Let_def fn_inv_active intro!: fn_inv_update split: if_splits)
next
  case 3 then show ?case by (auto intro: fn_inv_create_version)
next
  case (4 i n db)
  then show ?case
    by (auto simp: fn_set_active_version_def fn_get_version_iff has_version_iff
        intro!: fn_inv_update split: if_splits)
qed (auto simp: fn_delete_def lock_function_def unlock_function_def fn_inv_active Let_def
       intro!: fn_inv_update split: if_splits)

lemma fn_exec_versions: "fn_exec r db = Inr db' \<Longrightarrow> \<exists>new. fversions db' = fversions db @ new"
  by (induction r db rule: fn_exec.induct)
    (auto simp: fn_create_def fn_update_def fn_create_version_def fn_set_active_version_def fn_delete_def
       lock_function_def unlock_function_def Let_def split: if_splits option.splits)

definition version_at :: "platform_db \<Rightarrow> nat \<times> int \<Rightarrow> version_row option" where
  "version_at db k = (case fn_get_version db (fst k) (snd k) of Inl _ \<Rightarrow> None | Inr v \<Rightarrow> Some v)"

lemma version_at_iff:
  "fn_inv db \<Longrightarrow> version_at db (i, n) = Some v \<longleftrightarrow>
     v \<in> set (fversions db) \<and> fv_function_id v = i \<and> fv_version v = n"
  by (auto simp: version_at_def fn_get_version_iff [symmetric] split: sum.splits)

interpretation fn_store: version_history fn_request fn_inv "\<lambda>_. True" version_at
proof
  fix db r k v
  show inv: "fn_inv (fn_request db r)" if "fn_inv db" for db
    using that by (auto simp: fn_request_def intro: fn_inv_exec split: sum.splits)
  show "version_at (fn_request db r) k = Some v" if "fn_inv db" "version_at db k = Some v"
    using that inv [of db]
    by (cases k) (auto simp: fn_request_def version_at_iff dest!: fn_exec_versions split: sum.splits)
qed

section \<open>Locked functions\<close>

text \<open>Requests on function \<open>i\<close> that neither unlock it nor use the privileges of an administrator.\<close>

fun unprivileged :: "nat \<Rightarrow> fn_op \<Rightarrow> bool" where
  "unprivileged i (FUnlock j) = (j \<noteq> i)"
| "unprivileged i (FVersion _ j _ _ adm _) = (j = i \<longrightarrow> \<not> adm)"
| "unprivileged i (FDelete _ j adm) = (j = i \<longrightarrow> \<not> adm)"
| "unprivileged i _ = True"

definition locked_live :: "platform_db \<Rightarrow> nat \<Rightarrow> bool" where
  "locked_live db i = list_ex (\<lambda>f. fn_id f = i \<and> fn_locked f \<and> fn_deleted_at f = None) (funcs db)"

definition frozen :: "nat \<Rightarrow> version_row list \<Rightarrow> platform_db \<Rightarrow> bool" where
  "frozen i vs db \<longleftrightarrow> fn_inv db \<and> locked_live db i \<and> versions_of db i = vs"

lemma locked_live_iff:
  "locked_live db i \<longleftrightarrow> (\<exists>f\<in>set (funcs db). fn_id f = i \<and> fn_locked f \<and> fn_deleted_at f = None)"
  by (auto simp: locked_live_def list_ex_iff)

lemma locked_live_update:
  assumes "locked_live db i"
    and "\<And>f. j = i \<Longrightarrow> fn_locked f \<and> fn_deleted_at f = None \<Longrightarrow>
           fn_id (g f) = fn_id f \<and> fn_locked (g f) \<and> fn_deleted_at (g f) = None"
    and "funcs db' = update_row fn_id j g (funcs db)"
  shows "locked_live db' i"
proof -
  obtain f where f: "f \<in> set (funcs db)" "fn_id f = i" "fn_locked f" "fn_deleted_at f = None"
    using assms(1) by (auto simp: locked_live_iff)
  let ?f = "if fn_id f = j then g f else f"
  have "?f \<in> set (update_row fn_id j g (funcs db))" using f(1) by (auto simp: in_update_row)
  moreover have "fn_id ?f = i \<and> fn_locked ?f \<and> fn_deleted_at ?f = None" using f assms(2) by simp
  ultimately show ?thesis unfolding locked_live_iff assms(3) by (intro bexI [of _ ?f]) simp_all
qed

lemma locked_live_funcs:
  assumes "locked_live db i"
    and "\<And>f. j = i \<Longrightarrow> fn_locked f \<and> fn_deleted_at f = None \<Longrightarrow>
           fn_id (g f) = fn_id f \<and> fn_locked (g f) \<and> fn_deleted_at (g f) = None"
  shows "locked_live (db\<lparr>funcs := update_row fn_id j g (funcs db)\<rparr>) i"
  using assms by (rule locked_live_update) simp_all

lemma locked_live_cong: "funcs db' = funcs db \<Longrightarrow> locked_live db' i = locked_live db i"
  by (simp add: locked_live_def)

lemma locked_row:
  assumes "fn_inv db" "locked_live db i" "f \<in> set (funcs db)" "fn_id f = i"
  shows "fn_locked f \<and> fn_deleted_at f = None"
proof -
  obtain g where g: "g \<in> set (funcs db)" "fn_id g = i" "fn_locked g" "fn_deleted_at g = None"
    using assms(2) by (auto simp: locked_live_iff)
  have "g = f" using assms(1,3,4) g(1,2) by (intro distinct_key_unique [of fn_id "funcs db"]) (auto simp: fn_inv_def)
  with g show ?thesis by simp
qed

lemma versions_of_append:
  "fversions db' = fversions db @ [v] \<Longrightarrow> fv_function_id v \<noteq> i \<Longrightarrow> versions_of db' i = versions_of db i"
  by (simp add: versions_of_def)

lemma versions_of_cong: "fversions db' = fversions db \<Longrightarrow> versions_of db' i = versions_of db i"
  by (simp add: versions_of_def)

lemma frozen_create:
  assumes "fn_inv db" and lk: "locked_live db i" and "fn_create db now sid name d ts spec lang ps ot = Inr (db', f)"
  shows "locked_live db' i \<and> versions_of db' i = versions_of db i"
proof (cases "\<exists>old. one_or_none (\<lambda>f. fn_service_id f = sid \<and> fn_name f = py_lower name) (funcs db)
                   = Inr (Some old)")
  case True
  then obtain old where
    old: "one_or_none (\<lambda>f. fn_service_id f = sid \<and> fn_name f = py_lower name) (funcs db) = Inr (Some old)"
    by blast
  from assms(3) old obtain v where del: "fn_deleted_at old \<noteq> None" and
    v: "new_version (next_id db) (fn_id old) (next_version (versions_of db (fn_id old))) lang spec now = Inr v"
    and db': "db' = db\<lparr>funcs := update_row fn_id (fn_id old) (revive_function_row d ts ot
                       (next_version (versions_of db (fn_id old)))) (funcs db),
                  fversions := fversions db @ [v], next_id := Suc (next_id db)\<rparr>"
    by (auto simp: fn_create_def Let_def split: if_splits)
  have "fn_id old \<noteq> i"
    using locked_row [OF assms(1) lk] del one_or_none_Some [OF old] by auto
  then show ?thesis using new_version_ok [OF v] unfolding db'
    by (auto intro: locked_live_update [OF lk] versions_of_append)
next
  case False
  with assms(3) have none:
    "one_or_none (\<lambda>f. fn_service_id f = sid \<and> fn_name f = py_lower name) (funcs db) = Inr None"
    by (auto simp: fn_create_def split: option.splits)
  with assms(3) obtain nm v where v: "new_version (Suc (next_id db)) (next_id db) 1 lang spec now = Inr v"
    and db': "db' = db\<lparr>funcs := funcs db @ [new_function_row (next_id db) sid nm d ts ot ps],
                  fversions := fversions db @ [v], next_id := Suc (Suc (next_id db))\<rparr>"
    by (auto simp: fn_create_def Let_def split: if_splits)
  have "next_id db \<noteq> i" using lk assms(1) by (auto simp: locked_live_iff fn_inv_def list_all_iff)
  then show ?thesis using lk new_version_ok [OF v] unfolding db'
    by (auto simp: versions_of_def locked_live_def)
qed

lemma frozen_exec:
  assumes "fn_inv db" and "locked_live db i" and "unprivileged i r" and "fn_exec r db = Inr db'"
  shows "locked_live db' i \<and> versions_of db' i = versions_of db i"
proof (cases r)
  case FCreate then show ?thesis using assms frozen_create by auto
next
  case FUpdate
  then show ?thesis using assms
    by (auto simp: fn_update_def Let_def intro!: locked_live_funcs versions_of_cong split: if_splits)
next
  case (FVersion now j spec act adm lang)
  show ?thesis
  proof (cases "j = i")
    case True
    then show ?thesis using assms(3,4) FVersion locked_row [OF assms(1,2)]
      by (auto simp: fn_create_version_def dest!: fn_get_by_id_Inr)
  next
    case False
    then show ?thesis using assms(2-4) FVersion
      by (auto simp: fn_create_version_def Let_def dest!: new_version_ok split: if_splits
          intro: locked_live_update [OF assms(2)] locked_live_cong [THEN iffD2] versions_of_append)
  qed
next
  case (FActivate)
  then show ?thesis using assms
    by (auto simp: fn_set_active_version_def intro!: locked_live_funcs versions_of_cong split: if_splits)
next
  case (FDelete now j adm)
  then show ?thesis using assms(2-4) locked_row [OF assms(1,2)]
    by (auto simp: fn_delete_def dest!: fn_get_by_id_Inr
        intro!: locked_live_funcs versions_of_cong split: if_splits)
next
  case FLock
  then show ?thesis using assms
    by (auto simp: lock_function_def Let_def intro!: locked_live_funcs versions_of_cong split: if_splits)
next
  case FUnlock
  then show ?thesis using assms
    by (auto simp: unlock_function_def Let_def intro!: locked_live_funcs versions_of_cong)
qed
interpretation fn_lock: request_machine fn_request "frozen i vs" "unprivileged i" for i vs
  by unfold_locales
    (auto simp: fn_request_def frozen_def dest: fn_inv_exec frozen_exec split: sum.splits)

section \<open>Properties of the function service\<close>

text \<open>
  C10: Starting from well-formed tables, no sequence of requests to the function service, failed
  ones included, breaks the tables' invariant, and every version that could be fetched before
  is fetched unchanged afterwards: function versions are immutable.\<close>

theorem function_versions_immutable:
  assumes "fn_inv db"
  shows "fn_inv (foldl fn_request db rs)
         \<and> (\<forall>i n v. fn_get_version db i n = Inr v \<longrightarrow> fn_get_version (foldl fn_request db rs) i n = Inr v)"
proof (intro conjI allI impI)
  show inv: "fn_inv (foldl fn_request db rs)" using assms by (intro fn_store.inv_run) (auto simp: list_all_iff)
  fix i n v assume "fn_get_version db i n = Inr v"
  then have "version_at db (i, n) = Some v" by (simp add: version_at_def)
  then have "version_at (foldl fn_request db rs) (i, n) = Some v"
    using assms by (intro fn_store.version_run) (auto simp: list_all_iff)
  then show "fn_get_version (foldl fn_request db rs) i n = Inr v"
    using inv by (simp add: version_at_iff fn_get_version_iff)
qed

text \<open>
  C16: Publishing a version with \<open>activate\<close> makes it the version that \<open>get_active_version\<close> returns,
  with the code that was submitted and a number above every earlier version of the function;
  the active version of every other function is what it was.\<close>

theorem publish_round_trip:
  assumes inv: "fn_inv db" and op: "fn_create_version db now i spec True adm lang = Inr (db', v)"
  shows "fn_get_active_version db' i = Inr v \<and> fv_code v = vs_code spec
         \<and> (\<forall>w. w \<in> set (versions_of db i) \<longrightarrow> fv_version w < fv_version v)
         \<and> (\<forall>j. j \<noteq> i \<longrightarrow> fn_get_active_version db' j = fn_get_active_version db j)"
proof -
  let ?n = "next_version (versions_of db i)"
  from op obtain f l where f: "fn_get_by_id db i = Inr f"
    and v: "new_version (next_id db) i ?n l spec now = Inr v"
    and db': "db' = db\<lparr>funcs := update_row fn_id i (\<lambda>f. f\<lparr>fn_active_version := ?n\<rparr>) (funcs db),
                      fversions := fversions db @ [v], next_id := Suc (next_id db)\<rparr>"
    by (auto simp: fn_create_version_def Let_def split: if_splits)
  have inv': "fn_inv db'" by (rule fn_inv_create_version [OF inv op])
  have v': "fv_function_id v = i" "fv_version v = ?n" using new_version_ok [OF v] by auto
  have "f\<lparr>fn_active_version := ?n\<rparr> \<in> set (funcs db')"
    using fn_get_by_id_Inr [OF f] unfolding db' by (auto intro!: update_row_hit)
  then have f': "fn_get_by_id db' i = Inr (f\<lparr>fn_active_version := ?n\<rparr>)"
    using fn_get_by_id_Inr [OF f] by (simp add: fn_get_by_id_iff [OF inv'])
  have "fn_get_version db' i ?n = Inr v"
    unfolding fn_get_version_iff [OF inv'] using v' by (simp add: db')
  with f' have "fn_get_active_version db' i = Inr v" by (simp add: fn_get_active_version_def)
  moreover have "fv_code v = vs_code spec" using v by (auto simp: new_version_def split: if_splits)
  moreover have "fn_get_active_version db' j = fn_get_active_version db j" if "j \<noteq> i" for j
    using that v' unfolding db'
    by (simp add: fn_get_active_version_def fn_get_by_id_def fn_get_version_def one_or_none_update_other
        one_or_none_append_other)
  ultimately show ?thesis using v' next_version_above by auto
qed


text \<open>
  C17: While a function is locked, no sequence of requests that neither unlocks it nor acts as an
  administrator adds, removes or changes any of its versions, deletes it or unlocks it.\<close>

theorem locked_function_keeps_versions:
  assumes "fn_inv db" and "locked_live db i" and "list_all (unprivileged i) rs"
  shows "versions_of (foldl fn_request db rs) i = versions_of db i
         \<and> locked_live (foldl fn_request db rs) i"
  using fn_lock.inv_run [of i "versions_of db i" db rs] assms by (simp add: frozen_def)

text \<open>The lock covers the versions only: metadata and the choice of the active version stay open.\<close>

lemma locked_update_succeeds:
  assumes "fn_get_by_id db i = Inr f" and "fn_locked f"
  shows "\<exists>db' f'. fn_update db i None None (Some b) None = Inr (db', f') \<and> fn_public_safe f' = b
                  \<and> fn_locked f'"
  using assms by (simp add: fn_update_def Let_def)

lemma fn_get_by_name_iff:
  assumes "fn_inv db"
  shows "fn_get_by_name db sid name = Inr f \<longleftrightarrow>
           f \<in> set (funcs db) \<and> fn_service_id f = sid \<and> fn_name f = py_lower name \<and> fn_deleted_at f = None"
proof (rule iffI)
  let ?P = "\<lambda>f. fn_service_id f = sid \<and> fn_name f = py_lower name \<and> fn_deleted_at f = None"
  assume f: "f \<in> set (funcs db) \<and> ?P f"
  then have "one_or_none ?P (funcs db) = Inr (Some f)"
    using assms
    by (intro one_or_none_mem [where f = "\<lambda>f. (fn_service_id f, fn_name f)" and k = "(sid, py_lower name)"])
      (auto simp: fn_inv_def)
  then show "fn_get_by_name db sid name = Inr f" by (simp add: fn_get_by_name_def)
qed (auto simp: fn_get_by_name_def split: option.splits dest: one_or_none_Some)

lemma next_version_positive: "fn_inv db \<Longrightarrow> 1 \<le> next_version (versions_of db i)"
proof (cases "versions_of db i")
  case (Cons v vs)
  assume "fn_inv db"
  then have "1 \<le> fv_version v"
    using set_versions_of [of db i] Cons by (auto simp: fn_inv_def list_all_iff version_ok_def)
  then show ?thesis using next_version_above [of v "versions_of db i"] Cons by simp
qed (simp add: next_version_def)

lemma new_version_total:
  assumes "1 \<le> n" "vs_backend spec \<in> set ALLOWED_BACKENDS" "lang \<in> set ALLOWED_LANGUAGES"
    "vs_created_by spec = None"
  shows "\<exists>v. new_version vid i n lang spec now = Inr v"
  using assms by (simp add: new_version_def)

lemma new_version_code: "new_version vid i n lang spec now = Inr v \<Longrightarrow> fv_code v = vs_code spec"
  by (auto simp: new_version_def split: if_splits)

lemma fn_create_conflict:
  assumes inv: "fn_inv db" and f: "fn_get_by_name db sid name = Inr f"
  shows "fn_create db now sid name d ts spec lang ps ot = Inl (ConflictError ''Function'')"
proof -
  have "one_or_none (\<lambda>f. fn_service_id f = sid \<and> fn_name f = py_lower name) (funcs db) = Inr (Some f)"
    using inv f unfolding fn_get_by_name_iff [OF inv]
    by (intro one_or_none_mem [where f = "\<lambda>f. (fn_service_id f, fn_name f)" and k = "(sid, py_lower name)"])
      (auto simp: fn_inv_def)
  then show ?thesis using f by (simp add: fn_create_def fn_get_by_name_iff [OF inv])
qed

text \<open>What \<open>create\<close> leaves behind when it succeeds.\<close>

lemma fn_create_stored:
  assumes "fn_create db now sid name d ts spec lang ps ot = Inr (db', f)"
  shows "f \<in> set (funcs db') \<and> fn_service_id f = sid \<and> fn_name f = py_lower name
         \<and> fn_deleted_at f = None \<and> \<not> fn_locked f
         \<and> (\<exists>v\<in>set (fversions db'). fv_function_id v = fn_id f \<and> fv_version v = fn_active_version f
                \<and> fv_code v = vs_code spec)"
proof -
  have nm: "nm = py_lower name" if "validate_name True (py_lower name) = Inr nm" for nm
    using that by (auto simp: validate_name_def split: if_splits)
  have hit: "revive_function_row d ts ot n x
             \<in> set (update_row fn_id (fn_id x) (revive_function_row d ts ot n) (funcs db))"
    if "x \<in> set (funcs db)" for x n
    using that by (intro update_row_hit) auto
  show ?thesis
    using assms nm hit new_version_ok new_version_code
    by (auto simp: fn_create_def Let_def new_function_row_def revive_function_row_def
        dest!: one_or_none_Some split: option.splits if_splits)
qed

text \<open>
  C18: With a valid name, an existing service, and admissible version data without an author, \<open>create\<close> reports a
  conflict exactly when a live function of the service has the name in lower case, and
  otherwise stores a function that \<open>get_by_name\<close> finds under the name as given, unlocked, with an
  active version that carries the submitted code.\<close>

theorem create_function_outcome:
  assumes inv: "fn_inv db" and name: "slug True (py_lower name)" "sid \<in> set (map svc_id (services db))"
    and spec: "vs_backend spec \<in> set ALLOWED_BACKENDS" "lang \<in> set ALLOWED_LANGUAGES"
      "vs_created_by spec = None" "length ot \<le> 10"
  shows "case fn_create db now sid name d ts spec lang ps ot of
           Inl e \<Rightarrow> e = ConflictError ''Function'' \<and> (\<exists>f. fn_get_by_name db sid name = Inr f)
         | Inr (db', f) \<Rightarrow>
             (\<forall>f. fn_get_by_name db sid name \<noteq> Inr f) \<and> fn_get_by_name db' sid name = Inr f
             \<and> \<not> fn_locked f
             \<and> (\<exists>v. fn_get_active_version db' (fn_id f) = Inr v \<and> fv_code v = vs_code spec)"
proof (cases "fn_create db now sid name d ts spec lang ps ot")
  case (Inl e)
  let ?P = "\<lambda>f. fn_service_id f = sid \<and> fn_name f = py_lower name"
  obtain r where r: "one_or_none ?P (funcs db) = Inr r"
    using inv one_or_none_unique [of "\<lambda>f. (fn_service_id f, fn_name f)" "funcs db" ?P "(sid, py_lower name)"]
    by (auto simp: fn_inv_def)
  have new: "\<exists>v. new_version vid i n lang spec now = Inr v" if "1 \<le> n" for vid i n
    using new_version_total that spec by blast
  have "\<exists>old. r = Some old \<and> fn_deleted_at old = None \<and> e = ConflictError ''Function''"
  proof (cases r)
    case None
    obtain v where "new_version (Suc (next_id db)) (next_id db) 1 lang spec now = Inr v" using new by force
    then show ?thesis using Inl r None name spec(4) by (simp add: fn_create_def Let_def validate_name_slug)
  next
    case (Some old)
    obtain v where "new_version (next_id db) (fn_id old) (next_version (versions_of db (fn_id old)))
                      lang spec now = Inr v"
      using new [OF next_version_positive [OF inv]] by blast
    then show ?thesis using Inl r Some spec(4) by (auto simp: fn_create_def Let_def split: if_splits)
  qed
  then show ?thesis using Inl r by (auto simp: fn_get_by_name_iff [OF inv] dest: one_or_none_Some)
next
  case (Inr q)
  then obtain db' f where q: "fn_create db now sid name d ts spec lang ps ot = Inr (db', f)"
    by (cases q) auto
  have inv': "fn_inv db'" by (rule fn_inv_create [OF inv q])
  have "fn_get_by_name db sid name \<noteq> Inr f" for f
    using q fn_create_conflict [OF inv] by fastforce
  then show ?thesis using fn_create_stored [OF q] q
    by (auto simp: fn_get_by_name_iff [OF inv'] fn_get_active_version_def fn_get_by_id_iff [OF inv'] fn_get_version_iff [OF inv'])
qed

text \<open>
  C19: Deleting a function and creating one of the same name in the same service takes up the old
  row again: the identity and all earlier versions stay, and the new active version continues
  the numbering. The row keeps its old \<open>public_safe\<close> flag whatever the request asks for.\<close>

theorem recreate_continues_history:
  assumes inv: "fn_inv db" and f: "fn_get_by_id db i = Inr f" and del: "fn_delete db t i adm = Inr db1"
    and cr: "fn_create db1 now (fn_service_id f) (fn_name f) d ts spec lang ps ot = Inr (db2, g)"
  shows "fn_id g = i \<and> fn_active_version g = next_version (versions_of db i)
         \<and> (\<forall>n v. fn_get_version db i n = Inr v \<longrightarrow> fn_get_version db2 i n = Inr v)
         \<and> fn_public_safe g = fn_public_safe f"
proof -
  note f' = fn_get_by_id_Inr [OF f]
  have db1: "db1 = db\<lparr>funcs := update_row fn_id i (\<lambda>f. f\<lparr>fn_deleted_at := Some t\<rparr>) (funcs db)\<rparr>"
    using del f by (auto simp: fn_delete_def split: if_splits)
  have inv1: "fn_inv db1" using fn_inv_exec [of db "FDelete t i adm" db1] inv del by simp
  have inv2: "fn_inv db2" by (rule fn_inv_create [OF inv1 cr])
  let ?P = "\<lambda>h. fn_service_id h = fn_service_id f \<and> fn_name h = py_lower (fn_name f)"
  have low: "py_lower (fn_name f) = fn_name f"
    using inv f' by (auto simp: fn_inv_def list_all_iff py_lower_slug)
  have old: "one_or_none ?P (funcs db1) = Inr (Some (f\<lparr>fn_deleted_at := Some t\<rparr>))"
    using inv1 f' low
    by (intro one_or_none_mem [where f = "\<lambda>f. (fn_service_id f, fn_name f)" and k = "(fn_service_id f, fn_name f)"])
      (auto simp: fn_inv_def db1 intro!: update_row_hit)
  have vs: "versions_of db1 i = versions_of db i" by (rule versions_of_cong) (simp add: db1)
  have "\<exists>new. fversions db2 = fversions db @ new"
    using fn_exec_versions [of "FCreate now (fn_service_id f) (fn_name f) d ts spec lang ps ot" db1 db2] cr
    by (simp add: db1)
  then have "fn_get_version db2 i n = Inr v" if "fn_get_version db i n = Inr v" for n v
    using that by (auto simp: fn_get_version_iff [OF inv] fn_get_version_iff [OF inv2])
  moreover have "g = revive_function_row d ts ot (next_version (versions_of db i)) (f\<lparr>fn_deleted_at := Some t\<rparr>)"
    using cr old f' vs by (auto simp: fn_create_def Let_def split: if_splits)
  ultimately show ?thesis using f' by (simp add: revive_function_row_def)
qed

subsection \<open>A small instance\<close>

definition sample_spec :: version_spec where
  "sample_spec = \<lparr>vs_backend = ''code_sandbox'', vs_code = Some ''x = 1'', vs_config = None,
     vs_input_schema = None, vs_output_schema = None, vs_requirements = None, vs_required_env = None,
     vs_optional_env = None, vs_created_by = None\<rparr>"

definition sample_base :: platform_db where
  "sample_base = empty_db
     \<lparr>users := [\<lparr>u_id = 7, u_email = ''a@x'', u_name = None\<rparr>, \<lparr>u_id = 6, u_email = ''b@x'', u_name = None\<rparr>],
      accounts := [\<lparr>a_id = 8, a_user_id = 7\<rparr>, \<lparr>a_id = 5, a_user_id = 6\<rparr>],
      namespaces := [\<lparr>ns_id = 9, ns_account_id = 8, ns_name = ''acme'', ns_description = None,
        ns_network_allowlist = None, ns_allowlist_updated_at = None, ns_allowlist_changes_today = 0,
        ns_call_count = 0, ns_deleted_at = None\<rparr>],
      services := [\<lparr>svc_id = 10, svc_namespace_id = 9, svc_name = ''tools'', svc_description = None,
        svc_call_count = 0\<rparr>],
      next_id := 20\<rparr>"

text \<open>Function 20 is locked and has two versions, function 23 is not locked.\<close>

definition sample_db :: platform_db where
  "sample_db = foldl fn_request sample_base
     [FCreate 0 10 ''Ping'' None None sample_spec ''python'' False ''prompt'',
      FVersion 1 20 sample_spec True False None,
      FCreate 2 10 ''pong'' None None sample_spec ''python'' False ''prompt'',
      FLock 3 20 7]"

lemma sample_inv: "fn_inv sample_db"
  by code_simp

lemma sample_locked: "locked_live sample_db 20" by code_simp

theorem function_versions_immutable_witness:
  "fn_get_version (foldl fn_request sample_db [FActivate 20 1, FDelete 5 20 True]) 20 2
   = fn_get_version sample_db 20 2"
proof -
  have "\<not> isl (fn_get_version sample_db 20 2)" by code_simp
  then obtain v where v: "fn_get_version sample_db 20 2 = Inr v" by (rule not_islE)
  then show ?thesis
    using function_versions_immutable [OF sample_inv, of "[FActivate 20 1, FDelete 5 20 True]"] by simp
qed

definition sample_published :: "platform_db \<times> version_row" where
  "sample_published = projr (fn_create_version sample_db 9 23 sample_spec True False None)"

theorem publish_round_trip_witness:
  "fn_get_active_version (fst sample_published) 23 = Inr (snd sample_published)
   \<and> fv_version (snd sample_published) = 2"
proof -
  have p: "fn_create_version sample_db 9 23 sample_spec True False None
           = Inr (fst sample_published, snd sample_published)"
    by code_simp
  have "fv_version (snd sample_published) = 2" by code_simp
  with publish_round_trip [OF sample_inv p] show ?thesis by blast
qed

theorem locked_function_keeps_versions_witness:
  "versions_of (foldl fn_request sample_db [FVersion 5 20 sample_spec True False None, FActivate 20 1]) 20
   = versions_of sample_db 20 \<and> map fv_version (versions_of sample_db 20) = [2, 1]"
proof -
  have "list_all (unprivileged 20) [FVersion 5 20 sample_spec True False None, FActivate 20 1]" by code_simp
  from locked_function_keeps_versions [OF sample_inv sample_locked this]
  have "versions_of (foldl fn_request sample_db [FVersion 5 20 sample_spec True False None, FActivate 20 1]) 20
        = versions_of sample_db 20" by blast
  moreover have "map fv_version (versions_of sample_db 20) = [2, 1]" by code_simp
  ultimately show ?thesis by (rule conjI)
qed

theorem create_function_outcome_witness:
  "fn_create sample_db 9 10 ''PONG'' None None sample_spec ''python'' True ''data''
     = Inl (ConflictError ''Function'')"
proof -
  have "\<not> isl (fn_get_by_name sample_db 10 ''PONG'')" by code_simp
  then obtain f where f: "fn_get_by_name sample_db 10 ''PONG'' = Inr f" by (rule not_islE)
  have "slug True (py_lower ''PONG'')" "10 \<in> set (map svc_id (services sample_db))"
    "vs_backend sample_spec \<in> set ALLOWED_BACKENDS" "''python'' \<in> set ALLOWED_LANGUAGES"
    "vs_created_by sample_spec = None" "length ''data'' \<le> 10"
    by code_simp+
  from create_function_outcome [OF sample_inv this, of 9 None None True] f show ?thesis
    by (auto split: sum.splits)
qed

theorem recreate_continues_history_witness:
  "\<exists>db1 db2 g. fn_delete sample_db 5 23 False = Inr db1
     \<and> fn_create db1 6 10 ''pong'' None None sample_spec ''typescript'' True ''data'' = Inr (db2, g)
     \<and> fn_id g = 23 \<and> fn_active_version g = 2 \<and> \<not> fn_public_safe g"
proof -
  let ?f = "projr (fn_get_by_id sample_db 23)"
  let ?db1 = "projr (fn_delete sample_db 5 23 False)"
  let ?q = "projr (fn_create ?db1 6 10 ''pong'' None None sample_spec ''typescript'' True ''data'')"
  have f: "fn_get_by_id sample_db 23 = Inr ?f" by code_simp
  have d: "fn_delete sample_db 5 23 False = Inr ?db1" by code_simp
  have c: "fn_create ?db1 6 10 ''pong'' None None sample_spec ''typescript'' True ''data'' = Inr (fst ?q, snd ?q)"
    by code_simp
  have row: "fn_service_id ?f = 10" "fn_name ?f = ''pong''" "\<not> fn_public_safe ?f" by code_simp+
  have n: "next_version (versions_of sample_db 23) = 2" by code_simp
  have "fn_create ?db1 6 (fn_service_id ?f) (fn_name ?f) None None sample_spec ''typescript'' True ''data''
        = Inr (fst ?q, snd ?q)" unfolding row by (rule c)
  from recreate_continues_history [OF sample_inv f d this]
  have "fn_id (snd ?q) = 23 \<and> fn_active_version (snd ?q) = 2 \<and> \<not> fn_public_safe (snd ?q)"
    unfolding n using row(3) by blast
  then show ?thesis using d c by blast
qed

text \<open>The language of a function is fixed by \<open>create_version\<close>, but not by deleting and creating it.\<close>

lemma recreate_changes_language:
  "map fv_language (versions_of (foldl fn_request sample_db
     [FVersion 4 23 sample_spec True False (Some ''typescript''),
      FDelete 5 23 False, FCreate 6 10 ''pong'' None None sample_spec ''typescript'' False ''prompt'']) 23)
   = [''typescript'', ''python'']"
  by code_simp

end
