(* ===== verification/NamespaceStore.thy ===== *)
theory NamespaceStore
  imports FunctionStore
begin

text \<open>
  Namespaces and the services inside them (\<open>services/namespace.py\<close>, classes
  \<open>NamespaceServiceManager\<close> and \<open>NamespaceServiceService\<close>, with the validators of
  \<open>models/namespace.py\<close> and \<open>models/namespace_service.py\<close>). Every access to a namespace on behalf of
  an account goes through \<open>ns_authorize\<close>: the owner is admitted, another user only with an accepted
  share that carries the required permission.
\<close>

section \<open>Namespaces\<close>

definition RESERVED_NAMESPACE_NAMES :: "string list" where
  "RESERVED_NAMESPACE_NAMES =
     [''admin'', ''api'', ''app'', ''auth'', ''billing'', ''blog'', ''cdn'', ''console'', ''create'',
      ''dashboard'', ''dev'', ''docs'', ''ftp'', ''git'', ''grafana'', ''help'', ''internal'', ''login'',
      ''mail'', ''manage'', ''mcpworks'', ''monitor'', ''ns'', ''null'', ''ops'', ''portal'', ''prometheus'',
      ''proxy'', ''redis'', ''register'', ''root'', ''run'', ''sandbox'', ''smtp'', ''staging'', ''static'',
      ''status'', ''support'', ''system'', ''test'', ''undefined'', ''www'']"

definition ns_create ::
  "platform_db \<Rightarrow> nat \<Rightarrow> string \<Rightarrow> string option \<Rightarrow> string list option \<Rightarrow> (platform_db \<times> namespace_row) res" where
  "ns_create db account_id name description network_allowlist =
     (if py_lower name \<in> set RESERVED_NAMESPACE_NAMES then Inl (ValueError ''reserved'')
      else res_bind (one_or_none (\<lambda>n. ns_name n = py_lower name) (namespaces db))
      (\<lambda>found. case found of
         Some n \<Rightarrow> Inl (ConflictError (if ns_deleted_at n \<noteq> None then ''recovery period'' else ''Namespace''))
       | None \<Rightarrow>
           res_bind (validate_name False (py_lower name))
           (\<lambda>nm. let row = \<lparr>ns_id = next_id db, ns_account_id = account_id, ns_name = nm,
                            ns_description = description, ns_network_allowlist = network_allowlist,
                            ns_allowlist_updated_at = None, ns_allowlist_changes_today = 0,
                            ns_call_count = 0, ns_deleted_at = None\<rparr>
                 in if \<not> slug False nm \<or> account_id \<notin> set (map a_id (accounts db)) then Inl IntegrityError
                    else Inr (db\<lparr>namespaces := namespaces db @ [row], next_id := Suc (next_id db)\<rparr>, row))))"

definition check_share_access :: "platform_db \<Rightarrow> nat \<Rightarrow> nat \<Rightarrow> string \<Rightarrow> bool res" where
  "check_share_access db namespace_id user_id permission =
     res_bind (one_or_none (\<lambda>s. sh_namespace_id s = namespace_id \<and> sh_user_id s = user_id
                              \<and> sh_status s = Accepted) (shares db))
     (\<lambda>r. case r of None \<Rightarrow> Inr False | Some s \<Rightarrow> Inr (permission \<in> set (sh_permissions s)))"

definition ns_authorize ::
  "platform_db \<Rightarrow> namespace_row \<Rightarrow> nat option \<Rightarrow> nat option \<Rightarrow> string option \<Rightarrow> namespace_row res" where
  "ns_authorize db ns account_id user_id required_permission =
     (case account_id of
        None \<Rightarrow> Inr ns
      | Some a \<Rightarrow>
          if ns_account_id ns = a then Inr ns
          else (case (user_id, required_permission) of
                  (Some u, Some p) \<Rightarrow>
                    if p = [] then Inl (ForbiddenError ''Namespace'')
                    else res_bind (check_share_access db (ns_id ns) u p)
                         (\<lambda>ok. if ok then Inr ns else Inl (ForbiddenError ''Namespace''))
                | _ \<Rightarrow> Inl (ForbiddenError ''Namespace'')))"

definition ns_get_by_id ::
  "platform_db \<Rightarrow> nat \<Rightarrow> nat option \<Rightarrow> nat option \<Rightarrow> string option \<Rightarrow> namespace_row res" where
  "ns_get_by_id db namespace_id account_id user_id required_permission =
     res_bind (one_or_none (\<lambda>n. ns_id n = namespace_id \<and> ns_deleted_at n = None) (namespaces db))
     (\<lambda>r. case r of
            None \<Rightarrow> Inl (NotFoundError ''Namespace'')
          | Some ns \<Rightarrow> ns_authorize db ns account_id user_id required_permission)"

definition ns_get_by_name ::
  "platform_db \<Rightarrow> string \<Rightarrow> nat option \<Rightarrow> nat option \<Rightarrow> string option \<Rightarrow> namespace_row res" where
  "ns_get_by_name db name account_id user_id required_permission =
     res_bind (one_or_none (\<lambda>n. ns_name n = py_lower name \<and> ns_deleted_at n = None) (namespaces db))
     (\<lambda>r. case r of
            None \<Rightarrow> Inl (NotFoundError ''Namespace'')
          | Some ns \<Rightarrow> ns_authorize db ns account_id user_id required_permission)"

text \<open>The namespaces joined with the accepted shares of a user, one row for each pair.\<close>

definition shared_namespaces :: "platform_db \<Rightarrow> nat \<Rightarrow> namespace_row list" where
  "shared_namespaces db user_id =
     concat (map (\<lambda>n. map (\<lambda>_. n)
       (filter (\<lambda>s. sh_namespace_id s = ns_id n \<and> sh_user_id s = user_id \<and> sh_status s = Accepted)
          (shares db)))
       (filter (\<lambda>n. ns_deleted_at n = None) (namespaces db)))"

definition ns_list ::
  "(string \<Rightarrow> int) \<Rightarrow> platform_db \<Rightarrow> nat \<Rightarrow> nat option \<Rightarrow> int \<Rightarrow> int \<Rightarrow> (namespace_row list \<times> nat) res" where
  "ns_list collation db account_id user_id page page_size =
     (let owned = filter (\<lambda>n. ns_account_id n = account_id \<and> ns_deleted_at n = None) (namespaces db);
          shared = (case user_id of None \<Rightarrow> [] | Some u \<Rightarrow> shared_namespaces db u)
      in res_bind (paginate page page_size (sort_key (collation \<circ> ns_name) owned))
         (\<lambda>rows. Inr (rows @ sort_key (collation \<circ> ns_name) shared, length owned + length shared)))"

definition can_update_allowlist :: "namespace_row \<Rightarrow> bool" where
  "can_update_allowlist ns = (ns_allowlist_changes_today ns < 5)"

definition ns_update ::
  "platform_db \<Rightarrow> int \<Rightarrow> nat \<Rightarrow> nat \<Rightarrow> string option \<Rightarrow> string list option
   \<Rightarrow> (platform_db \<times> namespace_row) res" where
  "ns_update db now namespace_id account_id description network_allowlist =
     res_bind (ns_get_by_id db namespace_id (Some account_id) None None)
     (\<lambda>ns. let g = (\<lambda>n. n\<lparr>ns_description := (if description = None then ns_description n else description)\<rparr>);
               h = (\<lambda>n. if network_allowlist = None then n
                        else n\<lparr>ns_network_allowlist := network_allowlist,
                               ns_allowlist_updated_at := Some now,
                               ns_allowlist_changes_today := ns_allowlist_changes_today n + 1\<rparr>)
           in if network_allowlist \<noteq> None \<and> \<not> can_update_allowlist ns
              then Inl (ValidationError ''allowlist rate limit'')
              else Inr (db\<lparr>namespaces := update_row ns_id namespace_id (h \<circ> g) (namespaces db)\<rparr>, h (g ns)))"

definition ns_delete :: "platform_db \<Rightarrow> int \<Rightarrow> nat \<Rightarrow> nat \<Rightarrow> (platform_db \<times> namespace_row) res" where
  "ns_delete db now namespace_id account_id =
     res_bind (ns_get_by_id db namespace_id (Some account_id) None None)
     (\<lambda>ns. Inr (db\<lparr>namespaces := update_row ns_id namespace_id
                      (\<lambda>n. n\<lparr>ns_deleted_at := Some now\<rparr>) (namespaces db)\<rparr>,
                ns\<lparr>ns_deleted_at := Some now\<rparr>))"

section \<open>Services of a namespace\<close>

definition svc_create ::
  "platform_db \<Rightarrow> nat \<Rightarrow> string \<Rightarrow> string option \<Rightarrow> (platform_db \<times> service_row) res" where
  "svc_create db namespace_id name description =
     res_bind (one_or_none (\<lambda>s. svc_namespace_id s = namespace_id \<and> svc_name s = py_lower name) (services db))
     (\<lambda>existing. if existing \<noteq> None then Inl (ConflictError ''Service'')
        else res_bind (validate_name True (py_lower name))
        (\<lambda>nm. let row = \<lparr>svc_id = next_id db, svc_namespace_id = namespace_id, svc_name = nm,
                         svc_description = description, svc_call_count = 0\<rparr>
              in if \<not> slug True nm \<or> namespace_id \<notin> set (map ns_id (namespaces db)) then Inl IntegrityError
                 else Inr (db\<lparr>services := services db @ [row], next_id := Suc (next_id db)\<rparr>, row)))"

definition svc_get_by_id :: "platform_db \<Rightarrow> nat \<Rightarrow> service_row res" where
  "svc_get_by_id db service_id =
     res_bind (one_or_none (\<lambda>s. svc_id s = service_id) (services db))
     (\<lambda>r. case r of None \<Rightarrow> Inl (NotFoundError ''Service'') | Some s \<Rightarrow> Inr s)"

definition svc_get_by_name :: "platform_db \<Rightarrow> nat \<Rightarrow> string \<Rightarrow> service_row res" where
  "svc_get_by_name db namespace_id name =
     res_bind (one_or_none (\<lambda>s. svc_namespace_id s = namespace_id \<and> svc_name s = py_lower name) (services db))
     (\<lambda>r. case r of None \<Rightarrow> Inl (NotFoundError ''Service'') | Some s \<Rightarrow> Inr s)"

definition svc_list :: "(string \<Rightarrow> int) \<Rightarrow> platform_db \<Rightarrow> nat \<Rightarrow> service_row list" where
  "svc_list collation db namespace_id =
     sort_key (collation \<circ> svc_name) (filter (\<lambda>s. svc_namespace_id s = namespace_id) (services db))"

definition svc_update :: "platform_db \<Rightarrow> nat \<Rightarrow> string option \<Rightarrow> (platform_db \<times> service_row) res" where
  "svc_update db service_id description =
     res_bind (svc_get_by_id db service_id)
     (\<lambda>s. let g = (\<lambda>s. s\<lparr>svc_description := (if description = None then svc_description s else description)\<rparr>)
          in Inr (db\<lparr>services := update_row svc_id service_id g (services db)\<rparr>, g s))"

text \<open>
  Deleting a service removes its row and, by the cascades of the foreign keys, its functions and
  procedures with their versions and executions.
\<close>

definition svc_cascade :: "nat \<Rightarrow> platform_db \<Rightarrow> platform_db" where
  "svc_cascade service_id db =
     (let gone_fn = map fn_id (filter (\<lambda>f. fn_service_id f = service_id) (funcs db));
          gone_pr = map pr_id (filter (\<lambda>p. pr_service_id p = service_id) (procs db))
      in db\<lparr>services := filter (\<lambda>s. svc_id s \<noteq> service_id) (services db),
            funcs := filter (\<lambda>f. fn_service_id f \<noteq> service_id) (funcs db),
            fversions := filter (\<lambda>v. fv_function_id v \<notin> set gone_fn) (fversions db),
            procs := filter (\<lambda>p. pr_service_id p \<noteq> service_id) (procs db),
            pversions := filter (\<lambda>v. pv_procedure_id v \<notin> set gone_pr) (pversions db),
            pexecs := filter (\<lambda>e. pe_procedure_id e \<notin> set gone_pr) (pexecs db)\<rparr>)"

definition svc_delete :: "platform_db \<Rightarrow> nat \<Rightarrow> platform_db res" where
  "svc_delete db service_id =
     res_bind (svc_get_by_id db service_id) (\<lambda>_. Inr (svc_cascade service_id db))"

end
