(* ===== verification/Shares.thy ===== *)
theory Shares
  imports NamespaceStore
begin

text \<open>
  Sharing a namespace with another user (\<open>services/namespace_share.py\<close>): invitation, acceptance,
  refusal and revocation, with the life cycle of one share as the relation \<open>share_step\<close>. The
  notification mail is not modelled.
\<close>

section \<open>Operations\<close>

definition VALID_PERMISSIONS :: "string list" where
  "VALID_PERMISSIONS = [''read'', ''execute'']"

definition check_access :: "platform_db \<Rightarrow> nat \<Rightarrow> nat \<Rightarrow> string \<Rightarrow> share_row option res" where
  "check_access db namespace_id user_id required_permission =
     res_bind (one_or_none (\<lambda>s. sh_namespace_id s = namespace_id \<and> sh_user_id s = user_id
                              \<and> sh_status s = Accepted) (shares db))
     (\<lambda>r. case r of
            None \<Rightarrow> Inr None
          | Some s \<Rightarrow> Inr (if required_permission \<in> set (sh_permissions s) then Some s else None))"

text \<open>The check that \<open>u\<close> is the user of the account that owns the namespace.\<close>

definition owner_check :: "platform_db \<Rightarrow> namespace_row \<Rightarrow> nat \<Rightarrow> unit res" where
  "owner_check db ns u =
     res_bind (fetch (ForbiddenError ''owner'') (\<lambda>a. a_id a = ns_account_id ns) (accounts db))
     (\<lambda>a. if a_user_id a \<noteq> u then Inl (ForbiddenError ''owner'') else Inr ())"

text \<open>The invitee is known: a declined or revoked share is opened again, or a new one is added.\<close>

definition reopen_share :: "string list \<Rightarrow> nat \<Rightarrow> share_row \<Rightarrow> share_row" where
  "reopen_share permissions granted_by s =
     s\<lparr>sh_status := Pending, sh_permissions := permissions, sh_granted_by := Some granted_by,
       sh_accepted_at := None, sh_revoked_at := None\<rparr>"

definition grant_share ::
  "platform_db \<Rightarrow> nat \<Rightarrow> nat \<Rightarrow> string list \<Rightarrow> nat \<Rightarrow> (platform_db \<times> share_row) res" where
  "grant_share db namespace_id invitee_id permissions granted_by =
     res_bind (one_or_none (\<lambda>s. sh_namespace_id s = namespace_id \<and> sh_user_id s = invitee_id) (shares db))
     (\<lambda>existing. case existing of
        Some old \<Rightarrow>
          if sh_status old \<in> {Pending, Accepted} then Inl (ConflictError ''Share'')
          else Inr (db\<lparr>shares := update_row sh_id (sh_id old) (reopen_share permissions granted_by) (shares db)\<rparr>,
                    reopen_share permissions granted_by old)
      | None \<Rightarrow>
          (let row = \<lparr>sh_id = next_id db, sh_namespace_id = namespace_id, sh_user_id = invitee_id,
                      sh_granted_by = Some granted_by, sh_permissions = permissions,
                      sh_status = Pending, sh_accepted_at = None, sh_revoked_at = None\<rparr>
           in Inr (db\<lparr>shares := shares db @ [row], next_id := Suc (next_id db)\<rparr>, row)))"

definition create_invite ::
  "platform_db \<Rightarrow> nat \<Rightarrow> string \<Rightarrow> string list \<Rightarrow> nat \<Rightarrow> (platform_db \<times> share_row) res" where
  "create_invite db namespace_id invitee_email permissions granted_by =
     (if \<not> set permissions \<subseteq> set VALID_PERMISSIONS then Inl (ValidationError ''permissions'')
      else if permissions = [] then Inl (ValidationError ''no permission'')
      else
        res_bind (fetch (NotFoundError ''Namespace'') (\<lambda>n. ns_id n = namespace_id) (namespaces db)) (\<lambda>ns.
        res_bind (fetch (NotFoundError ''Owner'') (\<lambda>u. u_id u = granted_by) (users db)) (\<lambda>_.
        res_bind (owner_check db ns granted_by) (\<lambda>_.
        res_bind (fetch (NotFoundError ''User'') (\<lambda>u. u_email u = py_lower invitee_email) (users db)) (\<lambda>invitee.
          if u_id invitee = granted_by then Inl (ValidationError ''self'')
          else grant_share db namespace_id (u_id invitee) permissions granted_by)))))"

definition get_share :: "platform_db \<Rightarrow> nat \<Rightarrow> share_row res" where
  "get_share db share_id = fetch (NotFoundError ''Share'') (\<lambda>s. sh_id s = share_id) (shares db)"

definition share_accept :: "platform_db \<Rightarrow> int \<Rightarrow> nat \<Rightarrow> nat \<Rightarrow> (platform_db \<times> share_row) res" where
  "share_accept db now share_id user_id =
     res_bind (get_share db share_id)
     (\<lambda>s. if sh_user_id s \<noteq> user_id then Inl (ForbiddenError ''Share'')
          else if sh_status s \<noteq> Pending then Inl (ValidationError ''status'')
          else let g = (\<lambda>s. s\<lparr>sh_status := Accepted, sh_accepted_at := Some now\<rparr>)
               in Inr (db\<lparr>shares := update_row sh_id share_id g (shares db)\<rparr>, g s))"

definition share_decline :: "platform_db \<Rightarrow> nat \<Rightarrow> nat \<Rightarrow> (platform_db \<times> share_row) res" where
  "share_decline db share_id user_id =
     res_bind (get_share db share_id)
     (\<lambda>s. if sh_user_id s \<noteq> user_id then Inl (ForbiddenError ''Share'')
          else if sh_status s \<noteq> Pending then Inl (ValidationError ''status'')
          else let g = (\<lambda>s. s\<lparr>sh_status := Declined\<rparr>)
               in Inr (db\<lparr>shares := update_row sh_id share_id g (shares db)\<rparr>, g s))"

definition share_revoke :: "platform_db \<Rightarrow> int \<Rightarrow> nat \<Rightarrow> nat \<Rightarrow> (platform_db \<times> share_row) res" where
  "share_revoke db now share_id owner_user_id =
     res_bind (get_share db share_id) (\<lambda>s.
     res_bind (fetch (NotFoundError ''Namespace'') (\<lambda>n. ns_id n = sh_namespace_id s) (namespaces db)) (\<lambda>ns.
     res_bind (owner_check db ns owner_user_id) (\<lambda>_.
       let g = (\<lambda>s. s\<lparr>sh_status := Revoked, sh_revoked_at := Some now\<rparr>)
       in Inr (db\<lparr>shares := update_row sh_id share_id g (shares db)\<rparr>, g s))))"

text \<open>
  The three listings. New rows are appended, so the most recently created comes last in the table
  and first in the listing.
\<close>

definition list_for_namespace :: "platform_db \<Rightarrow> nat \<Rightarrow> share_row list" where
  "list_for_namespace db namespace_id = rev (filter (\<lambda>s. sh_namespace_id s = namespace_id) (shares db))"

definition list_invitations :: "platform_db \<Rightarrow> nat \<Rightarrow> share_row list" where
  "list_invitations db user_id =
     rev (filter (\<lambda>s. sh_user_id s = user_id \<and> sh_status s = Pending) (shares db))"

definition list_shared_with_me :: "platform_db \<Rightarrow> nat \<Rightarrow> share_row list" where
  "list_shared_with_me db user_id =
     rev (filter (\<lambda>s. sh_user_id s = user_id \<and> sh_status s = Accepted) (shares db))"

end
