(* ===== verification/Platform.thy ===== *)
theory Platform
  imports Shares
begin

text \<open>
  The function, namespace, service and share services as one machine on the common database: the
  requests \<open>platform_op\<close>, the invariant \<open>platform_inv\<close> of all the tables they write, and the
  properties that hold over every sequence of requests (isolation of namespaces, the life cycle
  of a share, the limit on allowlist changes, the resolution of a call to a version).
\<close>

section \<open>Requests\<close>

datatype platform_op =
    OFn fn_op
  | ONsCreate nat string "string option" "string list option"
  | ONsUpdate int nat nat "string option" "string list option"
  | ONsDelete int nat nat
  | OSvcCreate nat string "string option"
  | OSvcUpdate nat "string option"
  | OSvcDelete nat
  | OInvite nat string "string list" nat
  | OAccept int nat nat
  | ODecline nat nat
  | ORevoke int nat nat

fun platform_exec :: "platform_op \<Rightarrow> platform_db \<Rightarrow> platform_db res" where
  "platform_exec (OFn r) db = fn_exec r db"
| "platform_exec (ONsCreate a name d al) db = res_bind (ns_create db a name d al) (Inr \<circ> fst)"
| "platform_exec (ONsUpdate now i a d al) db = res_bind (ns_update db now i a d al) (Inr \<circ> fst)"
| "platform_exec (ONsDelete now i a) db = res_bind (ns_delete db now i a) (Inr \<circ> fst)"
| "platform_exec (OSvcCreate n name d) db = res_bind (svc_create db n name d) (Inr \<circ> fst)"
| "platform_exec (OSvcUpdate i d) db = res_bind (svc_update db i d) (Inr \<circ> fst)"
| "platform_exec (OSvcDelete i) db = svc_delete db i"
| "platform_exec (OInvite n e ps u) db = res_bind (create_invite db n e ps u) (Inr \<circ> fst)"
| "platform_exec (OAccept now i u) db = res_bind (share_accept db now i u) (Inr \<circ> fst)"
| "platform_exec (ODecline i u) db = res_bind (share_decline db i u) (Inr \<circ> fst)"
| "platform_exec (ORevoke now i u) db = res_bind (share_revoke db now i u) (Inr \<circ> fst)"

definition platform_request :: "platform_db \<Rightarrow> platform_op \<Rightarrow> platform_db" where
  "platform_request db r = (case platform_exec r db of Inl _ \<Rightarrow> db | Inr db' \<Rightarrow> db')"

section \<open>The invariant of the tables\<close>

definition ns_inv :: "platform_db \<Rightarrow> bool" where
  "ns_inv db \<longleftrightarrow>
     distinct (map ns_id (namespaces db)) \<and> distinct (map ns_name (namespaces db))
     \<and> list_all (\<lambda>n. ns_id n < next_id db \<and> slug False (ns_name n)
                    \<and> ns_account_id n \<in> set (map a_id (accounts db))
                    \<and> 0 \<le> ns_allowlist_changes_today n \<and> ns_allowlist_changes_today n \<le> 5) (namespaces db)"

definition svc_inv :: "platform_db \<Rightarrow> bool" where
  "svc_inv db \<longleftrightarrow>
     distinct (map svc_id (services db))
     \<and> distinct (map (\<lambda>s. (svc_namespace_id s, svc_name s)) (services db))
     \<and> list_all (\<lambda>s. svc_id s < next_id db \<and> slug True (svc_name s)
                    \<and> svc_namespace_id s \<in> set (map ns_id (namespaces db))) (services db)"

definition share_ok :: "share_row \<Rightarrow> bool" where
  "share_ok s \<longleftrightarrow> sh_permissions s \<noteq> [] \<and> set (sh_permissions s) \<subseteq> set VALID_PERMISSIONS
                 \<and> (sh_status s = Accepted \<longrightarrow> sh_accepted_at s \<noteq> None)"

definition shr_inv :: "platform_db \<Rightarrow> bool" where
  "shr_inv db \<longleftrightarrow>
     distinct (map sh_id (shares db))
     \<and> distinct (map (\<lambda>s. (sh_namespace_id s, sh_user_id s)) (shares db))
     \<and> list_all (\<lambda>s. sh_id s < next_id db \<and> share_ok s
                    \<and> sh_namespace_id s \<in> set (map ns_id (namespaces db))) (shares db)"

definition platform_inv :: "platform_db \<Rightarrow> bool" where
  "platform_inv db \<longleftrightarrow> ns_inv db \<and> svc_inv db \<and> shr_inv db \<and> fn_inv db
     \<and> distinct (map u_id (users db)) \<and> distinct (map u_email (users db))
     \<and> distinct (map a_id (accounts db))"

subsection \<open>Frame lemmas\<close>

lemma ns_inv_frame:
  "ns_inv db \<Longrightarrow> namespaces db' = namespaces db \<Longrightarrow> accounts db' = accounts db \<Longrightarrow> next_id db \<le> next_id db' \<Longrightarrow> ns_inv db'"
  by (fastforce simp: ns_inv_def list_all_iff)

lemma svc_inv_frame:
  "svc_inv db \<Longrightarrow> services db' = services db \<Longrightarrow> ns_id ` set (namespaces db) \<subseteq> ns_id ` set (namespaces db') \<Longrightarrow>
     next_id db \<le> next_id db' \<Longrightarrow> svc_inv db'"
  by (fastforce simp: svc_inv_def list_all_iff)

lemma shr_inv_frame:
  "shr_inv db \<Longrightarrow> shares db' = shares db \<Longrightarrow> ns_id ` set (namespaces db) \<subseteq> ns_id ` set (namespaces db') \<Longrightarrow>
     next_id db \<le> next_id db' \<Longrightarrow> shr_inv db'"
  by (fastforce simp: shr_inv_def list_all_iff)

lemma fn_inv_frame:
  "fn_inv db \<Longrightarrow> funcs db' = funcs db \<Longrightarrow> fversions db' = fversions db \<Longrightarrow>
     svc_id ` set (services db) \<subseteq> svc_id ` set (services db') \<Longrightarrow> next_id db \<le> next_id db' \<Longrightarrow> fn_inv db'"
  by (fastforce simp: fn_inv_def list_all_iff has_version_def)

lemma fn_exec_frame:
  "fn_exec r db = Inr db' \<Longrightarrow>
     users db' = users db \<and> accounts db' = accounts db \<and> namespaces db' = namespaces db
     \<and> services db' = services db \<and> shares db' = shares db \<and> next_id db \<le> next_id db'"
  by (induction r db rule: fn_exec.induct)
    (auto simp: fn_create_def fn_update_def fn_create_version_def fn_set_active_version_def fn_delete_def
       lock_function_def unlock_function_def Let_def split: if_splits option.splits)

lemma svc_cascade_simps [simp]:
  "funcs (svc_cascade i db) = filter (\<lambda>f. fn_service_id f \<noteq> i) (funcs db)"
  "services (svc_cascade i db) = filter (\<lambda>s. svc_id s \<noteq> i) (services db)"
  "users (svc_cascade i db) = users db" "accounts (svc_cascade i db) = accounts db"
  "namespaces (svc_cascade i db) = namespaces db" "shares (svc_cascade i db) = shares db"
  "next_id (svc_cascade i db) = next_id db"
  by (simp_all add: svc_cascade_def Let_def)

lemma svc_cascade_versions:
  assumes "fn_inv db"
  shows "fversions (svc_cascade i db) =
         filter (\<lambda>v. \<exists>f\<in>set (funcs db). fn_id f = fv_function_id v \<and> fn_service_id f \<noteq> i) (fversions db)"
proof -
  have "(fv_function_id v \<notin> set (map fn_id (filter (\<lambda>f. fn_service_id f = i) (funcs db)))) \<longleftrightarrow>
        (\<exists>f\<in>set (funcs db). fn_id f = fv_function_id v \<and> fn_service_id f \<noteq> i)"
    if "v \<in> set (fversions db)" for v
  proof -
    have "fv_function_id v \<in> fn_id ` set (funcs db)"
      using that assms by (simp add: fn_inv_def list_all_iff)
    then obtain f where f: "f \<in> set (funcs db)" "fn_id f = fv_function_id v" by auto
    have u: "g = f" if "g \<in> set (funcs db)" "fn_id g = fv_function_id v" for g
      using distinct_key_unique [of fn_id "funcs db" g f] that f assms by (simp add: fn_inv_def)
    show ?thesis
    proof
      assume "fv_function_id v \<notin> set (map fn_id (filter (\<lambda>f. fn_service_id f = i) (funcs db)))"
      then have "fn_service_id f \<noteq> i" using f by force
      then show "\<exists>f\<in>set (funcs db). fn_id f = fv_function_id v \<and> fn_service_id f \<noteq> i" using f by blast
    qed (auto dest: u)
  qed
  then have "filter (\<lambda>v. fv_function_id v \<notin> set (map fn_id (filter (\<lambda>f. fn_service_id f = i) (funcs db)))) (fversions db)
    = filter (\<lambda>v. \<exists>f\<in>set (funcs db). fn_id f = fv_function_id v \<and> fn_service_id f \<noteq> i) (fversions db)"
    by (intro filter_cong refl)
  then show ?thesis by (simp add: svc_cascade_def Let_def)
qed

lemma fn_inv_cascade:
  assumes "fn_inv db" shows "fn_inv (svc_cascade i db)"
proof -
  have hv: "has_version (svc_cascade i db) (fn_id f) (fn_active_version f)"
    if f: "f \<in> set (funcs db)" "fn_service_id f \<noteq> i" for f
  proof -
    obtain v where "v \<in> set (fversions db)" "fv_function_id v = fn_id f" "fv_version v = fn_active_version f"
      using fn_inv_active [OF assms f(1)] by (auto simp: has_version_iff)
    then show ?thesis using f
      unfolding has_version_iff svc_cascade_versions [OF assms] by (intro bexI [of _ v]) auto
  qed
  have 1: "list_all (\<lambda>f. fn_id f < next_id (svc_cascade i db) \<and> slug True (fn_name f)
                    \<and> fn_service_id f \<in> set (map svc_id (services (svc_cascade i db)))
                    \<and> has_version (svc_cascade i db) (fn_id f) (fn_active_version f)) (funcs (svc_cascade i db))"
    using assms hv unfolding list_all_iff by (auto simp: fn_inv_def list_all_iff)
  have 2: "list_all (\<lambda>v. version_ok v \<and> fv_function_id v \<in> set (map fn_id (funcs (svc_cascade i db))))
             (fversions (svc_cascade i db))"
    unfolding svc_cascade_versions [OF assms] list_all_iff
  proof (intro ballI conjI)
    fix v assume "v \<in> set (filter (\<lambda>v. \<exists>f\<in>set (funcs db). fn_id f = fv_function_id v \<and> fn_service_id f \<noteq> i)
                        (fversions db))"
    then obtain f where v: "v \<in> set (fversions db)" and
      f: "f \<in> set (funcs db)" "fn_id f = fv_function_id v" "fn_service_id f \<noteq> i" by auto
    show "version_ok v" using v assms by (simp add: fn_inv_def list_all_iff)
    have "fn_id f \<in> set (map fn_id (funcs (svc_cascade i db)))" using f(1,3) by simp
    then show "fv_function_id v \<in> set (map fn_id (funcs (svc_cascade i db)))" using f(2) by simp
  qed
  show ?thesis
    using assms 1 2 unfolding fn_inv_def svc_cascade_versions [OF assms] by (simp add: distinct_map_filter)
qed

lemma ns_inv_update:
  assumes "ns_inv db" and "\<And>n. ns_id (g n) = ns_id n \<and> ns_name (g n) = ns_name n \<and> ns_account_id (g n) = ns_account_id n"
    and "\<And>n. n \<in> set (namespaces db) \<Longrightarrow> ns_id n = i \<Longrightarrow>
           0 \<le> ns_allowlist_changes_today (g n) \<and> ns_allowlist_changes_today (g n) \<le> 5"
  shows "ns_inv (db\<lparr>namespaces := update_row ns_id i g (namespaces db)\<rparr>)"
  using assms unfolding ns_inv_def by (auto simp: map_update_row list_all_iff in_update_row)

lemma ns_ids_update:
  "(\<And>n. ns_id (g n) = ns_id n) \<Longrightarrow> ns_id ` set (update_row ns_id i g rows) = ns_id ` set rows"
  using map_update_row [of ns_id i ns_id g rows] by (metis list.set_map)

lemma shr_inv_update:
  assumes "shr_inv db"
    and "\<And>s. sh_id (g s) = sh_id s \<and> sh_namespace_id (g s) = sh_namespace_id s \<and> sh_user_id (g s) = sh_user_id s"
    and "\<And>s. share_ok s \<Longrightarrow> share_ok (g s)"
  shows "shr_inv (db\<lparr>shares := update_row sh_id i g (shares db)\<rparr>)"
  using assms unfolding shr_inv_def by (auto simp: map_update_row list_all_iff in_update_row)

lemma ns_authorize_Inr: "ns_authorize db ns a u p = Inr n \<Longrightarrow> n = ns"
  by (auto simp: ns_authorize_def split: option.splits if_splits)

lemma ns_get_by_id_Inr:
  "ns_get_by_id db i a u p = Inr n \<Longrightarrow> n \<in> set (namespaces db) \<and> ns_id n = i \<and> ns_deleted_at n = None"
  by (auto simp: ns_get_by_id_def split: option.splits dest!: one_or_none_Some ns_authorize_Inr)

lemma ns_row_unique:
  "ns_inv db \<Longrightarrow> n \<in> set (namespaces db) \<Longrightarrow> m \<in> set (namespaces db) \<Longrightarrow> ns_id n = ns_id m \<Longrightarrow> n = m"
  by (rule distinct_key_unique [of ns_id]) (auto simp: ns_inv_def)

lemmas inv_frames = ns_inv_frame svc_inv_frame shr_inv_frame fn_inv_frame

lemma platform_inv_frame:
  assumes "platform_inv db" and "users db' = users db" and "accounts db' = accounts db"
    and "ns_inv db'" "svc_inv db'" "shr_inv db'" "fn_inv db'"
  shows "platform_inv db'"
  using assms by (simp add: platform_inv_def)

lemma inv_ns_create:
  assumes "platform_inv db" and "ns_create db a name d al = Inr (db', n)"
  shows "platform_inv db'"
proof -
  obtain r where r: "one_or_none (\<lambda>n. ns_name n = py_lower name) (namespaces db) = Inr r"
    using assms(2) by (auto simp: ns_create_def split: if_splits)
  have none: "one_or_none (\<lambda>n. ns_name n = py_lower name) (namespaces db) = Inr None"
    using assms(2) r by (cases r) (auto simp: ns_create_def split: if_splits)
  from assms(2) obtain nm where
    nm: "validate_name False (py_lower name) = Inr nm" "slug False nm" "a \<in> a_id ` set (accounts db)"
    and n: "ns_id n = next_id db" "ns_account_id n = a" "ns_name n = nm" "ns_allowlist_changes_today n = 0"
    and db': "db' = db\<lparr>namespaces := namespaces db @ [n], next_id := Suc (next_id db)\<rparr>"
    by (auto simp: ns_create_def Let_def none split: if_splits)
  have "nm = py_lower name" using nm(1) by (auto simp: validate_name_def split: if_splits)
  then have "nm \<notin> ns_name ` set (namespaces db)" using none by (auto simp: one_or_none_None)
  then have "ns_inv db'" using assms(1) n nm(2,3) unfolding platform_inv_def db' ns_inv_def
    by (auto simp: list_all_iff)
  then show ?thesis using assms(1)
    by (rule_tac platform_inv_frame [OF assms(1)])
      (auto simp: db' platform_inv_def intro: svc_inv_frame [of db] shr_inv_frame [of db] fn_inv_frame [of db])
qed

lemma inv_ns_row_update:
  assumes "platform_inv db"
    and "\<And>n. ns_id (g n) = ns_id n \<and> ns_name (g n) = ns_name n \<and> ns_account_id (g n) = ns_account_id n"
    and "\<And>n. n \<in> set (namespaces db) \<Longrightarrow> ns_id n = i \<Longrightarrow>
           0 \<le> ns_allowlist_changes_today (g n) \<and> ns_allowlist_changes_today (g n) \<le> 5"
  shows "platform_inv (db\<lparr>namespaces := update_row ns_id i g (namespaces db)\<rparr>)"
proof (rule platform_inv_frame [OF assms(1)])
  show "ns_inv (db\<lparr>namespaces := update_row ns_id i g (namespaces db)\<rparr>)"
    using assms by (intro ns_inv_update) (auto simp: platform_inv_def)
qed (use assms in \<open>auto simp: platform_inv_def ns_ids_update
       intro: svc_inv_frame [of db] shr_inv_frame [of db] fn_inv_frame [of db]\<close>)

lemma inv_ns_update:
  assumes "platform_inv db" and "ns_update db now i a d al = Inr (db', n)"
  shows "platform_inv db'"
proof -
  obtain ns where ns: "ns_get_by_id db i (Some a) None None = Inr ns" "al \<noteq> None \<longrightarrow> can_update_allowlist ns"
    using assms(2) by (auto simp: ns_update_def Let_def split: if_splits)
  have "m = ns" if "m \<in> set (namespaces db)" "ns_id m = i" for m
    using ns_row_unique [of db m ns] ns_get_by_id_Inr [OF ns(1)] that assms(1) by (auto simp: platform_inv_def)
  then have bound: "ns_allowlist_changes_today m + 1 \<le> 5" if "m \<in> set (namespaces db)" "ns_id m = i" "al \<noteq> None" for m
    using ns(2) that by (auto simp: can_update_allowlist_def)
  have "0 \<le> ns_allowlist_changes_today m \<and> ns_allowlist_changes_today m \<le> 5" if "m \<in> set (namespaces db)" for m
    using assms(1) that by (auto simp: platform_inv_def ns_inv_def list_all_iff)
  then show ?thesis using assms(2) bound
    by (cases "al = None") (auto simp: ns_update_def Let_def split: if_splits intro!: inv_ns_row_update [OF assms(1)])
qed

lemma inv_ns_delete:
  assumes "platform_inv db" and "ns_delete db now i a = Inr (db', n)"
  shows "platform_inv db'"
proof -
  have "0 \<le> ns_allowlist_changes_today m \<and> ns_allowlist_changes_today m \<le> 5" if "m \<in> set (namespaces db)" for m
    using assms(1) that by (auto simp: platform_inv_def ns_inv_def list_all_iff)
  then show ?thesis using assms(2)
    by (auto simp: ns_delete_def intro!: inv_ns_row_update [OF assms(1)])
qed

lemma inv_svc_create:
  assumes "platform_inv db" and "svc_create db n name d = Inr (db', s)"
  shows "platform_inv db'"
proof -
  from assms(2) obtain nm where
    none: "one_or_none (\<lambda>s. svc_namespace_id s = n \<and> svc_name s = py_lower name) (services db) = Inr None"
    and nm: "validate_name True (py_lower name) = Inr nm" "slug True nm" "n \<in> ns_id ` set (namespaces db)"
    and s: "svc_id s = next_id db" "svc_namespace_id s = n" "svc_name s = nm"
    and db': "db' = db\<lparr>services := services db @ [s], next_id := Suc (next_id db)\<rparr>"
    by (auto simp: svc_create_def Let_def split: if_splits)
  have "nm = py_lower name" using nm(1) by (auto simp: validate_name_def split: if_splits)
  then have "(n, nm) \<notin> (\<lambda>s. (svc_namespace_id s, svc_name s)) ` set (services db)"
    using none by (auto simp: one_or_none_None)
  then have "svc_inv db'" using assms(1) s nm(2,3) unfolding platform_inv_def db' svc_inv_def
    by (auto simp: list_all_iff)
  then show ?thesis using assms(1)
    by (rule_tac platform_inv_frame [OF assms(1)])
      (auto simp: db' platform_inv_def intro: ns_inv_frame [of db] shr_inv_frame [of db] fn_inv_frame [of db])
qed

lemma inv_svc_update:
  assumes "platform_inv db" and "svc_update db i d = Inr (db', s)"
  shows "platform_inv db'"
proof -
  obtain g where db': "db' = db\<lparr>services := update_row svc_id i g (services db)\<rparr>"
    and g: "\<And>s. svc_id (g s) = svc_id s \<and> svc_namespace_id (g s) = svc_namespace_id s \<and> svc_name (g s) = svc_name s"
    using assms(2) by (auto simp: svc_update_def Let_def)
  have ids: "map svc_id (services db') = map svc_id (services db)"
    using g by (simp add: db' map_update_row)
  have "svc_inv db'"
    using assms(1) g unfolding platform_inv_def db' svc_inv_def
    by (auto simp: map_update_row list_all_iff in_update_row)
  then show ?thesis using assms(1) arg_cong [OF ids, of set]
    by (rule_tac platform_inv_frame [OF assms(1)])
      (auto simp: db' platform_inv_def intro: ns_inv_frame [of db] shr_inv_frame [of db] fn_inv_frame [of db])
qed

lemma inv_svc_delete:
  assumes "platform_inv db" and "svc_delete db i = Inr db'"
  shows "platform_inv db'"
proof -
  have db': "db' = svc_cascade i db" using assms(2) by (auto simp: svc_delete_def)
  have "svc_inv db'" using assms(1)
    by (auto simp: platform_inv_def svc_inv_def db' list_all_iff distinct_map_filter)
  then show ?thesis using assms(1)
    by (rule_tac platform_inv_frame [OF assms(1)])
      (auto simp: db' platform_inv_def intro: ns_inv_frame [of db] shr_inv_frame [of db] fn_inv_cascade)
qed

lemma inv_shares_only:
  assumes "platform_inv db" and "shr_inv db'"
    and "db' = db\<lparr>shares := shares db', next_id := next_id db'\<rparr>" and "next_id db \<le> next_id db'"
  shows "platform_inv db'"
proof (rule platform_inv_frame [OF assms(1) _ _ _ _ assms(2)])
  show "ns_inv db'" using assms(1,4) by (subst assms(3)) (auto simp: platform_inv_def intro: ns_inv_frame [of db])
  show "svc_inv db'" using assms(1,4) by (subst assms(3)) (auto simp: platform_inv_def intro: svc_inv_frame [of db])
  show "fn_inv db'" using assms(1,4) by (subst assms(3)) (auto simp: platform_inv_def intro: fn_inv_frame [of db])
qed (subst assms(3), simp)+

text \<open>What a successful invitation does to the table of shares.\<close>

lemma create_invite_cases:
  assumes "create_invite db n e ps u = Inr (db', s)"
  shows "(\<exists>old\<in>set (shares db). sh_status old \<in> {Declined, Revoked} \<and> ps \<noteq> [] \<and> set ps \<subseteq> set VALID_PERMISSIONS
            \<and> db' = db\<lparr>shares := update_row sh_id (sh_id old) (reopen_share ps u) (shares db)\<rparr>)
         \<or> (db' = db\<lparr>shares := shares db @ [s], next_id := Suc (next_id db)\<rparr>
            \<and> sh_id s = next_id db \<and> share_ok s \<and> sh_status s = Pending
            \<and> sh_namespace_id s \<in> ns_id ` set (namespaces db)
            \<and> (sh_namespace_id s, sh_user_id s) \<notin> (\<lambda>s. (sh_namespace_id s, sh_user_id s)) ` set (shares db))"
proof -
  have ps: "ps \<noteq> []" "set ps \<subseteq> set VALID_PERMISSIONS"
    using assms by (auto simp: create_invite_def split: if_splits)
  from assms obtain ns i where ns: "fetch (NotFoundError ''Namespace'') (\<lambda>m. ns_id m = n) (namespaces db) = Inr ns"
    and g: "grant_share db n i ps u = Inr (db', s)"
    by (auto simp: create_invite_def split: if_splits)
  have n: "n \<in> ns_id ` set (namespaces db)" using fetch_Inr [OF ns] by auto
  from g obtain r where r: "one_or_none (\<lambda>s. sh_namespace_id s = n \<and> sh_user_id s = i) (shares db) = Inr r"
    by (auto simp: grant_share_def)
  show ?thesis
  proof (cases r)
    case None
    with g r ps n show ?thesis
      by (auto simp: grant_share_def one_or_none_None Let_def share_ok_def)
  next
    case (Some old)
    then have "old \<in> set (shares db)" using r by (auto dest: one_or_none_Some)
    with g r ps Some show ?thesis
      by (cases "sh_status old") (auto simp: grant_share_def split: if_splits)
  qed
qed

lemma inv_create_invite:
  assumes "platform_inv db" and "create_invite db n e ps u = Inr (db', s)"
  shows "platform_inv db'"
  using create_invite_cases [OF assms(2)]
proof (elim disjE bexE conjE)
  fix old assume db': "db' = db\<lparr>shares := update_row sh_id (sh_id old) (reopen_share ps u) (shares db)\<rparr>"
    and ps: "ps \<noteq> []" "set ps \<subseteq> set VALID_PERMISSIONS"
  have "shr_inv db'" using assms(1) ps unfolding db' platform_inv_def
    by (intro shr_inv_update) (auto simp: reopen_share_def share_ok_def)
  then show ?thesis by (rule inv_shares_only [OF assms(1)]) (simp_all add: db')
next
  assume db': "db' = db\<lparr>shares := shares db @ [s], next_id := Suc (next_id db)\<rparr>"
    and s: "sh_id s = next_id db" "share_ok s" "sh_namespace_id s \<in> ns_id ` set (namespaces db)"
      "(sh_namespace_id s, sh_user_id s) \<notin> (\<lambda>s. (sh_namespace_id s, sh_user_id s)) ` set (shares db)"
  have "shr_inv db'" using assms(1) s unfolding db' platform_inv_def shr_inv_def by (auto simp: list_all_iff)
  then show ?thesis by (rule inv_shares_only [OF assms(1)]) (simp_all add: db')
qed

lemma inv_share_row:
  assumes "platform_inv db"
    and "\<And>s. sh_id (g s) = sh_id s \<and> sh_namespace_id (g s) = sh_namespace_id s \<and> sh_user_id (g s) = sh_user_id s"
    and "\<And>s. share_ok s \<Longrightarrow> share_ok (g s)"
  shows "platform_inv (db\<lparr>shares := update_row sh_id i g (shares db)\<rparr>)"
proof (rule inv_shares_only [OF assms(1)])
  show "shr_inv (db\<lparr>shares := update_row sh_id i g (shares db)\<rparr>)"
    using assms unfolding platform_inv_def by (intro shr_inv_update) auto
qed simp_all

lemma inv_share_ops:
  assumes "platform_inv db"
  shows "share_accept db now i u = Inr (db', s) \<Longrightarrow> platform_inv db'"
    and "share_decline db i u = Inr (db', s) \<Longrightarrow> platform_inv db'"
    and "share_revoke db now i u = Inr (db', s) \<Longrightarrow> platform_inv db'"
  by (auto simp: share_accept_def share_decline_def share_revoke_def share_ok_def Let_def
      intro!: inv_share_row [OF assms] split: if_splits)

lemma platform_inv_exec:
  assumes "platform_inv db" and "platform_exec r db = Inr db'"
  shows "platform_inv db'"
proof (cases r)
  case (OFn r')
  then have *: "fn_exec r' db = Inr db'" using assms(2) by simp
  then show ?thesis using assms(1) fn_exec_frame [OF *] fn_inv_exec [OF _ *]
    by (auto simp: platform_inv_def intro: ns_inv_frame [of db] svc_inv_frame [of db] shr_inv_frame [of db])
qed (use assms in \<open>auto intro: inv_ns_create inv_ns_update inv_ns_delete inv_svc_create inv_svc_update
       inv_svc_delete inv_create_invite inv_share_ops\<close>)

interpretation platform: request_machine platform_request platform_inv "\<lambda>_. True"
  by unfold_locales (auto simp: platform_request_def intro: platform_inv_exec split: sum.splits)

section \<open>Properties\<close>

text \<open>
  C20: No sequence of requests to the function, namespace, service and share services breaks the
  integrity of the tables: identifiers, names and shares stay unique, every reference points to
  a row, every function has its active version, permissions stay within the valid ones, also
  when a service is deleted with everything in it.\<close>

theorem platform_requests_keep_integrity:
  assumes "platform_inv db"
  shows "platform_inv (foldl platform_request db rs)"
  using assms by (intro platform.inv_run) (auto simp: list_all_iff)

lemma check_share_access_iff:
  assumes "shr_inv db"
  shows "check_share_access db n u p =
         Inr (\<exists>s\<in>set (shares db). sh_namespace_id s = n \<and> sh_user_id s = u \<and> sh_status s = Accepted
                                   \<and> p \<in> set (sh_permissions s))"
proof -
  let ?P = "\<lambda>s. sh_namespace_id s = n \<and> sh_user_id s = u \<and> sh_status s = Accepted"
  let ?k = "\<lambda>s. (sh_namespace_id s, sh_user_id s)"
  have d: "distinct (map ?k (shares db))" using assms by (simp add: shr_inv_def)
  have k: "\<And>s. s \<in> set (shares db) \<Longrightarrow> ?P s \<Longrightarrow> ?k s = (n, u)" by simp
  have "\<exists>r. one_or_none ?P (shares db) = Inr r" by (rule one_or_none_unique [OF d k])
  then obtain r where r: "one_or_none ?P (shares db) = Inr r" ..
  show ?thesis
  proof (cases r)
    case None
    with r have none: "one_or_none ?P (shares db) = Inr None" by simp
    then have "\<forall>s\<in>set (shares db). \<not> ?P s" unfolding one_or_none_None .
    then have "\<not> (\<exists>s\<in>set (shares db). sh_namespace_id s = n \<and> sh_user_id s = u \<and> sh_status s = Accepted
                     \<and> p \<in> set (sh_permissions s))" by blast
    then show ?thesis using none by (simp add: check_share_access_def)
  next
    case (Some s)
    then have s: "s \<in> set (shares db)" "?P s" using r by (auto dest: one_or_none_Some)
    have u: "t = s" if "t \<in> set (shares db)" "?P t" for t
      using that(2) s(2) by (intro distinct_key_unique [OF d that(1) s(1)]) simp
    have "(\<exists>t\<in>set (shares db). sh_namespace_id t = n \<and> sh_user_id t = u \<and> sh_status t = Accepted
             \<and> p \<in> set (sh_permissions t)) \<longleftrightarrow> p \<in> set (sh_permissions s)"
      using s u by blast
    then show ?thesis using r Some by (simp add: check_share_access_def)
  qed
qed

text \<open>
  C5: Fetching a namespace on behalf of an account succeeds exactly when the namespace exists, is not
  deleted, and either belongs to the account or has been shared with the acting user by a share
  that was accepted and carries the required permission.\<close>

theorem namespace_access_exact:
  assumes "platform_inv db"
  shows "ns_get_by_id db i (Some a) u p = Inr n \<longleftrightarrow>
           n \<in> set (namespaces db) \<and> ns_id n = i \<and> ns_deleted_at n = None
           \<and> (ns_account_id n = a
              \<or> (\<exists>u' p'. u = Some u' \<and> p = Some p' \<and> p' \<noteq> []
                   \<and> (\<exists>s\<in>set (shares db). sh_namespace_id s = i \<and> sh_user_id s = u' \<and> sh_status s = Accepted
                                        \<and> p' \<in> set (sh_permissions s))))"
proof -
  have shr: "shr_inv db" and ns: "distinct (map ns_id (namespaces db))"
    using assms by (auto simp: platform_inv_def ns_inv_def)
  have get: "ns_get_by_id db i (Some a) u p = ns_authorize db n (Some a) u p"
    if "n \<in> set (namespaces db)" "ns_id n = i" "ns_deleted_at n = None" for n
  proof -
    have "one_or_none (\<lambda>n. ns_id n = i \<and> ns_deleted_at n = None) (namespaces db) = Inr (Some n)"
      using that by (intro one_or_none_mem [OF ns, where k = i]) auto
    then show ?thesis by (simp add: ns_get_by_id_def)
  qed
  have auth: "ns_authorize db n (Some a) u p = Inr n \<longleftrightarrow>
      ns_account_id n = a
      \<or> (\<exists>u' p'. u = Some u' \<and> p = Some p' \<and> p' \<noteq> []
           \<and> (\<exists>s\<in>set (shares db). sh_namespace_id s = ns_id n \<and> sh_user_id s = u' \<and> sh_status s = Accepted
                                \<and> p' \<in> set (sh_permissions s)))" for n
    by (auto simp: ns_authorize_def check_share_access_iff [OF shr] split: option.splits)
  show ?thesis (is "?L \<longleftrightarrow> ?R")
  proof
    assume "ns_get_by_id db i (Some a) u p = Inr n"
    moreover from ns_get_by_id_Inr [OF this] have "n \<in> set (namespaces db) \<and> ns_id n = i \<and> ns_deleted_at n = None" .
    ultimately show ?R using get [of n] auth [of n] by simp
  next
    assume R: ?R
    then have "ns_authorize db n (Some a) u p = Inr n" unfolding auth by simp
    with R get [of n] show ?L by simp
  qed
qed

section \<open>The life cycle of a share\<close>

inductive share_step :: "share_status \<Rightarrow> share_status \<Rightarrow> bool" where
  accept: "share_step Pending Accepted"
| decline: "share_step Pending Declined"
| revoke: "share_step s Revoked"
| invite_again: "s \<in> {Declined, Revoked} \<Longrightarrow> share_step s Pending"

inductive_simps share_step_simps: "share_step s t"
inductive_cases share_step_to_Accepted: "share_step s Accepted"

text \<open>
  What one request does to the table of shares: nothing, a step of the life cycle on one row, or a
  new pending row. Only the invited user's acceptance leads to an accepted share.
\<close>

definition share_row_step :: "platform_op \<Rightarrow> nat \<Rightarrow> (share_row \<Rightarrow> share_row) \<Rightarrow> share_row \<Rightarrow> bool" where
  "share_row_step r i g s \<longleftrightarrow>
     sh_id (g s) = sh_id s \<and> sh_namespace_id (g s) = sh_namespace_id s \<and> sh_user_id (g s) = sh_user_id s
     \<and> share_step (sh_status s) (sh_status (g s))
     \<and> (sh_status (g s) = Accepted \<longrightarrow> (\<exists>now. r = OAccept now i (sh_user_id s)))"

lemma share_row_effect:
  assumes "shr_inv db" and "get_share db i = Inr s" and "share_row_step r i g s"
    and "shares db' = update_row sh_id i g (shares db)"
  shows "\<exists>i g. shares db' = update_row sh_id i g (shares db)
               \<and> (\<forall>s\<in>set (shares db). sh_id s = i \<longrightarrow> share_row_step r i g s)"
proof -
  have s: "s \<in> set (shares db)" "sh_id s = i"
    using assms(2) by (auto simp: get_share_def dest: fetch_Inr)
  have "t = s" if "t \<in> set (shares db)" "sh_id t = i" for t
    using assms(1) that s by (intro distinct_key_unique [of sh_id "shares db"]) (auto simp: shr_inv_def)
  then show ?thesis using assms(3,4) by metis
qed

lemma share_effect:
  assumes "platform_inv db" and "platform_exec r db = Inr db'"
  shows "shares db' = shares db
         \<or> (\<exists>i g. shares db' = update_row sh_id i g (shares db)
                \<and> (\<forall>s\<in>set (shares db). sh_id s = i \<longrightarrow> share_row_step r i g s))
         \<or> (\<exists>s. shares db' = shares db @ [s] \<and> sh_status s = Pending)"
proof -
  have shr: "shr_inv db" using assms(1) by (simp add: platform_inv_def)
  note row = share_row_effect [OF shr]
  show ?thesis
  proof (cases r)
    case (OFn r') then show ?thesis using assms(2) fn_exec_frame by auto
  next
    case (OInvite n e ps u)
    then obtain s where inv: "create_invite db n e ps u = Inr (db', s)" using assms(2) by auto
    show ?thesis using create_invite_cases [OF inv]
    proof (elim disjE bexE conjE)
      fix old assume old: "old \<in> set (shares db)" "sh_status old \<in> {Declined, Revoked}"
        and db': "db' = db\<lparr>shares := update_row sh_id (sh_id old) (reopen_share ps u) (shares db)\<rparr>"
      have "get_share db (sh_id old) = Inr old"
        using old(1) shr unfolding get_share_def
        by (subst fetch_mem [where f = sh_id and k = "sh_id old"]) (auto simp: shr_inv_def)
      then show ?thesis using old(2) db'
        by (intro disjI2 disjI1 row [of "sh_id old" old])
          (auto simp: share_row_step_def reopen_share_def intro: share_step.intros)
    qed auto
  next
    case (OAccept now i u)
    then obtain s where s: "get_share db i = Inr s" "sh_user_id s = u" "sh_status s = Pending" and db': "shares db' = update_row sh_id i (\<lambda>s. s\<lparr>sh_status := Accepted, sh_accepted_at := Some now\<rparr>) (shares db)"
      using assms(2) by (auto simp: share_accept_def Let_def split: if_splits)
    show ?thesis
      by (intro disjI2 disjI1 row [OF s(1) _ db']) (use s OAccept in \<open>auto simp: share_row_step_def intro: share_step.intros\<close>)
  next
    case (ODecline i u)
    then obtain s where s: "get_share db i = Inr s" "sh_status s = Pending" and db': "shares db' = update_row sh_id i (\<lambda>s. s\<lparr>sh_status := Declined\<rparr>) (shares db)"
      using assms(2) by (auto simp: share_decline_def Let_def split: if_splits)
    show ?thesis
      by (intro disjI2 disjI1 row [OF s(1) _ db']) (use s ODecline in \<open>auto simp: share_row_step_def intro: share_step.intros\<close>)
  next
    case (ORevoke now i u)
    then obtain s where s: "get_share db i = Inr s" and db': "shares db' = update_row sh_id i (\<lambda>s. s\<lparr>sh_status := Revoked, sh_revoked_at := Some now\<rparr>) (shares db)"
      using assms(2) by (auto simp: share_revoke_def Let_def split: if_splits)
    show ?thesis
      by (intro disjI2 disjI1 row [OF s _ db']) (use s ORevoke in \<open>auto simp: share_row_step_def intro: share_step.intros\<close>)
  qed (use assms(2) in \<open>auto simp: ns_create_def ns_update_def ns_delete_def svc_create_def svc_update_def
         svc_delete_def Let_def split: if_splits option.splits\<close>)
qed


text \<open>
  C22: A stored share never disappears and never changes its namespace or user, and one request changes its
  status only along the life cycle (pending to accepted or declined, anything to revoked, declined
  or revoked to pending); it becomes accepted only by a request of the invited user.\<close>

theorem share_life_cycle:
  assumes "platform_inv db" and "s \<in> set (shares db)"
  shows "\<exists>t\<in>set (shares (platform_request db r)).
           sh_id t = sh_id s \<and> sh_namespace_id t = sh_namespace_id s \<and> sh_user_id t = sh_user_id s
           \<and> (sh_status t = sh_status s \<or> share_step (sh_status s) (sh_status t))
           \<and> (sh_status t = Accepted \<longrightarrow>
                sh_status s = Accepted \<or> (\<exists>now. r = OAccept now (sh_id s) (sh_user_id s)))"
proof (cases "platform_exec r db")
  case (Inl e)
  then show ?thesis using assms(2) by (auto simp: platform_request_def)
next
  case (Inr db')
  then have req: "platform_request db r = db'" by (simp add: platform_request_def)
  show ?thesis using share_effect [OF assms(1) Inr]
  proof (elim disjE exE conjE)
    fix i g assume g: "\<forall>s\<in>set (shares db). sh_id s = i \<longrightarrow> share_row_step r i g s"
      and sh: "shares db' = update_row sh_id i g (shares db)"
    have "(if sh_id s = i then g s else s) \<in> set (shares db')"
      unfolding sh in_update_row using assms(2) by blast
    then show ?thesis using g assms(2)
      by (intro bexI [of _ "if sh_id s = i then g s else s"]) (auto simp: req share_row_step_def)
  qed (use assms(2) req in auto)
qed

subsection \<open>Revocation\<close>

definition not_shared :: "nat \<Rightarrow> nat \<Rightarrow> platform_db \<Rightarrow> bool" where
  "not_shared n u db \<longleftrightarrow> platform_inv db
     \<and> list_all (\<lambda>s. sh_namespace_id s = n \<and> sh_user_id s = u \<longrightarrow> sh_status s \<noteq> Accepted) (shares db)"

fun no_acceptance :: "nat \<Rightarrow> platform_op \<Rightarrow> bool" where
  "no_acceptance u (OAccept _ _ v) = (v \<noteq> u)"
| "no_acceptance u _ = True"

lemma no_acceptance_OAccept: "no_acceptance u r \<Longrightarrow> r \<noteq> OAccept now i u"
  by auto

lemma not_shared_exec:
  assumes "not_shared n u db" and "no_acceptance u r" and "platform_exec r db = Inr db'"
  shows "not_shared n u db'"
proof -
  have inv: "platform_inv db" and
    closed: "\<forall>s\<in>set (shares db). sh_namespace_id s = n \<and> sh_user_id s = u \<longrightarrow> sh_status s \<noteq> Accepted"
    using assms(1) by (auto simp: not_shared_def list_all_iff)
  have "\<forall>s\<in>set (shares db'). sh_namespace_id s = n \<and> sh_user_id s = u \<longrightarrow> sh_status s \<noteq> Accepted"
    using share_effect [OF inv assms(3)]
  proof (elim disjE exE conjE)
    fix i g assume g: "\<forall>s\<in>set (shares db). sh_id s = i \<longrightarrow> share_row_step r i g s"
      and sh: "shares db' = update_row sh_id i g (shares db)"
    show ?thesis unfolding sh
    proof (intro ballI impI)
      fix t assume "t \<in> set (update_row sh_id i g (shares db))" and t: "sh_namespace_id t = n \<and> sh_user_id t = u"
      then obtain s where s: "s \<in> set (shares db)" "t = (if sh_id s = i then g s else s)"
        by (auto simp: in_update_row)
      then show "sh_status t \<noteq> Accepted"
        using t bspec [OF g s(1)] bspec [OF closed s(1)] no_acceptance_OAccept [OF assms(2)]
        by (auto simp: share_row_step_def split: if_splits)
    qed
  qed (use closed in auto)
  then show ?thesis using platform_inv_exec [OF inv assms(3)] by (simp add: not_shared_def list_all_iff)
qed

interpretation unshared: request_machine platform_request "not_shared n u" "no_acceptance u" for n u
  by unfold_locales (auto simp: platform_request_def intro: not_shared_exec split: sum.splits)

text \<open>
  C21: Once the owner has revoked a share, every access check of that user on that namespace fails,
  for any permission and after any further requests, until the user accepts another invitation.\<close>

theorem revoke_cuts_access:
  assumes "platform_inv db" and "share_revoke db now i owner = Inr (db', s)"
    and "list_all (no_acceptance (sh_user_id s)) rs"
  shows "check_share_access (foldl platform_request db' rs) (sh_namespace_id s) (sh_user_id s) p = Inr False"
proof -
  let ?n = "sh_namespace_id s" and ?u = "sh_user_id s"
  have inv': "platform_inv db'" using inv_share_ops(3) [OF assms(1,2)] .
  from assms(2) obtain old where old: "get_share db i = Inr old"
    and s: "s = old\<lparr>sh_status := Revoked, sh_revoked_at := Some now\<rparr>"
    and db': "shares db' = update_row sh_id i (\<lambda>s. s\<lparr>sh_status := Revoked, sh_revoked_at := Some now\<rparr>) (shares db)"
    by (auto simp: share_revoke_def Let_def)
  have mem: "s \<in> set (shares db')" unfolding s db'
    using old by (intro update_row_hit) (auto simp: get_share_def dest: fetch_Inr)
  have d: "distinct (map (\<lambda>s. (sh_namespace_id s, sh_user_id s)) (shares db'))"
    using inv' by (simp add: platform_inv_def shr_inv_def)
  have "sh_status t \<noteq> Accepted" if "t \<in> set (shares db')" "sh_namespace_id t = ?n" "sh_user_id t = ?u" for t
  proof -
    have "t = s" using that(2,3) by (intro distinct_key_unique [OF d that(1) mem]) simp
    then show ?thesis by (simp add: s)
  qed
  then have "not_shared ?n ?u db'" using inv' by (simp add: not_shared_def list_all_iff)
  then have "not_shared ?n ?u (foldl platform_request db' rs)" using assms(3) by (rule unshared.inv_run)
  then have "shr_inv (foldl platform_request db' rs)"
    and "\<forall>t\<in>set (shares (foldl platform_request db' rs)).
           sh_namespace_id t = ?n \<and> sh_user_id t = ?u \<longrightarrow> sh_status t \<noteq> Accepted"
    by (simp_all add: not_shared_def platform_inv_def list_all_iff)
  then show ?thesis unfolding check_share_access_iff [OF \<open>shr_inv (foldl platform_request db' rs)\<close>] by blast
qed

subsection \<open>Allowlist changes\<close>

lemma namespace_effect:
  assumes "platform_exec r db = Inr db'"
  shows "namespaces db' = namespaces db \<or> (\<exists>n. namespaces db' = namespaces db @ [n])
         \<or> (\<exists>i g. namespaces db' = update_row ns_id i g (namespaces db)
               \<and> (\<forall>n. ns_id (g n) = ns_id n \<and> ns_allowlist_changes_today n \<le> ns_allowlist_changes_today (g n)))"
proof (cases r)
  case (OFn r') then show ?thesis using assms fn_exec_frame by auto
next
  case (OInvite n e ps u)
  then show ?thesis using assms create_invite_cases by fastforce
next
  case (ONsUpdate now i a d al)
  let ?g = "(\<lambda>n. if al = None then n else n\<lparr>ns_network_allowlist := al, ns_allowlist_updated_at := Some now,
                               ns_allowlist_changes_today := ns_allowlist_changes_today n + 1\<rparr>)
       \<circ> (\<lambda>n. n\<lparr>ns_description := (if d = None then ns_description n else d)\<rparr>)"
  have "namespaces db' = update_row ns_id i ?g (namespaces db)"
    using ONsUpdate assms by (auto simp: ns_update_def Let_def split: if_splits)
  then show ?thesis by (intro disjI2 exI [of _ i] exI [of _ ?g]) auto
next
  case (ONsDelete now i a)
  then have "namespaces db' = update_row ns_id i (\<lambda>n. n\<lparr>ns_deleted_at := Some now\<rparr>) (namespaces db)"
    using assms by (auto simp: ns_delete_def)
  then show ?thesis by (intro disjI2 exI [of _ i] exI [of _ "\<lambda>n. n\<lparr>ns_deleted_at := Some now\<rparr>"]) auto
qed (use assms in \<open>auto simp: ns_create_def svc_create_def svc_update_def svc_delete_def share_accept_def
       share_decline_def share_revoke_def Let_def split: if_splits option.splits\<close>)

definition allowlist_spent :: "nat \<Rightarrow> platform_db \<Rightarrow> bool" where
  "allowlist_spent i db \<longleftrightarrow> platform_inv db
     \<and> list_ex (\<lambda>n. ns_id n = i \<and> 5 \<le> ns_allowlist_changes_today n) (namespaces db)"

lemma allowlist_spent_exec:
  assumes "allowlist_spent i db" and "platform_exec r db = Inr db'"
  shows "allowlist_spent i db'"
proof -
  obtain n where n: "n \<in> set (namespaces db)" "ns_id n = i" "5 \<le> ns_allowlist_changes_today n"
    using assms(1) by (auto simp: allowlist_spent_def list_ex_iff)
  have "\<exists>n\<in>set (namespaces db'). ns_id n = i \<and> 5 \<le> ns_allowlist_changes_today n"
    using namespace_effect [OF assms(2)]
  proof (elim disjE exE conjE)
    fix j g assume g: "\<forall>n. ns_id (g n) = ns_id n \<and> ns_allowlist_changes_today n \<le> ns_allowlist_changes_today (g n)"
      and db': "namespaces db' = update_row ns_id j g (namespaces db)"
    have "(if ns_id n = j then g n else n) \<in> set (namespaces db')" unfolding db' in_update_row using n(1) by blast
    then show ?thesis using g n
      by (intro bexI [of _ "if ns_id n = j then g n else n"]) (auto intro: order_trans)
  qed (use n in auto)
  then show ?thesis using platform_inv_exec [OF _ assms(2)] assms(1)
    by (auto simp: allowlist_spent_def list_ex_iff)
qed

interpretation allowlist: request_machine platform_request "allowlist_spent i" "\<lambda>_. True" for i
  by unfold_locales (auto simp: platform_request_def intro: allowlist_spent_exec split: sum.splits)

text \<open>
  C24: After five changes of its network allowlist, a namespace refuses every further change at any
  later time: no request resets the counter that the message calls a limit for 24 hours.\<close>

theorem allowlist_limit_is_permanent:
  assumes "platform_inv db" and "n \<in> set (namespaces db)" and "ns_allowlist_changes_today n = 5"
  shows "\<exists>e. ns_update (foldl platform_request db rs) now (ns_id n) a d (Some al) = Inl e"
proof -
  let ?db = "foldl platform_request db rs"
  have "allowlist_spent (ns_id n) db" using assms by (auto simp: allowlist_spent_def list_ex_iff)
  then have spent: "allowlist_spent (ns_id n) ?db" by (rule allowlist.inv_run) (simp add: list_all_iff)
  then obtain m where m: "m \<in> set (namespaces ?db)" "ns_id m = ns_id n" "5 \<le> ns_allowlist_changes_today m"
    and inv: "ns_inv ?db" by (auto simp: allowlist_spent_def list_ex_iff platform_inv_def)
  have "\<not> can_update_allowlist ns" if "ns_get_by_id ?db (ns_id n) (Some a) None None = Inr ns" for ns
    using ns_row_unique [OF inv m(1), of ns] ns_get_by_id_Inr [OF that] m by (auto simp: can_update_allowlist_def)
  then show ?thesis
    by (cases "ns_get_by_id ?db (ns_id n) (Some a) None None") (auto simp: ns_update_def Let_def)
qed

subsection \<open>Resolving a call\<close>

definition callable_as :: "platform_db \<Rightarrow> nat \<Rightarrow> string \<Rightarrow> string \<Rightarrow> function_row \<Rightarrow> bool" where
  "callable_as db n sname fname f \<longleftrightarrow>
     f \<in> set (funcs db) \<and> fn_deleted_at f = None \<and> fn_name f = py_lower fname
     \<and> list_ex (\<lambda>s. svc_id s = fn_service_id f \<and> svc_namespace_id s = n \<and> svc_name s = py_lower sname)
         (services db)"

lemma callable_unique:
  assumes "platform_inv db" and "callable_as db n sname fname f" and "callable_as db n sname fname g"
  shows "f = g"
proof -
  from assms(2,3) obtain s t where s: "s \<in> set (services db)" "svc_id s = fn_service_id f"
      "svc_namespace_id s = n" "svc_name s = py_lower sname"
    and t: "t \<in> set (services db)" "svc_id t = fn_service_id g" "svc_namespace_id t = n" "svc_name t = py_lower sname"
    by (auto simp: callable_as_def list_ex_iff)
  have "s = t" using assms(1) s t
    by (intro distinct_key_unique [of "\<lambda>s. (svc_namespace_id s, svc_name s)" "services db"])
      (auto simp: platform_inv_def svc_inv_def)
  then show ?thesis using assms s t
    by (intro distinct_key_unique [of "\<lambda>f. (fn_service_id f, fn_name f)" "funcs db"])
      (auto simp: platform_inv_def fn_inv_def callable_as_def)
qed

lemma get_active_version_obj_some:
  assumes "fn_inv db" and "f \<in> set (funcs db)" and "fn_deleted_at f = None"
  shows "\<exists>v. get_active_version_obj db f = Some v \<and> fn_get_active_version db (fn_id f) = Inr v"
proof -
  obtain w where "w \<in> set (versions_of db (fn_id f))" "fv_version w = fn_active_version f"
    using fn_inv_active [OF assms(1,2)] by (auto simp: has_version_iff)
  from find_exists [of w _ "\<lambda>v. fv_version v = fn_active_version f", OF this] obtain v where v: "get_active_version_obj db f = Some v"
    unfolding get_active_version_obj_def ..
  then have "v \<in> set (versions_of db (fn_id f)) \<and> fv_version v = fn_active_version f"
    unfolding get_active_version_obj_def by (rule find_SomeD)
  then have "fn_get_version db (fn_id f) (fn_active_version f) = Inr v"
    unfolding fn_get_version_iff [OF assms(1)] by simp
  moreover have "fn_get_by_id db (fn_id f) = Inr f" using assms(2,3) by (simp add: fn_get_by_id_iff [OF assms(1)])
  ultimately show ?thesis using v by (simp add: fn_get_active_version_def)
qed

lemma get_for_execution_callable:
  assumes "platform_inv db" and f: "callable_as db n sname fname f"
  shows "\<exists>v. get_for_execution db n sname fname = Inr (f, v) \<and> fn_get_active_version db (fn_id f) = Inr v"
proof -
  let ?P = "\<lambda>f. list_ex (\<lambda>s. svc_id s = fn_service_id f \<and> svc_namespace_id s = n
                        \<and> svc_name s = py_lower sname) (services db)
             \<and> fn_name f = py_lower fname \<and> fn_deleted_at f = None"
  have P: "callable_as db n sname fname f \<longleftrightarrow> f \<in> set (funcs db) \<and> ?P f" for f
    by (auto simp: callable_as_def)
  have inv: "fn_inv db" using assms(1) by (simp add: platform_inv_def)
  have d: "distinct (map fn_id (funcs db))" using inv by (simp add: fn_inv_def)
  have "one_or_none ?P (funcs db) = Inr (Some f)"
  proof (rule one_or_none_mem [OF d])
    show "fn_id g = fn_id f" if "g \<in> set (funcs db)" "?P g" for g
      using callable_unique [OF assms(1) _ f, of g] that unfolding P by metis
    show "f \<in> set (funcs db)" "?P f" using f unfolding P by auto
  qed
  moreover obtain v where "get_active_version_obj db f = Some v" "fn_get_active_version db (fn_id f) = Inr v"
    using get_active_version_obj_some [OF inv] f by (auto simp: callable_as_def)
  ultimately show ?thesis by (simp add: get_for_execution_def)
qed

text \<open>
  C23: Looking up a function for execution by service and function name returns the one live function
  callable under these names together with its active version, and fails with "not found" only
  when there is none: the query is never ambiguous and no live function lacks its version.\<close>

theorem get_for_execution_resolves:
  assumes "platform_inv db"
  shows "case get_for_execution db n sname fname of
           Inr (f, v) \<Rightarrow> callable_as db n sname fname f \<and> fn_get_active_version db (fn_id f) = Inr v
         | Inl e \<Rightarrow> e = NotFoundError ''Function'' \<and> (\<forall>f. \<not> callable_as db n sname fname f)"
proof (cases "\<exists>f. callable_as db n sname fname f")
  case True
  then obtain f where f: "callable_as db n sname fname f" by blast
  then show ?thesis using get_for_execution_callable [OF assms f] by auto
next
  case False
  then have "one_or_none (\<lambda>f. list_ex (\<lambda>s. svc_id s = fn_service_id f \<and> svc_namespace_id s = n
               \<and> svc_name s = py_lower sname) (services db)
             \<and> fn_name f = py_lower fname \<and> fn_deleted_at f = None) (funcs db) = Inr None"
    unfolding one_or_none_None by (auto simp: callable_as_def)
  then show ?thesis using False by (simp add: get_for_execution_def)
qed

subsection \<open>Two deviations\<close>

text \<open>The shared namespaces are not paged: every page of the listing repeats all of them.\<close>

lemma shared_on_every_page:
  "ns_list collation db a (Some u) page page_size = Inr (rows, n) \<Longrightarrow>
     set (shared_namespaces db u) \<subseteq> set rows"
  by (auto simp: ns_list_def Let_def)

subsection \<open>Instances\<close>

definition shared_db :: platform_db where
  "shared_db = foldl platform_request sample_db [OInvite 9 ''B@x'' [''read''] 7, OAccept 4 25 6]"

lemma sample_platform_inv: "platform_inv sample_db"
  by code_simp

lemma shared_platform_inv: "platform_inv shared_db"
  by code_simp

text \<open>A share can be offered for a namespace that has been deleted.\<close>

lemma invite_to_deleted_namespace:
  "\<not> isl (create_invite (platform_request sample_db (ONsDelete 4 9 8)) 9 ''b@x'' [''read''] 7)"
  by code_simp

theorem platform_requests_keep_integrity_witness:
  "platform_inv (foldl platform_request shared_db [OSvcDelete 10, ORevoke 6 25 7])"
  using shared_platform_inv by (rule platform_requests_keep_integrity)

theorem namespace_access_exact_witness:
  "\<exists>n. ns_get_by_id shared_db 9 (Some 5) (Some 6) (Some ''read'') = Inr n \<and> ns_account_id n = 8"
proof -
  let ?n = "hd (namespaces shared_db)" and ?s = "hd (shares shared_db)"
  have n: "?n \<in> set (namespaces shared_db)" "ns_id ?n = 9" "ns_deleted_at ?n = None" "ns_account_id ?n = 8"
    by code_simp+
  have s: "?s \<in> set (shares shared_db)" "sh_namespace_id ?s = 9" "sh_user_id ?s = 6"
    "sh_status ?s = Accepted" "''read'' \<in> set (sh_permissions ?s)"
    by code_simp+
  then have "\<exists>s\<in>set (shares shared_db). sh_namespace_id s = 9 \<and> sh_user_id s = 6 \<and> sh_status s = Accepted
               \<and> ''read'' \<in> set (sh_permissions s)" by blast
  then have "ns_get_by_id shared_db 9 (Some 5) (Some 6) (Some ''read'') = Inr ?n"
    using n namespace_access_exact [OF shared_platform_inv, of 9 5 "Some 6" "Some ''read''" ?n] by simp
  then show ?thesis using n(4) by blast
qed

theorem share_life_cycle_witness:
  "\<exists>t\<in>set (shares (platform_request shared_db (ORevoke 6 25 7))).
     sh_id t = 25 \<and> share_step Accepted (sh_status t)"
proof -
  let ?s = "hd (shares shared_db)"
  have s: "?s \<in> set (shares shared_db)" "sh_id ?s = 25" "sh_status ?s = Accepted" by code_simp+
  have r: "list_all (\<lambda>t. sh_status t = Revoked) (shares (platform_request shared_db (ORevoke 6 25 7)))" by code_simp
  from share_life_cycle [OF shared_platform_inv s(1), of "ORevoke 6 25 7"] s r show ?thesis
    by (auto simp: list_all_iff)
qed

theorem revoke_cuts_access_witness:
  "check_share_access shared_db 9 6 ''read'' = Inr True
   \<and> check_share_access (foldl platform_request (fst (projr (share_revoke shared_db 6 25 7)))
        [OInvite 9 ''b@x'' [''read''] 7]) 9 6 ''read'' = Inr False"
proof -
  let ?q = "projr (share_revoke shared_db 6 25 7)"
  have q: "share_revoke shared_db 6 25 7 = Inr (fst ?q, snd ?q)" by code_simp
  have s: "sh_namespace_id (snd ?q) = 9" "sh_user_id (snd ?q) = 6" by code_simp+
  have a: "list_all (no_acceptance (sh_user_id (snd ?q))) [OInvite 9 ''b@x'' [''read''] 7]" by simp
  have "check_share_access shared_db 9 6 ''read'' = Inr True" by code_simp
  then show ?thesis using revoke_cuts_access [OF shared_platform_inv q a, of "''read''"] unfolding s by (rule conjI)
qed

definition spent_db :: platform_db where
  "spent_db = foldl platform_request sample_db (replicate 5 (ONsUpdate 4 9 8 None (Some [''10.0.0.0/8''])))"

theorem allowlist_limit_is_permanent_witness:
  "\<exists>e. ns_update (foldl platform_request spent_db [ONsUpdate 5 9 8 (Some ''later'') None]) 900000 9 8 None (Some []) = Inl e"
proof -
  let ?n = "hd (namespaces spent_db)"
  have "platform_inv spent_db" "?n \<in> set (namespaces spent_db)" "ns_allowlist_changes_today ?n = 5" by code_simp+
  note limit = allowlist_limit_is_permanent [OF this]
  have i: "ns_id ?n = 9" by code_simp
  show ?thesis by (rule limit [unfolded i])
qed

theorem get_for_execution_resolves_witness:
  "\<exists>f v. get_for_execution sample_db 9 ''Tools'' ''PING'' = Inr (f, v)
     \<and> fn_get_active_version sample_db (fn_id f) = Inr v"
proof -
  have "\<not> isl (get_for_execution sample_db 9 ''Tools'' ''PING'')" by code_simp
  then obtain q where q: "get_for_execution sample_db 9 ''Tools'' ''PING'' = Inr q" by (rule not_islE)
  from get_for_execution_resolves [OF sample_platform_inv, of 9 "''Tools''" "''PING''"] show ?thesis
    unfolding q by (cases q) simp
qed

end
