(* ===== verification/Py_Text.thy ===== *)
theory Py_Text
  imports Py_Base
begin

text \<open>
  The two ways the code turns a value into text: Python's \<open>str\<close> of a JSON-like value, which the
  canary check scans, and \<open>json.dumps\<close> of a string, which error replies are built with. Both encode
  a string character by character and leave letters, digits, \<open>-\<close> and \<open>_\<close> alone.
\<close>

section \<open>Numbers and characters\<close>

definition digit_char :: "nat \<Rightarrow> char" where
  "digit_char n = (if n < 10 then char_of (48 + n) else char_of (87 + n))"

fun nat_str :: "nat \<Rightarrow> string" where
  "nat_str n = (if n < 10 then [digit_char n] else nat_str (n div 10) @ [digit_char (n mod 10)])"

declare nat_str.simps [simp del]

definition int_str :: "int \<Rightarrow> string" where
  "int_str i = (if i < 0 then CHR ''-'' # nat_str (nat (- i)) else nat_str (nat i))"

definition hex2 :: "char \<Rightarrow> string" where
  "hex2 c = (let n = (of_char c :: nat) in [digit_char (n div 16), digit_char (n mod 16)])"

definition urlsafe_char :: "char \<Rightarrow> bool" where
  "urlsafe_char c = (is_lower_az c \<or> is_upper_az c \<or> is_dig c \<or> c = CHR ''-'' \<or> c = CHR ''_'')"

definition py_printable :: "char \<Rightarrow> bool" where
  "py_printable c = (let n = (of_char c :: nat) in (32 \<le> n \<and> n < 127) \<or> (160 < n \<and> n \<noteq> 173))"

section \<open>\<open>str\<close> of a value\<close>

definition repr_char :: "char \<Rightarrow> char \<Rightarrow> string" where
  "repr_char q c =
     (if c = q \<or> c = CHR 0x5C then [CHR 0x5C, c]
      else if c = CHR 0x0A then [CHR 0x5C, CHR ''n'']
      else if c = CHR 0x0D then [CHR 0x5C, CHR ''r'']
      else if c = CHR 0x09 then [CHR 0x5C, CHR ''t'']
      else if py_printable c then [c]
      else CHR 0x5C # CHR ''x'' # hex2 c)"

definition repr_str :: "string \<Rightarrow> string" where
  "repr_str s =
     (let q = (if CHR 0x27 \<in> set s \<and> CHR 0x22 \<notin> set s then CHR 0x22 else CHR 0x27)
      in q # concat (map (repr_char q) s) @ [q])"

fun py_repr :: "json \<Rightarrow> string" where
  "py_repr JNull = ''None''"
| "py_repr (JBool b) = (if b then ''True'' else ''False'')"
| "py_repr (JInt i) = int_str i"
| "py_repr (JStr s) = repr_str s"
| "py_repr (JArr xs) = ''['' @ py_join '', '' (map py_repr xs) @ '']''"
| "py_repr (JObj kvs) =
     ''{'' @ py_join '', '' (map (\<lambda>(k, v). repr_str k @ '': '' @ py_repr v) kvs) @ ''}''"

text \<open>\<open>str(v)\<close> is the representation except at a string, which is itself.\<close>

definition py_str :: "json \<Rightarrow> string" where
  "py_str v = (case v of JStr s \<Rightarrow> s | _ \<Rightarrow> py_repr v)"

text \<open>All strings in a value, keys included.\<close>

fun json_strings :: "json \<Rightarrow> string list" where
  "json_strings (JStr s) = [s]"
| "json_strings (JArr xs) = concat (map json_strings xs)"
| "json_strings (JObj kvs) = concat (map (\<lambda>(k, v). k # json_strings v) kvs)"
| "json_strings _ = []"

section \<open>\<open>json.dumps\<close> of a string\<close>

definition json_char :: "char \<Rightarrow> string" where
  "json_char c =
     (if c = CHR 0x22 \<or> c = CHR 0x5C then [CHR 0x5C, c]
      else if c = CHR 0x0A then [CHR 0x5C, CHR ''n'']
      else if c = CHR 0x0D then [CHR 0x5C, CHR ''r'']
      else if c = CHR 0x09 then [CHR 0x5C, CHR ''t'']
      else if c = CHR 0x08 then [CHR 0x5C, CHR ''b'']
      else if c = CHR 0x0C then [CHR 0x5C, CHR ''f'']
      else if (let n = (of_char c :: nat) in 32 \<le> n \<and> n < 127) then [c]
      else CHR 0x5C # CHR ''u'' # CHR ''0'' # CHR ''0'' # hex2 c)"

definition json_body :: "string \<Rightarrow> string" where
  "json_body s = concat (map json_char s)"

definition json_str :: "string \<Rightarrow> string" where
  "json_str s = CHR 0x22 # json_body s @ [CHR 0x22]"

text \<open>
  \<open>json.dumps({"error": msg})\<close> for a message whose encoding is given, and for a message; and the
  test that the callers make on a reply.
\<close>

definition error_reply_raw :: "string \<Rightarrow> string" where
  "error_reply_raw b = CHR ''{'' # CHR 0x22 # ''error'' @ [CHR 0x22] @ '': '' @ CHR 0x22 # b @ [CHR 0x22] @ ''}''"

definition error_reply :: "string \<Rightarrow> string" where
  "error_reply msg = error_reply_raw (json_body msg)"

definition is_error_reply :: "string \<Rightarrow> bool" where
  "is_error_reply s = py_in (CHR 0x22 # ''error'' @ [CHR 0x22]) (take 50 s)"

lemma is_error_reply_raw [simp]: "is_error_reply (error_reply_raw b)"
proof -
  have "take 50 (error_reply_raw b)
        = [CHR ''{''] @ (CHR 0x22 # ''error'' @ [CHR 0x22]) @ take 42 ('': '' @ CHR 0x22 # b @ [CHR 0x22] @ ''}'')"
    by (simp add: error_reply_raw_def eval_nat_numeral)
  then show ?thesis unfolding is_error_reply_def by (metis sublist_appendI)
qed

lemma is_error_reply_error_reply [simp]: "is_error_reply (error_reply msg)"
  by (simp add: error_reply_def)

section \<open>Safe substrings survive\<close>

lemma urlsafe_code:
  assumes "urlsafe_char c"
  shows "45 \<le> (of_char c :: nat) \<and> (of_char c :: nat) \<le> 122 \<and> (of_char c :: nat) \<noteq> 92"
  using assms unfolding urlsafe_char_def is_lower_az_def is_upper_az_def is_dig_def Let_def
  by (elim disjE) auto

lemma repr_char_urlsafe:
  assumes "urlsafe_char c" and "q = CHR 0x22 \<or> q = CHR 0x27"
  shows "repr_char q c = [c]"
proof -
  note code = urlsafe_code [OF assms(1)]
  have "c \<noteq> CHR 0x22" "c \<noteq> CHR 0x27" "c \<noteq> CHR 0x5C" "c \<noteq> CHR 0x0A" "c \<noteq> CHR 0x0D" "c \<noteq> CHR 0x09"
    using code by force+
  moreover have "py_printable c" using code by (simp add: py_printable_def)
  ultimately show ?thesis using assms(2) by (auto simp: repr_char_def)
qed

lemma concat_map_safe:
  "list_all (\<lambda>c. f c = [c]) t \<Longrightarrow> concat (map f t) = t"
  by (induction t) auto

lemma sublist_concat_map:
  assumes "list_all (\<lambda>c. f c = [c]) t" and "sublist t s"
  shows "sublist t (concat (map f s))"
proof -
  obtain a b where s: "s = a @ t @ b" using assms(2) by (auto simp: sublist_def)
  show ?thesis unfolding s by (auto simp: concat_map_safe [OF assms(1)] sublist_def)
qed

lemma sublist_inside: "sublist t m \<Longrightarrow> sublist t (a @ m @ b)"
  by (rule sublist_order.order_trans [OF _ sublist_appendI])

lemmas sublist_sides = sublist_inside [of _ _ "[]", simplified] sublist_inside [of _ _ _ "[]", simplified]

lemma sublist_repr_str:
  assumes "list_all urlsafe_char t" and "sublist t s"
  shows "sublist t (repr_str s)"
proof -
  have *: "sublist t (concat (map (repr_char q) s))" if "q = CHR 0x22 \<or> q = CHR 0x27" for q
    using assms that by (intro sublist_concat_map) (auto simp: list_all_iff repr_char_urlsafe)
  have q: "sublist t (q # concat (map (repr_char q) s) @ [q])" if "q = CHR 0x22 \<or> q = CHR 0x27" for q
    using sublist_inside [OF * [OF that], of "[q]" "[q]"] by simp
  show ?thesis unfolding repr_str_def Let_def by (rule q) auto
qed

lemma sublist_py_join: "sublist t x \<Longrightarrow> x \<in> set xs \<Longrightarrow> sublist t (py_join sep xs)"
proof (induction sep xs rule: py_join.induct)
  case (3 sep z y ys)
  show ?case
  proof (cases "x = z")
    case True
    then show ?thesis using 3(2) by (auto intro: sublist_sides)
  next
    case False
    then have "sublist t (py_join sep (y # ys))" using 3 by simp
    then show ?thesis using sublist_inside [of t "py_join sep (y # ys)" "z @ sep" "[]"] by simp
  qed
qed auto

lemma py_repr_keeps:
  assumes "list_all urlsafe_char t" and "sublist t s"
  shows "s \<in> set (json_strings v) \<Longrightarrow> sublist t (py_repr v)"
proof (induction v rule: py_repr.induct)
  case (5 xs)
  then obtain x where "x \<in> set xs" "sublist t (py_repr x)" by auto
  then have "sublist t (py_join '', '' (map py_repr xs))"
    by (intro sublist_py_join [of t "py_repr x"]) simp_all
  then show ?case unfolding py_repr.simps by (rule sublist_inside)
next
  case (6 kvs)
  let ?item = "\<lambda>(k, v). repr_str k @ '': '' @ py_repr v"
  obtain k w where kw: "(k, w) \<in> set kvs" "s = k \<or> s \<in> set (json_strings w)" using 6(2) by auto
  from kw(2) have "sublist t (?item (k, w))"
  proof
    assume "s = k"
    then show ?thesis using sublist_inside [OF sublist_repr_str [OF assms], of "[]"] by simp
  next
    assume "s \<in> set (json_strings w)"
    then have "sublist t (py_repr w)" using 6(1) kw(1) by blast
    then show ?thesis using sublist_inside [of t "py_repr w" "repr_str k @ '': ''" "[]"] by simp
  qed
  moreover have "?item (k, w) \<in> set (map ?item kvs)" 
    unfolding set_map using kw(1) by (rule imageI)
  ultimately have "sublist t (py_join '', '' (map ?item kvs))" by (rule sublist_py_join)
  then show ?case unfolding py_repr.simps by (rule sublist_inside)
qed (use sublist_repr_str [OF assms] in simp_all)

end
