(* ===== verification/AiTools.thy ===== *)
theory AiTools
  imports Platform Py_Text
begin

text \<open>
  The tools an agent may call: the permission tiers of \<open>core/tool_permissions.py\<close> and the tool
  definitions of \<open>core/ai_tools.py\<close>. A function of a namespace is offered as
  \<open>service__function\<close>; the properties relate the offered names to what a call to them resolves to.
  The prose of the platform tools and of the system prompt is not modelled.
\<close>

section \<open>Permission tiers\<close>

datatype tool_tier = EXECUTE_ONLY | STANDARD | BUILDER | ADMIN

fun tool_tier_rank :: "tool_tier \<Rightarrow> nat" where
  "tool_tier_rank EXECUTE_ONLY = 0"
| "tool_tier_rank STANDARD = 1"
| "tool_tier_rank BUILDER = 2"
| "tool_tier_rank ADMIN = 3"

lemma tool_tier_rank_inj: "tool_tier_rank s = tool_tier_rank t \<Longrightarrow> s = t"
  by (cases s; cases t) auto

instantiation tool_tier :: linorder
begin
definition less_eq_tool_tier :: "tool_tier \<Rightarrow> tool_tier \<Rightarrow> bool" where
  "s \<le> t \<longleftrightarrow> tool_tier_rank s \<le> tool_tier_rank t"
definition less_tool_tier :: "tool_tier \<Rightarrow> tool_tier \<Rightarrow> bool" where
  "s < t \<longleftrightarrow> tool_tier_rank s < tool_tier_rank t"
instance
  by standard (auto simp: less_eq_tool_tier_def less_tool_tier_def dest: tool_tier_rank_inj)
end

text \<open>\<open>ToolTier(value)\<close>, which raises on an unknown value.\<close>

definition tool_tier_of :: "string \<Rightarrow> tool_tier res" where
  "tool_tier_of s =
     (if s = ''execute_only'' then Inr EXECUTE_ONLY else if s = ''standard'' then Inr STANDARD
      else if s = ''builder'' then Inr BUILDER else if s = ''admin'' then Inr ADMIN
      else Inl (ValueError ''ToolTier''))"

definition EXECUTE_ONLY_TOOLS :: "string list" where
  "EXECUTE_ONLY_TOOLS = [''execute'']"

definition STANDARD_TOOLS :: "string list" where
  "STANDARD_TOOLS = EXECUTE_ONLY_TOOLS @
     [''get_agent_state'', ''set_agent_state'', ''delete_agent_state'', ''list_agent_state_keys'',
      ''list_functions'', ''describe_function'', ''list_services'', ''list_namespaces'', ''list_agents'',
      ''describe_agent'', ''list_schedules'', ''list_webhooks'', ''list_packages'', ''list_templates'',
      ''describe_template'', ''chat_with_agent'', ''get_view_url'']"

definition BUILDER_TOOLS :: "string list" where
  "BUILDER_TOOLS = STANDARD_TOOLS @
     [''make_function'', ''update_function'', ''make_service'', ''make_namespace'', ''make_agent'',
      ''add_schedule'', ''add_webhook'', ''add_channel'', ''configure_agent_ai'', ''configure_mcp_servers'',
      ''configure_orchestration_limits'', ''configure_heartbeat'', ''lock_function'', ''unlock_function'',
      ''clone_agent'', ''publish_view'', ''clear_view'']"

definition ADMIN_TOOLS :: "string list" where
  "ADMIN_TOOLS = BUILDER_TOOLS @
     [''delete_function'', ''delete_service'', ''destroy_agent'', ''remove_agent_ai'', ''remove_schedule'',
      ''remove_webhook'', ''remove_channel'', ''start_agent'', ''stop_agent'']"

fun TIER_TOOLS :: "tool_tier \<Rightarrow> string list" where
  "TIER_TOOLS EXECUTE_ONLY = EXECUTE_ONLY_TOOLS"
| "TIER_TOOLS STANDARD = STANDARD_TOOLS"
| "TIER_TOOLS BUILDER = BUILDER_TOOLS"
| "TIER_TOOLS ADMIN = ADMIN_TOOLS"

definition CONFIRMATION_REQUIRED :: "string list" where
  "CONFIRMATION_REQUIRED = [''destroy_agent'', ''delete_service'']"

definition MANAGEMENT_RATE_LIMITS :: "(string \<times> (int \<times> int)) list" where
  "MANAGEMENT_RATE_LIMITS =
     [(''make_function'', (10, 60)), (''update_function'', (20, 60)), (''delete_function'', (5, 60)),
      (''destroy_agent'', (2, 3600)), (''delete_service'', (2, 3600)), (''configure_agent_ai'', (5, 3600))]"

definition is_tool_allowed :: "tool_tier \<Rightarrow> string \<Rightarrow> bool" where
  "is_tool_allowed tier tool_name = (py_in ''__'' tool_name \<or> tool_name \<in> set (TIER_TOOLS tier))"

definition requires_confirmation :: "string \<Rightarrow> bool" where
  "requires_confirmation tool_name = (tool_name \<in> set CONFIRMATION_REQUIRED)"

section \<open>Tool definitions\<close>

definition PLATFORM_TOOL_NAMES :: "string list" where
  "PLATFORM_TOOL_NAMES =
     [''send_to_channel'', ''get_state'', ''set_state'', ''list_state_keys'', ''search_state'', ''run_procedure'']"

definition PUBLIC_SAFE_PLATFORM_TOOLS :: "string list" where
  "PUBLIC_SAFE_PLATFORM_TOOLS = [''get_state'', ''send_to_channel'', ''list_state_keys'', ''search_state'']"

definition RESTRICTED_AGENT_TOOLS :: "string list" where
  "RESTRICTED_AGENT_TOOLS =
     [''make_function'', ''update_function'', ''delete_function'', ''make_service'', ''delete_service'',
      ''lock_function'', ''unlock_function'', ''make_procedure'', ''update_procedure'', ''delete_procedure'']"

text \<open>A tool built from a function, with description and input schema, or a platform tool.\<close>

datatype tool_def =
    FnTool (fn_tool_name: string) string json
  | PlatformTool string

fun tool_name :: "tool_def \<Rightarrow> string" where
  "tool_name (FnTool n _ _) = n"
| "tool_name (PlatformTool n) = n"

definition service_name_of :: "platform_db \<Rightarrow> function_row \<Rightarrow> string" where
  "service_name_of db f =
     (case find (\<lambda>s. svc_id s = fn_service_id f) (services db) of None \<Rightarrow> ''unknown'' | Some s \<Rightarrow> svc_name s)"

definition function_tool :: "platform_db \<Rightarrow> function_row \<times> version_row \<Rightarrow> tool_def" where
  "function_tool db fv =
     (case fv of (f, v) \<Rightarrow>
        FnTool (service_name_of db f @ ''__'' @ fn_name f)
          (case fn_description f of
             Some d \<Rightarrow> if d = [] then ''Execute '' @ service_name_of db f @ ''.'' @ fn_name f else d
           | None \<Rightarrow> ''Execute '' @ service_name_of db f @ ''.'' @ fn_name f)
          (case fv_input_schema v of
             Some j \<Rightarrow> if truthy j then j else JObj [(''type'', JStr ''object''), (''properties'', JObj [])]
           | None \<Rightarrow> JObj [(''type'', JStr ''object''), (''properties'', JObj [])]))"

definition build_tool_definitions :: "platform_db \<Rightarrow> nat \<Rightarrow> bool \<Rightarrow> bool \<Rightarrow> tool_def list" where
  "build_tool_definitions db namespace_id public_only agent_mode =
     filter (\<lambda>t. \<not> (agent_mode \<and> tool_name t \<in> set RESTRICTED_AGENT_TOOLS))
       (map (function_tool db)
         (filter (\<lambda>(f, v). \<not> public_only \<or> fn_public_safe f) (list_all_for_namespace db namespace_id)))
     @ map PlatformTool
         (if public_only then filter (\<lambda>n. n \<in> set PUBLIC_SAFE_PLATFORM_TOOLS) PLATFORM_TOOL_NAMES
          else filter (\<lambda>n. \<not> (agent_mode \<and> n \<in> set RESTRICTED_AGENT_TOOLS)) PLATFORM_TOOL_NAMES)"

definition is_mcp_tool :: "string \<Rightarrow> bool" where
  "is_mcp_tool name = py_startswith name ''mcp__''"

definition parse_tool_name :: "string \<Rightarrow> (string \<times> string) option" where
  "parse_tool_name name =
     (if name \<in> set PLATFORM_TOOL_NAMES then None
      else if is_mcp_tool name then None
      else if py_in ''__'' name then find_split ''__'' name
      else if py_in ''.'' name then find_split ''.'' name
      else None)"

definition format_available_tools :: "tool_def list \<Rightarrow> string" where
  "format_available_tools tools =
     (let names = map tool_name tools
      in if length names \<le> 15 then py_join '', '' names
         else py_join '', '' (take 15 names) @ '' (and '' @ nat_str (length names - 15) @ '' more)'')"

section \<open>Procedures and the functions they cover\<close>

record procedure_summary =
  ps_service :: string
  ps_name :: string
  ps_description :: string
  ps_step_count :: nat
  ps_covered :: "string list"

definition pversions_of :: "platform_db \<Rightarrow> nat \<Rightarrow> pversion_row list" where
  "pversions_of db pid = sort_key pv_version (filter (\<lambda>v. pv_procedure_id v = pid) (pversions db))"

definition proc_active_version_obj :: "platform_db \<Rightarrow> procedure_row \<Rightarrow> pversion_row option" where
  "proc_active_version_obj db p = find (\<lambda>v. pv_version v = pr_active_version p) (pversions_of db (pr_id p))"

text \<open>
  A step covers its function when it names one and its failure policy is \<open>required\<close>. Stored steps
  hold strings under both keys.
\<close>

definition covered_refs :: "json_dict list \<Rightarrow> string list" where
  "covered_refs steps =
     List.map_filter (\<lambda>s. case dict_get s ''function_ref'' (JStr []) of
         JStr r \<Rightarrow> if r \<noteq> [] \<and> dict_get s ''failure_policy'' (JStr ''required'') = JStr ''required''
                  then Some r else None
       | _ \<Rightarrow> None) steps"

definition get_procedure_summaries :: "platform_db \<Rightarrow> nat \<Rightarrow> procedure_summary list" where
  "get_procedure_summaries db namespace_id =
     List.map_filter (\<lambda>p. case find (\<lambda>s. svc_id s = pr_service_id p) (services db) of
         None \<Rightarrow> None
       | Some s \<Rightarrow>
           if pr_namespace_id p = namespace_id \<and> \<not> pr_is_deleted p
           then map_option (\<lambda>v. \<lparr>ps_service = svc_name s, ps_name = pr_name p,
                  ps_description = (case pr_description p of None \<Rightarrow> [] | Some d \<Rightarrow> d),
                  ps_step_count = length (pv_steps v), ps_covered = covered_refs (pv_steps v)\<rparr>)
                (proc_active_version_obj db p)
           else None) (procs db)"

definition build_covered_function_set :: "procedure_summary list \<Rightarrow> (string \<times> string) list" where
  "build_covered_function_set summaries =
     fold (\<lambda>ps d. fold (\<lambda>r. AList.update (py_replace ''.'' ''__'' r) (ps_service ps @ '' / '' @ ps_name ps))
                     (ps_covered ps) d) summaries []"

section \<open>Names of tools\<close>

lemma find_split_before: "find_split sep s = Some (a, b) \<Longrightarrow> sep \<noteq> [] \<Longrightarrow> \<not> sublist sep a"
proof (induction s arbitrary: a)
  case (Cons c cs)
  show ?case
  proof (cases "prefix sep (c # cs)")
    case False
    then obtain a' where a: "a = c # a'" "find_split sep cs = Some (a', b)" using Cons.prems(1) by auto
    have "\<not> prefix sep (c # a')"
    proof
      assume "prefix sep (c # a')"
      then have "prefix sep ((c # a') @ sep @ b)" by (rule prefix_prefix)
      then show False using False find_split_Some [OF a(2)] by simp
    qed
    then show ?thesis using a Cons.IH [OF a(2) Cons.prems(2)] by (simp add: sublist_Cons_right)
  qed (use Cons.prems in auto)
qed (auto split: if_splits)

lemma find_split_first:
  "sep \<noteq> [] \<Longrightarrow> \<not> sublist sep (a @ butlast sep) \<Longrightarrow> find_split sep (a @ sep @ b) = Some (a, b)"
proof (induction a)
  case Nil
  then show ?case using find_split_prefix by simp
next
  case (Cons c a)
  have "\<not> prefix sep ((c # a) @ sep @ b)"
  proof
    assume p: "prefix sep ((c # a) @ sep @ b)"
    have "butlast sep @ last sep # b = sep @ b"
      using append_butlast_last_id [OF Cons.prems(1)] by (metis append_Cons append_Nil append_assoc)
    with p have "prefix sep (((c # a) @ butlast sep) @ last sep # b)" by (metis append_assoc)
    moreover have "length sep \<le> length ((c # a) @ butlast sep)" using Cons.prems(1) by simp
    ultimately have "prefix sep ((c # a) @ butlast sep)" by (metis prefix_length_prefix prefixI)
    then show False using Cons.prems(2) prefix_imp_sublist by blast
  qed
  moreover have "\<not> sublist sep (a @ butlast sep)" using Cons.prems(2) by (auto simp: sublist_Cons_right)
  ultimately show ?case using Cons by simp
qed

lemma underscore_split:
  assumes "\<not> py_in ''__'' s" and "s \<noteq> []" and "last s \<noteq> CHR ''_''"
  shows "find_split ''__'' (s @ ''__'' @ t) = Some (s, t)"
proof (rule find_split_first)
  show "\<not> sublist ''__'' (s @ butlast ''__'')"
  proof
    assume "sublist ''__'' (s @ butlast ''__'')"
    then obtain u w where uw: "s @ ''_'' = u @ ''__'' @ w" by (auto simp: sublist_def)
    show False
    proof (cases w rule: rev_cases)
      case Nil
      then have "s = u @ ''_''" using uw by (metis append_assoc append_Cons append_Nil butlast_snoc append_Nil2)
      then show False using assms(3) by simp
    next
      case (snoc w' c)
      then have "s = u @ ''__'' @ w'" using uw by (metis append_assoc butlast_snoc)
      then show False using assms(1) by (auto simp: sublist_def)
    qed
  qed
qed simp

lemma slug_ends: "slug us s \<Longrightarrow> s \<noteq> [] \<and> last s \<noteq> CHR ''_''"
  by (auto simp: slug_def alnum_lower_def is_lower_az_def is_dig_def Let_def)
    
lemma platform_names_plain: "n \<in> set PLATFORM_TOOL_NAMES \<Longrightarrow> \<not> py_in ''__'' n"
proof -
  have "list_all (\<lambda>n. \<not> py_in ''__'' n) PLATFORM_TOOL_NAMES" by code_simp
  then show "n \<in> set PLATFORM_TOOL_NAMES \<Longrightarrow> \<not> py_in ''__'' n" by (simp add: list_all_iff)
qed

lemma sublist_middle: "sublist t (a @ t @ b)" by (rule sublist_appendI)

lemma tool_name_parses:
  assumes "slug True s" and "\<not> py_in ''__'' s" and "s \<noteq> ''mcp''"
  shows "parse_tool_name (s @ ''__'' @ f) = Some (s, f)"
proof -
  have u: "py_in ''__'' (s @ ''__'' @ f)" by (rule sublist_middle)
  have split: "find_split ''__'' (s @ ''__'' @ f) = Some (s, f)"
    using assms(2) slug_ends [OF assms(1)] by (intro underscore_split) auto
  have mcp: "find_split ''__'' (''mcp'' @ ''__'' @ r) = Some (''mcp'', r)" for r
    by (rule underscore_split) (simp_all add: sublist_code)
  have "\<not> is_mcp_tool (s @ ''__'' @ f)"
  proof
    assume "is_mcp_tool (s @ ''__'' @ f)"
    then obtain r where "s @ ''__'' @ f = ''mcp'' @ ''__'' @ r" by (auto simp: is_mcp_tool_def prefix_def)
    with split mcp [of r] assms(3) show False by simp
  qed
  moreover have "s @ ''__'' @ f \<notin> set PLATFORM_TOOL_NAMES" using u platform_names_plain by blast
  ultimately show ?thesis using u split by (simp add: parse_tool_name_def)
qed

text \<open>
  C26: A tool name made from a service and a function name parses back into the two, provided the
  service name is a valid one without a double underscore and is not \<open>mcp\<close>, whose tools belong to
  external servers.\<close>

theorem tool_name_round_trip:
  assumes "slug True s" and "\<not> py_in ''__'' s" and "s \<noteq> ''mcp''"
  shows "parse_tool_name (s @ ''__'' @ f) = Some (s, f)"
  using assms by (rule tool_name_parses)

theorem tool_name_round_trip_witness:
  "slug True ''my_tools'' \<and> parse_tool_name ''my_tools__send-mail'' = Some (''my_tools'', ''send-mail'')"
proof -
  have s: "slug True ''my_tools''" by code_simp
  have u: "\<not> py_in ''__'' ''my_tools''" by code_simp
  have "parse_tool_name (''my_tools'' @ ''__'' @ ''send-mail'') = Some (''my_tools'', ''send-mail'')"
    by (rule tool_name_round_trip [OF s u]) simp
  with s show ?thesis by simp
qed

text \<open>A service may be named \<open>mcp\<close>, or hold a double underscore; its tools do not parse back.\<close>

lemma unparsable_service_names:
  "slug True ''mcp'' \<and> parse_tool_name ''mcp__f'' = None"
  "slug True ''a__b'' \<and> parse_tool_name ''a__b__f'' = Some (''a'', ''b__f'')"
  by code_simp+

section \<open>Permissions\<close>

lemma platform_tool_refused:
  assumes "n \<in> set PLATFORM_TOOL_NAMES"
  shows "\<not> is_tool_allowed t n"
proof -
  have "list_all (\<lambda>n. n \<notin> set ADMIN_TOOLS) PLATFORM_TOOL_NAMES" by code_simp
  then have "n \<notin> set ADMIN_TOOLS" using assms by (simp add: list_all_iff)
  moreover have "set (TIER_TOOLS t) \<subseteq> set ADMIN_TOOLS"
    by (cases t) (auto simp: ADMIN_TOOLS_def BUILDER_TOOLS_def STANDARD_TOOLS_def)
  ultimately show ?thesis using platform_names_plain [OF assms] by (auto simp: is_tool_allowed_def)
qed

text \<open>
  C27: The permission tiers are ordered: what a tier may call, every higher tier may call; no tier may
  call a platform tool, since these are in no tier and carry no double underscore.\<close>

theorem tool_tiers_ordered:
  "(s \<le> t \<longrightarrow> is_tool_allowed s n \<longrightarrow> is_tool_allowed t n)
   \<and> (n \<in> set PLATFORM_TOOL_NAMES \<longrightarrow> \<not> is_tool_allowed t n)"
proof (intro conjI impI)
  show "is_tool_allowed t n" if "s \<le> t" "is_tool_allowed s n"
    using that by (cases s; cases t)
      (auto simp: is_tool_allowed_def less_eq_tool_tier_def ADMIN_TOOLS_def BUILDER_TOOLS_def STANDARD_TOOLS_def)
  show "\<not> is_tool_allowed t n" if "n \<in> set PLATFORM_TOOL_NAMES"
    using that by (rule platform_tool_refused)
qed

theorem tool_tiers_ordered_witness:
  "is_tool_allowed BUILDER ''list_agents'' \<and> \<not> is_tool_allowed ADMIN ''set_state''"
proof
  have "STANDARD \<le> BUILDER" "is_tool_allowed STANDARD ''list_agents''" by code_simp+
  then show "is_tool_allowed BUILDER ''list_agents''" using tool_tiers_ordered by blast
  have "''set_state'' \<in> set PLATFORM_TOOL_NAMES" by code_simp
  then show "\<not> is_tool_allowed ADMIN ''set_state''" using tool_tiers_ordered by blast
qed

section \<open>Offered tools\<close>

lemma list_all_for_namespace_mem:
  "(f, v) \<in> set (list_all_for_namespace db n) \<longleftrightarrow>
     f \<in> set (funcs db) \<and> fn_deleted_at f = None \<and> get_active_version_obj db f = Some v
     \<and> (\<exists>s\<in>set (services db). svc_id s = fn_service_id f \<and> svc_namespace_id s = n)"
  unfolding list_all_for_namespace_def in_map_filter list_ex_iff
  by (auto split: if_splits)

lemma service_name_of_eq:
  assumes "platform_inv db" and "s \<in> set (services db)" and "svc_id s = fn_service_id f"
  shows "service_name_of db f = svc_name s"
proof -
  obtain t where t: "find (\<lambda>s. svc_id s = fn_service_id f) (services db) = Some t"
    using find_exists [of s "services db" "\<lambda>s. svc_id s = fn_service_id f"] assms(2,3) by blast
  have d: "distinct (map svc_id (services db))" using assms(1) by (simp add: platform_inv_def svc_inv_def)
  have "t = s" using find_SomeD [OF t] assms(2,3) by (intro distinct_key_unique [OF d]) auto
  then show ?thesis using t by (simp add: service_name_of_def)
qed

lemma listed_callable:
  assumes "platform_inv db" and "(f, v) \<in> set (list_all_for_namespace db n)"
  shows "get_for_execution db n (service_name_of db f) (fn_name f) = Inr (f, v) \<and> slug True (service_name_of db f)"
proof -
  obtain s where f: "f \<in> set (funcs db)" "fn_deleted_at f = None" "get_active_version_obj db f = Some v"
    and s: "s \<in> set (services db)" "svc_id s = fn_service_id f" "svc_namespace_id s = n"
    using assms(2) unfolding list_all_for_namespace_mem by blast
  have n: "service_name_of db f = svc_name s" by (rule service_name_of_eq [OF assms(1) s(1,2)])
  have sl: "slug True (svc_name s)" "slug True (fn_name f)"
    using assms(1) s(1) f(1) by (auto simp: platform_inv_def svc_inv_def fn_inv_def list_all_iff)
  have c: "callable_as db n (svc_name s) (fn_name f) f"
    using f s sl by (auto simp: callable_as_def list_ex_iff py_lower_slug)
  have "\<exists>v'. get_for_execution db n (svc_name s) (fn_name f) = Inr (f, v') \<and> fn_get_active_version db (fn_id f) = Inr v'"
    by (rule get_for_execution_callable [OF assms(1) c])
  then obtain v' where v': "get_for_execution db n (svc_name s) (fn_name f) = Inr (f, v')" by blast
  then have "get_active_version_obj db f = Some v'"
    by (auto simp: get_for_execution_def split: option.splits)
  with f(3) v' sl(1) n show ?thesis by simp
qed

text \<open>
  C25: Every function tool offered to an agent is one of its functions, shown as it will run. The
  offered name is the name of the service, a double underscore and the name of the function; the
  lookup for execution under these two finds that function with its active version; the offered
  description is the one of the function (or a stock phrase when it has none) and the offered schema
  the input schema of that version (or that of an object without properties when it has none). Unless
  the service is named \<open>mcp\<close> or has a double underscore in its name, the offered name parses into the
  two; with \<open>public_only\<close> the function is marked public.\<close>

theorem offered_tools_resolve:
  assumes "platform_inv db" and "FnTool name d sch \<in> set (build_tool_definitions db n public_only agent_mode)"
  shows "\<exists>s f v. name = s @ ''__'' @ fn_name f \<and> get_for_execution db n s (fn_name f) = Inr (f, v)
           \<and> fv_function_id v = fn_id f \<and> fv_version v = fn_active_version f
           \<and> d = (case fn_description f of
                    None \<Rightarrow> ''Execute '' @ s @ ''.'' @ fn_name f
                  | Some t \<Rightarrow> if t = [] then ''Execute '' @ s @ ''.'' @ fn_name f else t)
           \<and> sch = (case fv_input_schema v of
                      None \<Rightarrow> JObj [(''type'', JStr ''object''), (''properties'', JObj [])]
                    | Some j \<Rightarrow> if truthy j then j else JObj [(''type'', JStr ''object''), (''properties'', JObj [])])
           \<and> (public_only \<longrightarrow> fn_public_safe f)
           \<and> (s = ''mcp'' \<or> py_in ''__'' s \<or> parse_tool_name name = Some (s, fn_name f))"
proof -
  obtain f v where fv: "(f, v) \<in> set (list_all_for_namespace db n)" "\<not> public_only \<or> fn_public_safe f"
    and t: "FnTool name d sch = function_tool db (f, v)"
    using assms(2) by (auto simp: build_tool_definitions_def)
  let ?s = "service_name_of db f"
  have name: "name = ?s @ ''__'' @ fn_name f" using t by (simp add: function_tool_def)
  have get: "get_for_execution db n ?s (fn_name f) = Inr (f, v)" and sl: "slug True ?s"
    using listed_callable [OF assms(1) fv(1)] by simp_all
  have "?s = ''mcp'' \<or> py_in ''__'' ?s \<or> parse_tool_name name = Some (?s, fn_name f)"
    unfolding name using tool_name_parses [OF sl] by blast
  moreover have "fv_function_id v = fn_id f \<and> fv_version v = fn_active_version f"
    using fv(1) by (auto simp: list_all_for_namespace_mem get_active_version_obj_def versions_of_def dest!: find_SomeD)
  ultimately show ?thesis using t name get fv(2) unfolding function_tool_def
    by (intro exI [of _ ?s] exI [of _ f] exI [of _ v]) simp
qed

theorem offered_tools_resolve_witness:
  "\<exists>s f v. ''tools__ping'' = s @ ''__'' @ fn_name f \<and> get_for_execution sample_db 9 s (fn_name f) = Inr (f, v)
     \<and> fv_version v = fn_active_version f"
proof -
  have "FnTool ''tools__ping'' ''Execute tools.ping'' (JObj [(''type'', JStr ''object''), (''properties'', JObj [])])
        \<in> set (build_tool_definitions sample_db 9 False True)" by code_simp
  from offered_tools_resolve [OF sample_platform_inv this] show ?thesis by blast
qed

end
