(* ===== verification/JsonPath.thy ===== *)
theory JsonPath
  imports Py_Text
begin

text \<open>
  The path expressions of procedure steps (\<open>services/jsonpath.py\<close>): \<open>scan_path\<close> is the left-to-right
  scan of the segment pattern, which \<open>findall\<close> and \<open>sub\<close> both make; \<open>resolve\<close> follows the segments
  through a value. An error is a \<open>jp_error\<close> in place of the message. An index is a natural number of
  any size; Python refuses to convert more than 4300 digits, which is left out.
\<close>

section \<open>Segments\<close>

datatype segment = SField string | SIndex nat | SJunk char

definition ident_start :: "char \<Rightarrow> bool" where
  "ident_start c = (is_lower_az c \<or> is_upper_az c \<or> c = CHR ''_'')"

definition ident_char :: "char \<Rightarrow> bool" where
  "ident_char c = (ident_start c \<or> is_dig c \<or> c = CHR ''-'')"

definition digits_nat :: "string \<Rightarrow> nat" where
  "digits_nat ds = foldl (\<lambda>n c. 10 * n + (of_char c - 48)) 0 ds"

function scan_path :: "string \<Rightarrow> segment list" where
  "scan_path [] = []"
| "scan_path (c # cs) =
     (if ident_start c then SField (c # takeWhile ident_char cs) # scan_path (dropWhile ident_char cs)
      else if c = CHR ''['' \<and> takeWhile is_dig cs \<noteq> [] \<and> py_startswith (dropWhile is_dig cs) '']''
      then SIndex (digits_nat (takeWhile is_dig cs)) # scan_path (tl (dropWhile is_dig cs))
      else SJunk c # scan_path cs)"
  by pat_completeness auto
termination
  by (relation "measure length")
    (auto simp: le_imp_less_Suc length_dropWhile_le intro: le_less_trans [OF diff_le_self])

fun is_junk :: "segment \<Rightarrow> bool" where
  "is_junk (SJunk _) = True"
| "is_junk _ = False"

fun junk_of :: "segment list \<Rightarrow> string" where
  "junk_of [] = []"
| "junk_of (SJunk c # ss) = c # junk_of ss"
| "junk_of (_ # ss) = junk_of ss"

section \<open>Resolution\<close>

datatype jp_error =
    BadStart
  | EmptyPath
  | NotDict string
  | NoKey string
  | NotList nat
  | OutOfRange nat nat

fun follow :: "segment list \<Rightarrow> json \<Rightarrow> jp_error + json" where
  "follow [] v = Inr v"
| "follow (SField f # ss) v =
     (case v of
        JObj d \<Rightarrow> (case map_of d f of None \<Rightarrow> Inl (NoKey f) | Some x \<Rightarrow> follow ss x)
      | _ \<Rightarrow> Inl (NotDict f))"
| "follow (SIndex i # ss) v =
     (case v of
        JArr xs \<Rightarrow> (if length xs \<le> i then Inl (OutOfRange i (length xs)) else follow ss (xs ! i))
      | _ \<Rightarrow> Inl (NotList i))"
| "follow (SJunk _ # ss) v = follow ss v"

definition resolve :: "string \<Rightarrow> jdict \<Rightarrow> jp_error + json" where
  "resolve expression context =
     (if \<not> py_startswith expression ''$.'' then Inl BadStart
      else if drop 2 expression = [] then Inl EmptyPath
      else follow (scan_path (drop 2 expression)) (JObj context))"

definition validate_expression :: "json \<Rightarrow> string option" where
  "validate_expression expression =
     (case expression of
        JStr e \<Rightarrow>
          if \<not> py_startswith e ''$.'' then Some ''start''
          else if drop 2 e = [] then Some ''empty''
          else if py_replace ''.'' [] (junk_of (scan_path (drop 2 e))) \<noteq> [] then Some ''characters''
          else None
      | _ \<Rightarrow> Some ''string'')"

text \<open>A mapping names an expression per parameter; a parameter whose expression fails is left out.\<close>

fun add_resolved :: "jdict \<Rightarrow> jdict \<times> (string \<times> jp_error) list \<Rightarrow> string \<times> string \<Rightarrow> jdict \<times> (string \<times> jp_error) list" where
  "add_resolved context (resolved, errors) (param, expression) =
     (case resolve expression context of
        Inl e \<Rightarrow> (resolved, errors @ [(param, e)])
      | Inr v \<Rightarrow> (AList.update param v resolved, errors))"

definition resolve_input_mapping :: "(string \<times> string) list \<Rightarrow> jdict \<Rightarrow> jdict \<times> (string \<times> jp_error) list" where
  "resolve_input_mapping mapping context = foldl (add_resolved context) ([], []) mapping"

definition apply_output_mapping :: "(string \<times> string) list \<Rightarrow> json \<Rightarrow> jdict \<times> (string \<times> jp_error) list" where
  "apply_output_mapping mapping result =
     (case result of
        JObj d \<Rightarrow> foldl (add_resolved d) ([], []) mapping
      | _ \<Rightarrow> ([], [([], NotDict [])]))"

section \<open>Printing\<close>

text \<open>The notation of the module's documentation: fields joined by dots, indices in brackets.\<close>

datatype path_step = Key string | At nat

definition ident :: "string \<Rightarrow> bool" where
  "ident s = (case s of [] \<Rightarrow> False | c # cs \<Rightarrow> ident_start c \<and> list_all ident_char cs)"

fun step_ok :: "path_step \<Rightarrow> bool" where
  "step_ok (Key k) = ident k"
| "step_ok (At _) = True"

fun show_step :: "path_step \<Rightarrow> string" where
  "show_step (Key k) = CHR ''.'' # k"
| "show_step (At i) = CHR ''['' # nat_str i @ '']''"

text \<open>The dot in front of the first key belongs to the leading \<open>$.\<close>\<close>

definition show_path :: "string \<Rightarrow> path_step list \<Rightarrow> string" where
  "show_path k ps = ''$.'' @ k @ concat (map show_step ps)"

text \<open>What a path means, independently of its notation.\<close>

fun get_in :: "path_step list \<Rightarrow> json \<Rightarrow> json option" where
  "get_in [] v = Some v"
| "get_in (Key k # ps) (JObj d) = Option.bind (map_of d k) (get_in ps)"
| "get_in (At i # ps) (JArr xs) = (if i < length xs then get_in ps (xs ! i) else None)"
| "get_in _ _ = None"

section \<open>Digits\<close>

lemma digit_char_code: "n < 10 \<Longrightarrow> of_char (digit_char n) = 48 + n"
  by (simp add: digit_char_def of_char_of)

lemma digits_nat_snoc: "digits_nat (ds @ [c]) = 10 * digits_nat ds + (of_char c - 48)"
  by (simp add: digits_nat_def)

lemma nat_str_digits: "nat_str n \<noteq> [] \<and> list_all is_dig (nat_str n) \<and> digits_nat (nat_str n) = n"
proof (induction n rule: nat_str.induct)
  case (1 n)
  show ?case
  proof (cases "n < 10")
    case True
    then have "nat_str n = [digit_char n]" by (simp add: nat_str.simps)
    then show ?thesis using digit_char_code [OF True] True by (simp add: is_dig_def digits_nat_def)
  next
    case False
    then have e: "nat_str n = nat_str (n div 10) @ [digit_char (n mod 10)]" by (subst nat_str.simps) simp
    have m: "of_char (digit_char (n mod 10)) = 48 + n mod 10" by (rule digit_char_code) simp
    show ?thesis unfolding e using "1.IH" [OF False] m by (simp add: digits_nat_snoc is_dig_def)
  qed
qed

lemma takeWhile_stop: "list_all P xs \<Longrightarrow> ys = [] \<or> \<not> P (hd ys) \<Longrightarrow> takeWhile P (xs @ ys) = xs"
  by (cases ys) (auto simp: takeWhile_append2 list_all_iff)

lemma dropWhile_stop: "list_all P xs \<Longrightarrow> ys = [] \<or> \<not> P (hd ys) \<Longrightarrow> dropWhile P (xs @ ys) = ys"
  by (cases ys) (auto simp: dropWhile_append2 list_all_iff)

lemma ident_punct [simp]:
  "\<not> ident_start (CHR ''.'')" "\<not> ident_start (CHR ''['')" "\<not> ident_char (CHR ''.'')" "\<not> ident_char (CHR ''['')"
  "\<not> is_dig (CHR '']'')"
  by (simp_all add: ident_start_def ident_char_def is_lower_az_def is_upper_az_def is_dig_def)


section \<open>The scan of a printed path\<close>

definition boundary :: "string \<Rightarrow> bool" where
  "boundary s = (s = [] \<or> hd s = CHR ''.'' \<or> hd s = CHR ''['')"

lemma boundary_shown: "boundary (concat (map show_step ps))"
proof (cases ps)
  case (Cons p qs)
  then show ?thesis by (cases p) (simp_all add: boundary_def)
qed (simp add: boundary_def)

lemma scan_ident:
  assumes "ident k" and "boundary s"
  shows "scan_path (k @ s) = SField k # scan_path s"
proof -
  obtain c cs where k: "k = c # cs" "ident_start c" "list_all ident_char cs"
    using assms(1) by (auto simp: ident_def split: list.splits)
  have "s = [] \<or> \<not> ident_char (hd s)" using assms(2) by (auto simp: boundary_def)
  then show ?thesis using k by (simp add: takeWhile_stop dropWhile_stop)
qed

lemma scan_dot: "scan_path (CHR ''.'' # s) = SJunk (CHR ''.'') # scan_path s"
  by simp

lemma scan_index: "scan_path (CHR ''['' # nat_str i @ '']'' @ s) = SIndex i # scan_path s"
proof -
  have d: "list_all is_dig (nat_str i)" "nat_str i \<noteq> []" "digits_nat (nat_str i) = i"
    using nat_str_digits by blast+
  have "takeWhile is_dig (nat_str i @ '']'' @ s) = nat_str i" "dropWhile is_dig (nat_str i @ '']'' @ s) = '']'' @ s"
    using d(1) by (simp_all add: takeWhile_stop dropWhile_stop)
  then show ?thesis using d(2,3) by simp
qed

fun step_segments :: "path_step \<Rightarrow> segment list" where
  "step_segments (Key k) = [SJunk (CHR ''.''), SField k]"
| "step_segments (At i) = [SIndex i]"

lemma scan_shown: "list_all step_ok ps \<Longrightarrow> scan_path (concat (map show_step ps)) = concat (map step_segments ps)"
proof (induction ps)
  case (Cons p ps)
  show ?case
  proof (cases p)
    case (Key k)
    then show ?thesis using Cons scan_ident [OF _ boundary_shown, of k ps] by (simp add: scan_dot)
  next
    case (At i)
    then show ?thesis using Cons scan_index [of i "concat (map show_step ps)"] by simp
  qed
qed simp

lemma follow_segments: "follow (concat (map step_segments ps)) v = Inr w \<longleftrightarrow> get_in ps v = Some w"
proof (induction ps arbitrary: v)
  case (Cons p ps)
  show ?case by (cases p; cases v) (auto simp: Cons.IH split: option.splits)
qed simp

lemma junk_segments: "set (junk_of (concat (map step_segments ps))) \<subseteq> {CHR ''.''}"
proof (induction ps)
  case (Cons p ps)
  then show ?case by (cases p) auto
qed simp

lemma py_replace_all: "set s \<subseteq> {c} \<Longrightarrow> py_replace [c] [] s = []"
proof -
  have "py_join [] (py_split [c] s) = []" if "set s \<subseteq> {c}" for s
    using that
  proof (induction s)
    case (Cons d s)
    then show ?case by (subst py_split.simps) (auto simp: py_join_Cons)
  qed (subst py_split.simps, simp)
  then show "set s \<subseteq> {c} \<Longrightarrow> py_replace [c] [] s = []" by (simp add: py_replace_def)
qed

text \<open>
  C30: Printing a path and resolving it is looking the path up: for a path of keys that are identifiers
  and of indices, the printed expression is valid, and it resolves to a value exactly when following
  the keys and indices through the context reaches that value.\<close>

theorem path_round_trip:
  assumes "ident k" and "list_all step_ok ps"
  shows "validate_expression (JStr (show_path k ps)) = None
    \<and> (resolve (show_path k ps) ctx = Inr v \<longleftrightarrow> get_in (Key k # ps) (JObj ctx) = Some v)"
proof -
  have sc: "scan_path (k @ concat (map show_step ps)) = SField k # concat (map step_segments ps)"
    using scan_ident [OF assms(1) boundary_shown] scan_shown [OF assms(2)] by simp
  have ne: "k \<noteq> []" using assms(1) by (auto simp: ident_def)
  show ?thesis using ne
    by (auto simp: validate_expression_def resolve_def show_path_def sc follow_segments
        py_replace_all [OF junk_segments] split: option.splits)
qed

theorem path_round_trip_witness:
  "show_path ''items'' [At 1, Key ''x''] = ''$.items[1].x''
   \<and> resolve ''$.items[1].x'' [(''items'', JArr [JNull, JObj [(''x'', JInt 7)]])] = Inr (JInt 7)"
proof -
  have e: "show_path ''items'' [At 1, Key ''x''] = ''$.items[1].x''" "ident ''items''" "list_all step_ok [At 1, Key ''x'']"
    "get_in [Key ''items'', At 1, Key ''x''] (JObj [(''items'', JArr [JNull, JObj [(''x'', JInt 7)]])]) = Some (JInt 7)"
    by code_simp+
  show ?thesis using path_round_trip [OF e(2,3)] e(4) unfolding e(1) [symmetric] by blast
qed

lemma dots_only_valid: "validate_expression (JStr ''$...'') = None \<and> resolve ''$...'' ctx = Inr (JObj ctx)"
proof
  show "validate_expression (JStr ''$...'') = None" by code_simp
  have "scan_path ''..'' = [SJunk CHR ''.'', SJunk CHR ''.'']" by code_simp
  then show "resolve ''$...'' ctx = Inr (JObj ctx)" by (simp add: resolve_def)
qed

end
