(* ===== verification/Procedures.thy ===== *)
theory Procedures
  imports AiTools JsonPath
begin

text \<open>
  The procedure service (\<open>services/procedure_service.py\<close>) with the validators of
  \<open>models/procedure.py\<close>: one definition per method, the invariant \<open>proc_inv\<close> of the three tables of
  procedures, and the machine that joins its requests with those of the other services on the
  same database. A step is a dict, as the callers pass it. Rows are listed by creation time, which is
  the order of the table.
\<close>

section \<open>Steps\<close>

definition FAILURE_POLICIES :: "string list" where
  "FAILURE_POLICIES = [''required'', ''allowed'', ''skip'']"

definition PROCEDURE_EXECUTION_STATUSES :: "string list" where
  "PROCEDURE_EXECUTION_STATUSES = [''running'', ''completed'', ''failed'']"

definition MIN_STEPS :: nat where "MIN_STEPS = 1"

definition MAX_STEPS :: nat where "MAX_STEPS = 20"

definition MAX_RETRIES :: int where "MAX_RETRIES = 5"

definition item :: "json_dict \<Rightarrow> string \<Rightarrow> json res" where
  "item d k = (case map_of d k of None \<Rightarrow> Inl (KeyError k) | Some v \<Rightarrow> Inr v)"

definition step_function ::
  "platform_db \<Rightarrow> nat \<Rightarrow> string \<Rightarrow> string \<Rightarrow> function_row option res" where
  "step_function db namespace_id svc fn =
     one_or_none (\<lambda>f. list_ex (\<lambda>s. svc_id s = fn_service_id f \<and> svc_namespace_id s = namespace_id
                               \<and> svc_name s = svc) (services db)
                   \<and> fn_name f = py_lower fn \<and> fn_deleted_at f = None) (funcs db)"

definition check_function_ref :: "platform_db \<Rightarrow> nat \<Rightarrow> json_dict \<Rightarrow> unit res" where
  "check_function_ref db namespace_id step =
     res_bind (item step ''function_ref'')
     (\<lambda>ref. case ref of
        JStr r \<Rightarrow> (case find_split ''.'' r of
                    None \<Rightarrow> Inl (ValueError ''function_ref'')
                  | Some (svc, fn) \<Rightarrow>
                      res_bind (step_function db namespace_id svc fn)
                      (\<lambda>x. case x of None \<Rightarrow> Inl (NotFoundError ''function'') | Some _ \<Rightarrow> Inr ()))
      | _ \<Rightarrow> Inl (TypeError ''function_ref''))"

fun check_function_refs :: "platform_db \<Rightarrow> nat \<Rightarrow> json_dict list \<Rightarrow> unit res" where
  "check_function_refs db n [] = Inr ()"
| "check_function_refs db n (s # ss) =
     res_bind (check_function_ref db n s) (\<lambda>_. check_function_refs db n ss)"

text \<open>The expressions of an input mapping may refer to the steps before, by name.\<close>

definition refers_ahead :: "json list \<Rightarrow> json \<Rightarrow> bool" where
  "refers_ahead names expr =
     (case expr of
        JStr e \<Rightarrow> py_startswith e ''$.steps.'' \<and> JStr (py_split ''.'' e ! 2) \<notin> set names
      | _ \<Rightarrow> False)"

fun check_input_mapping :: "json list \<Rightarrow> json_dict \<Rightarrow> unit res" where
  "check_input_mapping names [] = Inr ()"
| "check_input_mapping names ((param, expr) # m) =
     (case validate_expression expr of
        Some e \<Rightarrow> Inl (ValueError e)
      | None \<Rightarrow> if refers_ahead names expr then Inl (ValueError ''step order'') else check_input_mapping names m)"

fun check_output_mapping :: "json_dict \<Rightarrow> unit res" where
  "check_output_mapping [] = Inr ()"
| "check_output_mapping ((var, expr) # m) =
     (case validate_expression expr of Some e \<Rightarrow> Inl (ValueError e) | None \<Rightarrow> check_output_mapping m)"

fun dict_items :: "json \<Rightarrow> json_dict" where
  "dict_items (JObj d) = d"
| "dict_items _ = []"

definition optional_item :: "string \<Rightarrow> json \<Rightarrow> json_dict" where
  "optional_item k v = (if truthy v then [(k, v)] else [])"

definition normal_form :: "int \<Rightarrow> json \<Rightarrow> json \<Rightarrow> json \<Rightarrow> json_dict \<Rightarrow> json_dict" where
  "normal_form i nm ref ins step =
     [(''step_number'', JInt i), (''name'', nm), (''function_ref'', ref), (''instructions'', ins),
      (''failure_policy'', dict_get step ''failure_policy'' (JStr ''required'')),
      (''max_retries'', dict_get step ''max_retries'' (JInt 1)),
      (''validation'', dict_get step ''validation'' JNull)]
     @ optional_item ''input_mapping'' (dict_get step ''input_mapping'' JNull)
     @ optional_item ''output_mapping'' (dict_get step ''output_mapping'' JNull)"

definition normalize_step :: "int \<Rightarrow> json list \<Rightarrow> json_dict \<Rightarrow> json_dict res" where
  "normalize_step i names step =
     res_bind (check_input_mapping names (dict_items (dict_get step ''input_mapping'' JNull))) (\<lambda>_.
     res_bind (check_output_mapping (dict_items (dict_get step ''output_mapping'' JNull))) (\<lambda>_.
     res_bind (item step ''name'') (\<lambda>nm.
     res_bind (item step ''function_ref'') (\<lambda>ref.
     res_bind (item step ''instructions'') (\<lambda>ins. Inr (normal_form i nm ref ins step))))))"

fun normalize_steps :: "int \<Rightarrow> json list \<Rightarrow> json_dict list \<Rightarrow> json_dict list res" where
  "normalize_steps i names [] = Inr []"
| "normalize_steps i names (s # ss) =
     res_bind (normalize_step i names s) (\<lambda>n.
     res_bind (normalize_steps (i + 1) (names @ [dict_get s ''name'' JNull]) ss) (\<lambda>ns. Inr (n # ns)))"

text \<open>\<open>ProcedureVersion.validate_steps\<close>, one step and the list.\<close>

definition validate_step :: "json_dict \<Rightarrow> unit res" where
  "validate_step step =
     (if \<not> dict_has step ''function_ref'' then Inl (ValueError ''function_ref'')
      else if \<not> dict_has step ''name'' then Inl (ValueError ''name'')
      else if \<not> dict_has step ''instructions'' then Inl (ValueError ''instructions'')
      else if dict_get step ''failure_policy'' (JStr ''required'') \<notin> JStr ` set FAILURE_POLICIES
      then Inl (ValueError ''failure_policy'')
      else case as_int (dict_get step ''max_retries'' (JInt 1)) of
             None \<Rightarrow> Inl (ValueError ''max_retries'')
           | Some r \<Rightarrow> if r < 0 \<or> MAX_RETRIES < r then Inl (ValueError ''max_retries'') else Inr ())"

fun validate_each :: "json_dict list \<Rightarrow> unit res" where
  "validate_each [] = Inr ()"
| "validate_each (s # ss) = res_bind (validate_step s) (\<lambda>_. validate_each ss)"

definition validate_steps :: "json_dict list \<Rightarrow> json_dict list res" where
  "validate_steps steps =
     (if length steps < MIN_STEPS \<or> MAX_STEPS < length steps then Inl (ValueError ''steps'')
      else res_bind (validate_each steps) (\<lambda>_. Inr steps))"

definition new_pversion ::
  "nat \<Rightarrow> nat \<Rightarrow> int \<Rightarrow> json_dict list \<Rightarrow> string option \<Rightarrow> pversion_row res" where
  "new_pversion vid pid n steps created_by =
     res_bind (validate_steps steps)
     (\<lambda>ss. if (case created_by of None \<Rightarrow> False | Some c \<Rightarrow> 255 < length c) then Inl DBAPIError
           else Inr \<lparr>pv_id = vid, pv_procedure_id = pid, pv_version = n, pv_steps = ss,
                     pv_created_by = created_by\<rparr>)"

section \<open>Operations\<close>

definition proc_service :: "platform_db \<Rightarrow> nat \<Rightarrow> string \<Rightarrow> service_row res" where
  "proc_service db namespace_id service_name =
     fetch (NotFoundError ''Service'') (\<lambda>s. svc_namespace_id s = namespace_id \<and> svc_name s = service_name)
       (services db)"

definition live_proc :: "nat \<Rightarrow> string \<Rightarrow> procedure_row \<Rightarrow> bool" where
  "live_proc sid name p \<longleftrightarrow> pr_service_id p = sid \<and> pr_name p = name \<and> \<not> pr_is_deleted p"

definition create_procedure ::
  "platform_db \<Rightarrow> nat \<Rightarrow> string \<Rightarrow> string \<Rightarrow> json_dict list \<Rightarrow> string option \<Rightarrow> string option
   \<Rightarrow> (platform_db \<times> procedure_row) res" where
  "create_procedure db namespace_id service_name name steps description created_by =
     res_bind (proc_service db namespace_id service_name) (\<lambda>s.
     res_bind (one_or_none (live_proc (svc_id s) name) (procs db)) (\<lambda>existing.
     if existing \<noteq> None then Inl (ConflictError ''Procedure'')
     else res_bind (check_function_refs db namespace_id steps) (\<lambda>_.
     res_bind (normalize_steps 1 [] steps) (\<lambda>ns.
     let pid = next_id db;
         p = \<lparr>pr_id = pid, pr_namespace_id = namespace_id, pr_service_id = svc_id s, pr_name = name,
              pr_description = description, pr_active_version = 1, pr_is_deleted = False\<rparr>
     in if 255 < length name then Inl DBAPIError
        else res_bind (new_pversion (Suc pid) pid 1 ns created_by) (\<lambda>v.
          Inr (db\<lparr>procs := procs db @ [p], pversions := pversions db @ [v], next_id := Suc (Suc pid)\<rparr>, p))))))"

definition get_procedure :: "platform_db \<Rightarrow> nat \<Rightarrow> string \<Rightarrow> string \<Rightarrow> procedure_row res" where
  "get_procedure db namespace_id service_name name =
     res_bind (proc_service db namespace_id service_name) (\<lambda>s.
       fetch (NotFoundError ''Procedure'') (live_proc (svc_id s) name) (procs db))"

definition list_procedures :: "platform_db \<Rightarrow> nat \<Rightarrow> string \<Rightarrow> procedure_row list res" where
  "list_procedures db namespace_id service_name =
     res_bind (proc_service db namespace_id service_name) (\<lambda>s.
       Inr (rev (filter (\<lambda>p. pr_service_id p = svc_id s \<and> \<not> pr_is_deleted p) (procs db))))"

definition has_pversion :: "platform_db \<Rightarrow> nat \<Rightarrow> int \<Rightarrow> bool" where
  "has_pversion db pid n = list_ex (\<lambda>v. pv_procedure_id v = pid \<and> pv_version v = n) (pversions db)"

definition describe_row :: "string option \<Rightarrow> procedure_row \<Rightarrow> procedure_row" where
  "describe_row d p = (if d = None then p else p\<lparr>pr_description := d\<rparr>)"

definition update_procedure ::
  "platform_db \<Rightarrow> nat \<Rightarrow> string \<Rightarrow> string \<Rightarrow> json_dict list option \<Rightarrow> string option \<Rightarrow> string option
   \<Rightarrow> (platform_db \<times> procedure_row) res" where
  "update_procedure db namespace_id service_name name steps description created_by =
     res_bind (get_procedure db namespace_id service_name name) (\<lambda>p.
     case steps of
       None \<Rightarrow> Inr (db\<lparr>procs := update_row pr_id (pr_id p) (describe_row description) (procs db)\<rparr>,
                    describe_row description p)
     | Some ss \<Rightarrow>
         res_bind (normalize_steps 1 [] ss) (\<lambda>ns.
         let n = pr_active_version p + 1;
             g = (\<lambda>p. (describe_row description p)\<lparr>pr_active_version := n\<rparr>)
         in res_bind (new_pversion (next_id db) (pr_id p) n ns created_by) (\<lambda>v.
            if has_pversion db (pr_id p) n then Inl IntegrityError
            else Inr (db\<lparr>procs := update_row pr_id (pr_id p) g (procs db), pversions := pversions db @ [v],
                         next_id := Suc (next_id db)\<rparr>, g p))))"

definition delete_procedure :: "platform_db \<Rightarrow> nat \<Rightarrow> string \<Rightarrow> string \<Rightarrow> platform_db res" where
  "delete_procedure db namespace_id service_name name =
     res_bind (get_procedure db namespace_id service_name name) (\<lambda>p.
       Inr (db\<lparr>procs := update_row pr_id (pr_id p) (\<lambda>p. p\<lparr>pr_is_deleted := True\<rparr>) (procs db)\<rparr>))"

definition create_execution ::
  "platform_db \<Rightarrow> procedure_row \<Rightarrow> string \<Rightarrow> nat option \<Rightarrow> json option \<Rightarrow> (platform_db \<times> pexec_row) res" where
  "create_execution db p trigger_type agent_id input_context =
     (let e = \<lparr>pe_id = next_id db, pe_procedure_id = pr_id p, pe_procedure_version = pr_active_version p,
               pe_agent_id = agent_id, pe_trigger_type = trigger_type, pe_status = ''running'',
               pe_current_step = 1, pe_step_results = [], pe_input_context = input_context,
               pe_completed_at = None, pe_error = None\<rparr>
      in if 20 < length trigger_type then Inl DBAPIError
         else if pr_id p \<notin> set (map pr_id (procs db)) then Inl IntegrityError
         else Inr (db\<lparr>pexecs := pexecs db @ [e], next_id := Suc (next_id db)\<rparr>, e))"

definition get_execution :: "platform_db \<Rightarrow> nat \<Rightarrow> pexec_row res" where
  "get_execution db execution_id =
     fetch (NotFoundError ''Procedure execution'') (\<lambda>e. pe_id e = execution_id) (pexecs db)"

definition list_executions :: "platform_db \<Rightarrow> nat \<Rightarrow> string option \<Rightarrow> int \<Rightarrow> pexec_row list res" where
  "list_executions db procedure_id status limit =
     (let rows = filter (\<lambda>e. pe_procedure_id e = procedure_id
                   \<and> (case status of None \<Rightarrow> True | Some t \<Rightarrow> t = [] \<or> pe_status e = t)) (pexecs db)
      in if limit < 0 then Inl DBAPIError else Inr (take (nat limit) (rev rows)))"

text \<open>\<open>update_execution(execution, **kwargs)\<close>: one assignment per keyword; the status is validated.\<close>

datatype exec_set =
    SetStatus string
  | SetCurrentStep int
  | SetStepResults "json list"
  | SetCompletedAt int
  | SetError string

fun set_exec :: "pexec_row \<Rightarrow> exec_set \<Rightarrow> pexec_row res" where
  "set_exec e (SetStatus s) =
     (if s \<notin> set PROCEDURE_EXECUTION_STATUSES then Inl (ValueError ''status'') else Inr (e\<lparr>pe_status := s\<rparr>))"
| "set_exec e (SetCurrentStep n) = Inr (e\<lparr>pe_current_step := n\<rparr>)"
| "set_exec e (SetStepResults rs) = Inr (e\<lparr>pe_step_results := rs\<rparr>)"
| "set_exec e (SetCompletedAt t) = Inr (e\<lparr>pe_completed_at := Some t\<rparr>)"
| "set_exec e (SetError m) = Inr (e\<lparr>pe_error := Some m\<rparr>)"

definition update_execution :: "platform_db \<Rightarrow> pexec_row \<Rightarrow> exec_set list \<Rightarrow> platform_db res" where
  "update_execution db e kwargs =
     res_bind (foldM set_exec e kwargs) (\<lambda>e'.
       Inr (db\<lparr>pexecs := update_row pe_id (pe_id e) (\<lambda>_. e') (pexecs db)\<rparr>))"


section \<open>The invariant of the procedure tables\<close>

fun refs_backwards :: "json list \<Rightarrow> json_dict list \<Rightarrow> bool" where
  "refs_backwards names [] = True"
| "refs_backwards names (s # ss) =
     (list_all (\<lambda>(k, e). validate_expression e = None \<and> \<not> refers_ahead names e)
        (dict_items (dict_get s ''input_mapping'' JNull))
      \<and> refs_backwards (names @ [dict_get s ''name'' JNull]) ss)"

definition steps_ok :: "json_dict list \<Rightarrow> bool" where
  "steps_ok ss \<longleftrightarrow>
     MIN_STEPS \<le> length ss \<and> length ss \<le> MAX_STEPS
     \<and> list_all (\<lambda>s. validate_step s = Inr ()) ss
     \<and> map (\<lambda>s. map_of s ''step_number'') ss = map (\<lambda>i. Some (JInt i)) [1..int (length ss)]
     \<and> refs_backwards [] ss"

definition proc_inv :: "platform_db \<Rightarrow> bool" where
  "proc_inv db \<longleftrightarrow>
     distinct (map pr_id (procs db))
     \<and> distinct (map (\<lambda>p. (pr_service_id p, pr_name p)) (filter (\<lambda>p. \<not> pr_is_deleted p) (procs db)))
     \<and> list_all (\<lambda>p. pr_id p < next_id db \<and> pr_service_id p \<in> set (map svc_id (services db))
                    \<and> map pv_version (filter (\<lambda>v. pv_procedure_id v = pr_id p) (pversions db))
                      = [1..pr_active_version p] \<and> 1 \<le> pr_active_version p) (procs db)
     \<and> list_all (\<lambda>v. pv_procedure_id v \<in> set (map pr_id (procs db)) \<and> steps_ok (pv_steps v)) (pversions db)
     \<and> distinct (map pe_id (pexecs db))
     \<and> list_all (\<lambda>e. pe_id e < next_id db \<and> pe_procedure_id e \<in> set (map pr_id (procs db))
                    \<and> pe_status e \<in> set PROCEDURE_EXECUTION_STATUSES) (pexecs db)"

subsection \<open>Normalised steps\<close>

lemma check_input_mapping_ok:
  "check_input_mapping names m = Inr () \<longleftrightarrow>
     list_all (\<lambda>(k, e). validate_expression e = None \<and> \<not> refers_ahead names e) m"
  by (induction names m rule: check_input_mapping.induct) (auto split: option.splits)

lemma normalize_step_Inr:
  "normalize_step i names s = Inr n \<longleftrightarrow>
     check_input_mapping names (dict_items (dict_get s ''input_mapping'' JNull)) = Inr ()
     \<and> check_output_mapping (dict_items (dict_get s ''output_mapping'' JNull)) = Inr ()
     \<and> (\<exists>nm ref ins. item s ''name'' = Inr nm \<and> item s ''function_ref'' = Inr ref \<and> item s ''instructions'' = Inr ins
          \<and> n = normal_form i nm ref ins s)"
  unfolding normalize_step_def by auto

lemma item_Inr: "item d k = Inr v \<longleftrightarrow> map_of d k = Some v"
  by (simp add: item_def split: option.splits)

lemma falsy_items: "\<not> truthy v \<Longrightarrow> dict_items v = []"
  by (cases v) auto

lemma normal_form_gets:
  "map_of (normal_form i nm ref ins s) ''step_number'' = Some (JInt i)"
  "map_of (normal_form i nm ref ins s) ''name'' = Some nm"
  "map_of (normal_form i nm ref ins s) ''function_ref'' = Some ref"
  by (simp_all add: normal_form_def)

lemma normal_form_mapping:
  "dict_items (dict_get (normal_form i nm ref ins s) ''input_mapping'' JNull)
   = dict_items (dict_get s ''input_mapping'' JNull)"
  by (simp add: normal_form_def optional_item_def dict_get_def falsy_items)

lemma normalize_step_gets:
  assumes "normalize_step i names s = Inr n"
  shows "map_of n ''step_number'' = Some (JInt i)" and "dict_get n ''name'' JNull = dict_get s ''name'' JNull"
    and "map_of n ''function_ref'' = map_of s ''function_ref''"
    and "dict_items (dict_get n ''input_mapping'' JNull) = dict_items (dict_get s ''input_mapping'' JNull)"
    and "list_all (\<lambda>(k, e). validate_expression e = None \<and> \<not> refers_ahead names e)
           (dict_items (dict_get s ''input_mapping'' JNull))"
proof -
  obtain nm ref ins where *: "map_of s ''name'' = Some nm" "map_of s ''function_ref'' = Some ref"
    "n = normal_form i nm ref ins s"
    "check_input_mapping names (dict_items (dict_get s ''input_mapping'' JNull)) = Inr ()"
    using assms unfolding normalize_step_Inr item_Inr by blast
  show "map_of n ''step_number'' = Some (JInt i)" "map_of n ''function_ref'' = map_of s ''function_ref''"
    "dict_get n ''name'' JNull = dict_get s ''name'' JNull"
    unfolding *(3) using *(1,2) by (simp_all add: normal_form_gets dict_get_def)
  show "dict_items (dict_get n ''input_mapping'' JNull) = dict_items (dict_get s ''input_mapping'' JNull)"
    unfolding *(3) by (rule normal_form_mapping)
  show "list_all (\<lambda>(k, e). validate_expression e = None \<and> \<not> refers_ahead names e)
           (dict_items (dict_get s ''input_mapping'' JNull))"
    using *(4) unfolding check_input_mapping_ok .
qed

lemma normalize_steps_ok:
  "normalize_steps i names ss = Inr ns \<Longrightarrow>
     length ns = length ss
     \<and> map (\<lambda>s. map_of s ''step_number'') ns = map (\<lambda>j. Some (JInt j)) [i..i + int (length ss) - 1]
     \<and> map (\<lambda>s. map_of s ''function_ref'') ns = map (\<lambda>s. map_of s ''function_ref'') ss
     \<and> refs_backwards names ns"
proof (induction i names ss arbitrary: ns rule: normalize_steps.induct)
  case (2 i names s ss)
  then obtain n ns' where n: "normalize_step i names s = Inr n" "ns = n # ns'"
    "normalize_steps (i + 1) (names @ [dict_get s ''name'' JNull]) ss = Inr ns'" by auto
  have "[i..i + int (length (s # ss)) - 1] = i # [i + 1..i + 1 + int (length ss) - 1]"
    by (subst upto.simps) simp
  then show ?case using "2.IH" [OF n(3)] n normalize_step_gets [OF n(1)] by simp
qed simp

lemma validate_each_ok: "validate_each ss = Inr () \<longleftrightarrow> list_all (\<lambda>s. validate_step s = Inr ()) ss"
  by (induction ss) auto

lemma new_pversion_ok:
  assumes "normalize_steps 1 [] ss = Inr ns" and "new_pversion vid pid n ns c = Inr v"
  shows "pv_id v = vid \<and> pv_procedure_id v = pid \<and> pv_version v = n \<and> pv_steps v = ns \<and> steps_ok ns"
  using assms normalize_steps_ok [OF assms(1)]
  by (auto simp: new_pversion_def validate_steps_def steps_ok_def validate_each_ok split: if_splits)


subsection \<open>Preservation\<close>

lemma proc_service_Inr: "proc_service db n svc = Inr s \<Longrightarrow> s \<in> set (services db) \<and> svc_namespace_id s = n \<and> svc_name s = svc"
  unfolding proc_service_def by (drule fetch_Inr) simp

lemma get_procedure_Inr:
  "get_procedure db n svc name = Inr p \<Longrightarrow>
     p \<in> set (procs db) \<and> pr_name p = name \<and> \<not> pr_is_deleted p
     \<and> (\<exists>s. proc_service db n svc = Inr s \<and> pr_service_id p = svc_id s)"
  unfolding get_procedure_def by (auto simp: live_proc_def dest!: fetch_Inr)

lemma proc_inv_frame:
  assumes "proc_inv db" and "procs db' = procs db" and "pversions db' = pversions db" and "pexecs db' = pexecs db"
    and "next_id db \<le> next_id db'" and "svc_id ` set (services db) \<subseteq> svc_id ` set (services db')"
  shows "proc_inv db'"
  using assms unfolding proc_inv_def by (fastforce simp: list_all_iff)

lemma distinct_map_filter_update:
  assumes "\<And>r. g (f r) = g r" and "\<And>r. P (f r) \<Longrightarrow> P r" and "distinct (map g (filter P rows))"
  shows "distinct (map g (filter P (update_row rid i f rows)))"
  using assms(3)
proof (induction rows)
  case (Cons r rows)
  have keep: "g (if rid q = i then f q else q) = g q" "P (if rid q = i then f q else q) \<Longrightarrow> P q" for q
    using assms(1) [of q] assms(2) [of q] by (simp_all split: if_splits)
  have "g x \<in> g ` set (filter P rows)" if x: "x \<in> set (filter P (update_row rid i f rows))" for x
  proof -
    obtain q where q: "q \<in> set rows" "x = (if rid q = i then f q else q)" "P x"
      using x unfolding set_filter in_update_row by blast
    have "q \<in> set (filter P rows)" "g x = g q" using q keep [of q] by simp_all
    then show ?thesis by (metis imageI)
  qed
  then have "g r \<in> g ` set (filter P (update_row rid i f rows)) \<Longrightarrow> g r \<in> g ` set (filter P rows)"
    by (elim imageE) (simp only:)
  moreover have "update_row rid i f (r # rows) = (if rid r = i then f r else r) # update_row rid i f rows"
    by (simp add: update_row_def)
  moreover have "distinct (map g (filter P rows))" using Cons.prems by (simp split: if_splits)
  ultimately show ?case using Cons keep [of r] 
    by (cases "P (if rid r = i then f r else r)")
      (simp_all only: filter.simps list.map distinct.simps set_map if_True if_False simp_thms, blast?)
qed (simp add: update_row_def)

lemma proc_inv_rows:
  assumes "proc_inv db"
    and "\<And>p. pr_id (g p) = pr_id p \<and> pr_service_id (g p) = pr_service_id p \<and> pr_name (g p) = pr_name p
           \<and> pr_active_version (g p) = pr_active_version p \<and> (pr_is_deleted p \<longrightarrow> pr_is_deleted (g p))"
  shows "proc_inv (db\<lparr>procs := update_row pr_id i g (procs db)\<rparr>)"
proof -
  have "distinct (map (\<lambda>p. (pr_service_id p, pr_name p)) (filter (\<lambda>p. \<not> pr_is_deleted p) (update_row pr_id i g (procs db))))"
    using assms by (intro distinct_map_filter_update) (auto simp: proc_inv_def)
  then show ?thesis using assms unfolding proc_inv_def
    by (auto simp: map_update_row list_all_iff in_update_row)
qed

lemma version_numbers_fresh:
  assumes "proc_inv db" and "p \<in> set (procs db)"
  shows "\<not> has_pversion db (pr_id p) (pr_active_version p + 1)"
proof -
  have "pr_active_version p + 1 \<notin> set (map pv_version (filter (\<lambda>v. pv_procedure_id v = pr_id p) (pversions db)))"
    using assms by (auto simp: proc_inv_def list_all_iff)
  then show ?thesis unfolding has_pversion_def list_ex_iff set_map set_filter by (metis (mono_tags, lifting) imageI mem_Collect_eq)
qed

lemma proc_inv_publish:
  assumes inv: "proc_inv db" and p: "p \<in> set (procs db)" and v: "pv_procedure_id v = pr_id p"
    "pv_version v = pr_active_version p + 1" "steps_ok (pv_steps v)"
    and g: "\<And>p. pr_id (g p) = pr_id p \<and> pr_service_id (g p) = pr_service_id p \<and> pr_name (g p) = pr_name p
           \<and> (pr_is_deleted p \<longrightarrow> pr_is_deleted (g p))"
    and act: "\<And>q. pr_active_version (g q) = pr_active_version p + 1"
  shows "proc_inv (db\<lparr>procs := update_row pr_id (pr_id p) g (procs db), pversions := pversions db @ [v],
                     next_id := Suc (next_id db)\<rparr>)" (is "proc_inv ?db")
proof -
  have ids: "map pr_id (procs ?db) = map pr_id (procs db)" using g by (simp add: map_update_row)
  have num: "map pv_version (filter (\<lambda>v. pv_procedure_id v = pr_id p) (pversions db)) = [1..pr_active_version p]"
    "1 \<le> pr_active_version p" using inv p by (simp_all add: proc_inv_def list_all_iff)
  have rows: "pr_id q < Suc (next_id db) \<and> pr_service_id q \<in> set (map svc_id (services db))
      \<and> map pv_version (filter (\<lambda>v. pv_procedure_id v = pr_id q) (pversions db @ [v])) = [1..pr_active_version q]
      \<and> 1 \<le> pr_active_version q" if q: "q \<in> set (procs ?db)" for q
  proof -
    obtain r where r: "r \<in> set (procs db)" "q = (if pr_id r = pr_id p then g r else r)"
      using q by (auto simp: in_update_row)
    have old: "pr_id r < next_id db" "pr_service_id r \<in> set (map svc_id (services db))"
      "map pv_version (filter (\<lambda>v. pv_procedure_id v = pr_id r) (pversions db)) = [1..pr_active_version r]"
      "1 \<le> pr_active_version r" using inv r(1) by (simp_all add: proc_inv_def list_all_iff)
    show ?thesis
    proof (cases "pr_id r = pr_id p")
      case True
      have "[1..pr_active_version p + 1] = [1..pr_active_version p] @ [pr_active_version p + 1]"
        using num(2) by (simp add: upto_rec2)
      then show ?thesis using True old r(2) g [of r] act [of r] v num by simp
    qed (use old r(2) v in simp)
  qed
  have "distinct (map (\<lambda>p. (pr_service_id p, pr_name p)) (filter (\<lambda>p. \<not> pr_is_deleted p) (procs ?db)))"
    using inv g by (simp, intro distinct_map_filter_update) (auto simp: proc_inv_def)
  moreover have "pr_id p \<in> set (map pr_id (procs db))" using p by simp
  ultimately show ?thesis using inv v rows ids unfolding proc_inv_def list_all_iff
    by (simp add: less_Suc_eq)
qed

lemma proc_inv_new:
  assumes "proc_inv db" and "pr_id p = next_id db" and "pr_service_id p \<in> set (map svc_id (services db))"
    and "pr_active_version p = 1" and "pv_procedure_id v = next_id db" and "pv_version v = 1"
    and "steps_ok (pv_steps v)" and "one_or_none (live_proc (pr_service_id p) (pr_name p)) (procs db) = Inr None"
  shows "proc_inv (db\<lparr>procs := procs db @ [p], pversions := pversions db @ [v], next_id := Suc (Suc (next_id db))\<rparr>)"
proof -
  have old: "pr_id q < next_id db" if "q \<in> set (procs db)" for q
    using assms(1) that by (auto simp: proc_inv_def list_all_iff)
  have none: "filter (\<lambda>v. pv_procedure_id v = next_id db) (pversions db) = []"
    using assms(1) old by (fastforce simp: proc_inv_def list_all_iff filter_empty_conv)
  have free: "\<not> (pr_service_id q = pr_service_id p \<and> pr_name q = pr_name p \<and> \<not> pr_is_deleted q)" if "q \<in> set (procs db)" for q
    using assms(8) that unfolding one_or_none_None live_proc_def by blast
  have "(pr_service_id p, pr_name p) \<notin> (\<lambda>p. (pr_service_id p, pr_name p)) ` {q \<in> set (procs db). \<not> pr_is_deleted q}"
    using free by auto
  moreover have "next_id db \<notin> pr_id ` set (procs db)" using old by fastforce
  moreover have "next_id db \<noteq> pr_id q" if "q \<in> set (procs db)" for q using old [OF that] by simp
  ultimately show ?thesis using assms(1-7) none unfolding proc_inv_def list_all_iff
    by (simp add: less_Suc_eq)
qed


section \<open>Requests\<close>

datatype proc_op =
    PCreate nat string string "json_dict list" "string option" "string option"
  | PUpdate nat string string "json_dict list option" "string option" "string option"
  | PDelete nat string string
  | PExecute nat string string string "nat option" "json option"
  | PSetExecution nat "exec_set list"

fun proc_exec :: "proc_op \<Rightarrow> platform_db \<Rightarrow> platform_db res" where
  "proc_exec (PCreate n svc name ss d c) db = res_bind (create_procedure db n svc name ss d c) (Inr \<circ> fst)"
| "proc_exec (PUpdate n svc name ss d c) db = res_bind (update_procedure db n svc name ss d c) (Inr \<circ> fst)"
| "proc_exec (PDelete n svc name) db = delete_procedure db n svc name"
| "proc_exec (PExecute n svc name t a ctx) db =
     res_bind (get_procedure db n svc name) (\<lambda>p. res_bind (create_execution db p t a ctx) (Inr \<circ> fst))"
| "proc_exec (PSetExecution i kw) db = res_bind (get_execution db i) (\<lambda>e. update_execution db e kw)"

lemma set_exec_keeps:
  assumes "foldM set_exec e kw = Inr e'"
  shows "pe_id e' = pe_id e \<and> pe_procedure_id e' = pe_procedure_id e
    \<and> (pe_status e \<in> set PROCEDURE_EXECUTION_STATUSES \<longrightarrow> pe_status e' \<in> set PROCEDURE_EXECUTION_STATUSES)"
proof (rule foldM_invariant [OF _ _ assms])
  fix x kw y assume "pe_id x = pe_id e \<and> pe_procedure_id x = pe_procedure_id e
    \<and> (pe_status e \<in> set PROCEDURE_EXECUTION_STATUSES \<longrightarrow> pe_status x \<in> set PROCEDURE_EXECUTION_STATUSES)"
    "set_exec x kw = Inr y"
  then show "pe_id y = pe_id e \<and> pe_procedure_id y = pe_procedure_id e
    \<and> (pe_status e \<in> set PROCEDURE_EXECUTION_STATUSES \<longrightarrow> pe_status y \<in> set PROCEDURE_EXECUTION_STATUSES)"
    by (cases kw) (auto split: if_splits)
qed simp

lemma proc_inv_set_execution:
  assumes "proc_inv db" and "get_execution db i = Inr e" and "update_execution db e kw = Inr db'"
  shows "proc_inv db'"
proof -
  obtain e' where e': "foldM set_exec e kw = Inr e'"
    and db': "db' = db\<lparr>pexecs := update_row pe_id (pe_id e) (\<lambda>_. e') (pexecs db)\<rparr>"
    using assms(3) by (auto simp: update_execution_def)
  have e: "e \<in> set (pexecs db)" using assms(2) unfolding get_execution_def by (drule_tac fetch_Inr) simp
  then have "pe_id e < next_id db \<and> pe_procedure_id e \<in> set (map pr_id (procs db))
      \<and> pe_status e \<in> set PROCEDURE_EXECUTION_STATUSES"
    using assms(1) by (simp add: proc_inv_def list_all_iff)
  then show ?thesis using assms(1) set_exec_keeps [OF e'] unfolding db' proc_inv_def list_all_iff
    by (auto simp: in_update_row)
qed

lemma create_procedure_Inr:
  assumes "create_procedure db n svc name ss d c = Inr (db', p)"
  shows "\<exists>s ns v. proc_service db n svc = Inr s \<and> one_or_none (live_proc (svc_id s) name) (procs db) = Inr None
    \<and> check_function_refs db n ss = Inr () \<and> normalize_steps 1 [] ss = Inr ns
    \<and> new_pversion (Suc (next_id db)) (next_id db) 1 ns c = Inr v
    \<and> p = \<lparr>pr_id = next_id db, pr_namespace_id = n, pr_service_id = svc_id s, pr_name = name,
          pr_description = d, pr_active_version = 1, pr_is_deleted = False\<rparr>
    \<and> db' = db\<lparr>procs := procs db @ [p], pversions := pversions db @ [v], next_id := Suc (Suc (next_id db))\<rparr>"
  using assms by (auto simp: create_procedure_def Let_def split: if_splits)

lemma update_procedure_Inr:
  assumes "update_procedure db n svc name (Some ss) d c = Inr (db', q)"
  shows "\<exists>p ns v. get_procedure db n svc name = Inr p \<and> normalize_steps 1 [] ss = Inr ns
    \<and> new_pversion (next_id db) (pr_id p) (pr_active_version p + 1) ns c = Inr v
    \<and> q = (describe_row d p)\<lparr>pr_active_version := pr_active_version p + 1\<rparr>
    \<and> db' = db\<lparr>procs := update_row pr_id (pr_id p)
                   (\<lambda>r. (describe_row d r)\<lparr>pr_active_version := pr_active_version p + 1\<rparr>) (procs db),
              pversions := pversions db @ [v], next_id := Suc (next_id db)\<rparr>"
  using assms by (auto simp: update_procedure_def Let_def split: if_splits)

lemma describe_row_simps [simp]:
  "pr_id (describe_row d p) = pr_id p" "pr_service_id (describe_row d p) = pr_service_id p"
  "pr_name (describe_row d p) = pr_name p" "pr_is_deleted (describe_row d p) = pr_is_deleted p"
  "pr_active_version (describe_row d p) = pr_active_version p"
  by (simp_all add: describe_row_def)

lemma proc_inv_create:
  assumes "proc_inv db" and "create_procedure db n svc name ss d c = Inr (db', p)"
  shows "proc_inv db'"
proof -
  obtain s ns v where *: "proc_service db n svc = Inr s" "one_or_none (live_proc (svc_id s) name) (procs db) = Inr None"
    "normalize_steps 1 [] ss = Inr ns" "new_pversion (Suc (next_id db)) (next_id db) 1 ns c = Inr v"
    "p = \<lparr>pr_id = next_id db, pr_namespace_id = n, pr_service_id = svc_id s, pr_name = name,
          pr_description = d, pr_active_version = 1, pr_is_deleted = False\<rparr>"
    "db' = db\<lparr>procs := procs db @ [p], pversions := pversions db @ [v], next_id := Suc (Suc (next_id db))\<rparr>"
    using create_procedure_Inr [OF assms(2)] by blast
  show ?thesis unfolding *(6)
    by (rule proc_inv_new [OF assms(1)])
      (use * new_pversion_ok [OF *(3,4)] proc_service_Inr [OF *(1)] in simp_all)
qed

lemma proc_inv_update:
  assumes "proc_inv db" and "update_procedure db n svc name ss d c = Inr (db', q)"
  shows "proc_inv db'"
proof (cases ss)
  case None
  then obtain p :: procedure_row where "db' = db\<lparr>procs := update_row pr_id (pr_id p) (describe_row d) (procs db)\<rparr>"
    using assms(2) unfolding update_procedure_def res_bind_Inr None option.case sum.inject prod.inject by blast
  then show ?thesis using assms(1) by (simp add: proc_inv_rows)
next
  case (Some steps)
  obtain p ns v where *: "get_procedure db n svc name = Inr p" "normalize_steps 1 [] steps = Inr ns"
    "new_pversion (next_id db) (pr_id p) (pr_active_version p + 1) ns c = Inr v"
    "db' = db\<lparr>procs := update_row pr_id (pr_id p)
                (\<lambda>r. (describe_row d r)\<lparr>pr_active_version := pr_active_version p + 1\<rparr>) (procs db),
              pversions := pversions db @ [v], next_id := Suc (next_id db)\<rparr>"
    using update_procedure_Inr [OF assms(2) [unfolded Some]] by blast
  show ?thesis unfolding *(4)
    by (rule proc_inv_publish [OF assms(1)])
      (use new_pversion_ok [OF *(2,3)] get_procedure_Inr [OF *(1)] in simp_all)
qed

lemma create_execution_Inr:
  "create_execution db p t a ctx = Inr (db', e) \<Longrightarrow>
     db' = db\<lparr>pexecs := pexecs db @ [e], next_id := Suc (next_id db)\<rparr> \<and> pe_id e = next_id db
     \<and> pe_procedure_id e = pr_id p \<and> pe_procedure_version e = pr_active_version p
     \<and> pe_status e = ''running'' \<and> pe_step_results e = []"
  by (auto simp: create_execution_def Let_def split: if_splits)

lemma proc_inv_exec:
  assumes "proc_inv db" and "proc_exec r db = Inr db'"
  shows "proc_inv db'"
proof (cases r)
  case (PExecute n svc name t a ctx)
  then obtain p e where p: "get_procedure db n svc name = Inr p" and ce: "create_execution db p t a ctx = Inr (db', e)"
    using assms(2) by auto
  have db': "db' = db\<lparr>pexecs := pexecs db @ [e], next_id := Suc (next_id db)\<rparr>"
    and e: "pe_id e = next_id db" "pe_procedure_id e = pr_id p" "pe_status e = ''running''"
    using create_execution_Inr [OF ce] by simp_all
  have "''running'' \<in> set PROCEDURE_EXECUTION_STATUSES" by code_simp
  moreover have "next_id db \<notin> pe_id ` set (pexecs db)"
    using assms(1) by (auto simp: proc_inv_def list_all_iff)
  ultimately show ?thesis using assms(1) e get_procedure_Inr [OF p] unfolding db' proc_inv_def list_all_iff
    by (simp add: less_Suc_eq)
next
  case (PDelete n svc name)
  then obtain p :: procedure_row where "db' = db\<lparr>procs := update_row pr_id (pr_id p) (\<lambda>p. p\<lparr>pr_is_deleted := True\<rparr>) (procs db)\<rparr>"
    using assms(2) unfolding PDelete proc_exec.simps delete_procedure_def res_bind_Inr sum.inject by blast
  then show ?thesis using assms(1) by (simp add: proc_inv_rows)
next
  case (PCreate n svc name ss d c)
  then show ?thesis using assms proc_inv_create by auto
next
  case (PUpdate n svc name ss d c)
  then show ?thesis using assms proc_inv_update by auto
next
  case (PSetExecution i kw)
  then show ?thesis using assms proc_inv_set_execution by auto
qed


section \<open>All requests on the database\<close>

datatype ws_op = WPlatform platform_op | WProc proc_op

fun ws_exec :: "ws_op \<Rightarrow> platform_db \<Rightarrow> platform_db res" where
  "ws_exec (WPlatform r) db = platform_exec r db"
| "ws_exec (WProc r) db = proc_exec r db"

definition ws_request :: "platform_db \<Rightarrow> ws_op \<Rightarrow> platform_db" where
  "ws_request db r = (case ws_exec r db of Inl _ \<Rightarrow> db | Inr db' \<Rightarrow> db')"

definition ws_inv :: "platform_db \<Rightarrow> bool" where
  "ws_inv db \<longleftrightarrow> platform_inv db \<and> proc_inv db"

fun deletes_service :: "ws_op \<Rightarrow> bool" where
  "deletes_service (WPlatform (OSvcDelete i)) = True"
| "deletes_service _ = False"

lemma proc_exec_frame:
  assumes "proc_exec r db = Inr db'"
  shows "users db' = users db \<and> accounts db' = accounts db \<and> namespaces db' = namespaces db
    \<and> services db' = services db \<and> shares db' = shares db \<and> funcs db' = funcs db
    \<and> fversions db' = fversions db \<and> next_id db \<le> next_id db' \<and> (\<exists>vs. pversions db' = pversions db @ vs)"
proof (cases r)
  case (PCreate n svc name ss d c)
  then obtain p where "create_procedure db n svc name ss d c = Inr (db', p)" using assms by auto
  from create_procedure_Inr [OF this] show ?thesis by auto
next
  case (PUpdate n svc name ss d c)
  then obtain q where q: "update_procedure db n svc name ss d c = Inr (db', q)" using assms by auto
  show ?thesis
  proof (cases ss)
    case None
    then show ?thesis using q by (auto simp: update_procedure_def)
  next
    case (Some steps)
    from update_procedure_Inr [OF q [unfolded Some]] show ?thesis by auto
  qed
next
  case (PExecute n svc name t a ctx)
  then obtain p e where "create_execution db p t a ctx = Inr (db', e)" using assms by auto
  from create_execution_Inr [OF this] show ?thesis by auto
qed (use assms in \<open>auto simp: delete_procedure_def update_execution_def\<close>)

lemma platform_exec_procs:
  assumes "platform_exec r db = Inr db'" and "\<not> deletes_service (WPlatform r)"
  shows "procs db' = procs db \<and> pversions db' = pversions db \<and> pexecs db' = pexecs db \<and> next_id db \<le> next_id db'
    \<and> svc_id ` set (services db) \<subseteq> svc_id ` set (services db')"
proof (cases r)
  case (OFn f)
  have "fn_exec f db = Inr db' \<Longrightarrow> procs db' = procs db \<and> pversions db' = pversions db \<and> pexecs db' = pexecs db"
    by (induction f db rule: fn_exec.induct)
      (auto simp: fn_create_def fn_update_def fn_create_version_def fn_set_active_version_def fn_delete_def
         lock_function_def unlock_function_def Let_def split: if_splits option.splits)
  then show ?thesis using OFn assms(1) fn_exec_frame by auto
next
  case (OSvcUpdate i d)
  then obtain g where "services db' = update_row svc_id i g (services db)" "\<And>s. svc_id (g s) = svc_id s"
    "procs db' = procs db" "pversions db' = pversions db" "pexecs db' = pexecs db" "next_id db' = next_id db"
    using assms(1) by (auto simp: svc_update_def Let_def split: if_splits)
  moreover have "set (map svc_id (update_row svc_id i g (services db))) = set (map svc_id (services db))"
    using calculation(2) by (simp only: map_update_row)
  ultimately show ?thesis by simp
next
  case (OInvite n e ps u)
  then show ?thesis using assms(1)
    by (auto simp: create_invite_def grant_share_def reopen_share_def Let_def split: if_splits option.splits)
qed (use assms in \<open>auto simp: ns_create_def ns_update_def ns_delete_def svc_create_def share_accept_def
       share_decline_def share_revoke_def Let_def split: if_splits option.splits\<close>)


lemma svc_cascade_procs:
  "procs (svc_cascade i db) = filter (\<lambda>p. pr_service_id p \<noteq> i) (procs db)"
  "pversions (svc_cascade i db) = filter (\<lambda>v. pv_procedure_id v \<notin> pr_id ` {p \<in> set (procs db). pr_service_id p = i}) (pversions db)"
  "pexecs (svc_cascade i db) = filter (\<lambda>e. pe_procedure_id e \<notin> pr_id ` {p \<in> set (procs db). pr_service_id p = i}) (pexecs db)"
  by (simp_all add: svc_cascade_def Let_def)

lemma proc_inv_cascade:
  assumes inv: "proc_inv db"
  shows "proc_inv (svc_cascade i db)"
proof -
  let ?gone = "pr_id ` {p \<in> set (procs db). pr_service_id p = i}"
  have d: "distinct (map pr_id (procs db))" using inv by (simp add: proc_inv_def)
  have kept: "pr_id p \<notin> ?gone" if p: "p \<in> set (procs db)" "pr_service_id p \<noteq> i" for p
  proof
    assume "pr_id p \<in> ?gone"
    then obtain q where q: "q \<in> set (procs db)" "pr_service_id q = i" "pr_id p = pr_id q" by auto
    have "p = q" by (rule distinct_key_unique [OF d p(1) q(1) q(3)])
    then show False using p(2) q(2) by simp
  qed
  have left: "x \<in> pr_id ` {p \<in> set (procs db). pr_service_id p \<noteq> i}"
    if "x \<in> pr_id ` set (procs db)" "x \<notin> ?gone" for x
    using that by auto
  have rows: "pr_id p < next_id db \<and> pr_service_id p \<in> svc_id ` {s \<in> set (services db). svc_id s \<noteq> i}
      \<and> map pv_version (filter (\<lambda>v. pv_procedure_id v \<notin> ?gone \<and> pv_procedure_id v = pr_id p) (pversions db))
        = [1..pr_active_version p] \<and> 1 \<le> pr_active_version p"
    if p: "p \<in> set (procs db)" "pr_service_id p \<noteq> i" for p
  proof -
    have "filter (\<lambda>v. pv_procedure_id v \<notin> ?gone \<and> pv_procedure_id v = pr_id p) (pversions db)
        = filter (\<lambda>v. pv_procedure_id v = pr_id p) (pversions db)"
      using kept [OF p] by (intro filter_cong [OF refl]) metis
    then show ?thesis using inv p unfolding proc_inv_def list_all_iff by auto
  qed
  have dd: "distinct (map (\<lambda>p. (pr_service_id p, pr_name p)) (filter (\<lambda>p. pr_service_id p \<noteq> i \<and> \<not> pr_is_deleted p) (procs db)))"
  proof -
    have "distinct (map (\<lambda>p. (pr_service_id p, pr_name p)) (filter (\<lambda>p. \<not> pr_is_deleted p) (procs db)))"
      using inv by (simp add: proc_inv_def)
    from distinct_map_filter [OF this, of "\<lambda>p. pr_service_id p \<noteq> i"] show ?thesis
      unfolding filter_filter by (simp only: conj_commute)
  qed
  show ?thesis using inv rows dd left d unfolding proc_inv_def list_all_iff
    by (simp add: svc_cascade_procs distinct_map_filter conj_commute)
qed

lemma ws_inv_exec:
  assumes "ws_inv db" and "ws_exec r db = Inr db'"
  shows "ws_inv db'"
proof (cases r)
  case (WPlatform o')
  then have e: "platform_exec o' db = Inr db'" using assms(2) by simp
  have p: "platform_inv db'" using assms(1) by (intro platform_inv_exec [OF _ e]) (simp add: ws_inv_def)
  have "proc_inv db'"
  proof (cases "deletes_service (WPlatform o')")
    case True
    then obtain i where "o' = OSvcDelete i" by (cases o') auto
    then have "db' = svc_cascade i db" using e by (auto simp: svc_delete_def)
    then show ?thesis using assms(1) by (simp add: ws_inv_def proc_inv_cascade)
  next
    case False
    note f = platform_exec_procs [OF e False]
    show ?thesis by (rule proc_inv_frame [of db]) (use assms(1) f in \<open>simp_all add: ws_inv_def\<close>)
  qed
  with p show ?thesis by (simp add: ws_inv_def)
next
  case (WProc o')
  then have e: "proc_exec o' db = Inr db'" using assms(2) by simp
  note f = proc_exec_frame [OF e]
  have pl: "ns_inv db" "svc_inv db" "shr_inv db" "fn_inv db" using assms(1) by (simp_all add: ws_inv_def platform_inv_def)
  have "ns_inv db'" by (rule ns_inv_frame [OF pl(1)]) (use f in simp_all)
  moreover have "svc_inv db'" by (rule svc_inv_frame [OF pl(2)]) (use f in simp_all)
  moreover have "shr_inv db'" by (rule shr_inv_frame [OF pl(3)]) (use f in simp_all)
  moreover have "fn_inv db'" by (rule fn_inv_frame [OF pl(4)]) (use f in simp_all)
  moreover have "proc_inv db'" using assms(1) by (intro proc_inv_exec [OF _ e]) (simp add: ws_inv_def)
  ultimately show ?thesis using assms(1) f by (simp add: ws_inv_def platform_inv_def)
qed

interpretation workspace: request_machine ws_request ws_inv "\<lambda>_. True"
  by unfold_locales (auto simp: ws_request_def intro: ws_inv_exec split: sum.splits)

definition pversion_at :: "platform_db \<Rightarrow> nat \<times> int \<Rightarrow> pversion_row option" where
  "pversion_at db k = find (\<lambda>v. pv_procedure_id v = fst k \<and> pv_version v = snd k) (pversions db)"

lemma find_append_Some: "find P xs = Some x \<Longrightarrow> find P (xs @ ys) = Some x"
  by (induction xs) (auto split: if_splits)

lemma ws_exec_pversions:
  assumes "ws_exec r db = Inr db'" and "\<not> deletes_service r"
  shows "\<exists>vs. pversions db' = pversions db @ vs"
proof (cases r)
  case (WPlatform o')
  then have "pversions db' = pversions db" using platform_exec_procs [of o' db db'] assms by simp
  then show ?thesis by simp
next
  case (WProc o')
  then show ?thesis using proc_exec_frame [of o' db db'] assms(1) by simp
qed

interpretation proc_store: version_history ws_request ws_inv "\<lambda>r. \<not> deletes_service r" pversion_at
proof
  fix db r k v
  show "ws_inv (ws_request db r)" if "ws_inv db" for db
    using that by (auto simp: ws_request_def intro: ws_inv_exec split: sum.splits)
  show "pversion_at (ws_request db r) k = Some v" if adm: "\<not> deletes_service r" "pversion_at db k = Some v"
  proof (cases "ws_exec r db")
    case (Inl e)
    then show ?thesis using adm(2) by (simp add: ws_request_def)
  next
    case (Inr db')
    obtain vs where "pversions db' = pversions db @ vs" using ws_exec_pversions [OF Inr adm(1)] by blast
    then show ?thesis using adm(2) Inr by (simp add: ws_request_def pversion_at_def find_append_Some)
  qed
qed

section \<open>Properties of the procedure service\<close>

lemma proc_service_iff:
  assumes "platform_inv db"
  shows "proc_service db n svc = Inr s \<longleftrightarrow> s \<in> set (services db) \<and> svc_namespace_id s = n \<and> svc_name s = svc"
proof -
  have d: "distinct (map (\<lambda>s. (svc_namespace_id s, svc_name s)) (services db))"
    using assms by (simp add: platform_inv_def svc_inv_def)
  show ?thesis unfolding proc_service_def
    by (subst fetch_mem [OF d, where k = "(n, svc)"]) simp_all
qed

lemma one_live_proc:
  assumes "proc_inv db" and "p \<in> set (procs db)" and "live_proc sid name p"
  shows "fetch e (live_proc sid name) (procs db) = Inr p"
proof -
  have d: "distinct (map (\<lambda>p. (pr_service_id p, pr_name p)) (filter (\<lambda>p. \<not> pr_is_deleted p) (procs db)))"
    using assms(1) by (simp add: proc_inv_def)
  have "one_or_none (live_proc sid name) (procs db)
      = one_or_none (live_proc sid name) (filter (\<lambda>p. \<not> pr_is_deleted p) (procs db))"
    unfolding one_or_none_def filter_filter by (rule arg_cong [of _ _ "\<lambda>xs. case scalar_one_or_none xs of None \<Rightarrow> Inl MultipleResultsFound | Some r \<Rightarrow> Inr r"])
      (auto simp: live_proc_def intro: filter_cong)
  also have "\<dots> = Inr (Some p)"
    by (rule one_or_none_mem [OF d, where k = "(sid, name)"]) (use assms(2,3) in \<open>auto simp: live_proc_def\<close>)
  finally show ?thesis by (simp add: fetch_def)
qed

lemma get_procedure_iff:
  assumes "ws_inv db"
  shows "get_procedure db n svc name = Inr p \<longleftrightarrow>
     p \<in> set (procs db) \<and> \<not> pr_is_deleted p \<and> pr_name p = name
     \<and> (\<exists>s\<in>set (services db). svc_namespace_id s = n \<and> svc_name s = svc \<and> pr_service_id p = svc_id s)"
    (is "_ \<longleftrightarrow> ?R")
proof
  have pl: "platform_inv db" and pr: "proc_inv db" using assms by (simp_all add: ws_inv_def)
  show ?R if "get_procedure db n svc name = Inr p"
    using get_procedure_Inr [OF that] proc_service_Inr by blast
  show "get_procedure db n svc name = Inr p" if r: ?R
  proof -
    obtain s where s: "s \<in> set (services db)" "svc_namespace_id s = n" "svc_name s = svc" "pr_service_id p = svc_id s"
      using r by blast
    have "proc_service db n svc = Inr s" using s unfolding proc_service_iff [OF pl] by simp
    moreover have "fetch (NotFoundError ''Procedure'') (live_proc (svc_id s) name) (procs db) = Inr p"
      using r s(4) by (intro one_live_proc [OF pr]) (simp_all add: live_proc_def)
    ultimately show ?thesis by (simp add: get_procedure_def)
  qed
qed

lemma pversions_of_set: "set (pversions_of db i) = {v \<in> set (pversions db). pv_procedure_id v = i}"
  by (auto simp: pversions_of_def)

lemma pversions_numbered:
  assumes "proc_inv db" and "p \<in> set (procs db)"
  shows "map pv_version (pversions_of db (pr_id p)) = [1..pr_active_version p]"
proof -
  have m: "map pv_version (filter (\<lambda>v. pv_procedure_id v = pr_id p) (pversions db)) = [1..pr_active_version p]"
    using assms by (simp add: proc_inv_def list_all_iff)
  have "sorted (map pv_version (filter (\<lambda>v. pv_procedure_id v = pr_id p) (pversions db)))"
    unfolding m by (simp add: sorted_upto)
  then show ?thesis unfolding pversions_of_def using m by (simp add: sorted_sort_id sort_key_id_if_sorted)
qed

lemma version_unique:
  assumes "proc_inv db" and "p \<in> set (procs db)" and "v \<in> set (pversions_of db (pr_id p))"
    and "w \<in> set (pversions_of db (pr_id p))" and "pv_version v = pv_version w"
  shows "v = w"
proof (rule distinct_key_unique [OF _ assms(3-5)])
  show "distinct (map pv_version (pversions_of db (pr_id p)))"
    unfolding pversions_numbered [OF assms(1,2)] by (rule distinct_upto)
qed

lemma active_version_iff:
  assumes "proc_inv db" and "p \<in> set (procs db)"
  shows "proc_active_version_obj db p = Some v \<longleftrightarrow>
     v \<in> set (pversions db) \<and> pv_procedure_id v = pr_id p \<and> pv_version v = pr_active_version p" (is "_ \<longleftrightarrow> ?R")
proof
  show ?R if "proc_active_version_obj db p = Some v"
    using find_SomeD [OF that [unfolded proc_active_version_obj_def]] by (simp add: pversions_of_set)
  show "proc_active_version_obj db p = Some v" if r: ?R
  proof -
    have v: "v \<in> set (pversions_of db (pr_id p))" using r by (simp add: pversions_of_set)
    obtain w where w: "proc_active_version_obj db p = Some w"
      using find_exists [OF v, of "\<lambda>v. pv_version v = pr_active_version p"] r unfolding proc_active_version_obj_def by blast
    have w': "w \<in> set (pversions_of db (pr_id p))" "pv_version w = pr_active_version p"
      using find_SomeD [OF w [unfolded proc_active_version_obj_def]] by simp_all
    have "w = v" by (rule version_unique [OF assms w'(1) v]) (use w'(2) r in simp)
    then show ?thesis using w by simp
  qed
qed

lemma active_version_exists:
  assumes "proc_inv db" and "p \<in> set (procs db)"
  shows "\<exists>v. proc_active_version_obj db p = Some v \<and> steps_ok (pv_steps v)"
proof -
  have "pr_active_version p \<in> set (map pv_version (pversions_of db (pr_id p)))"
    unfolding pversions_numbered [OF assms] using assms by (auto simp: proc_inv_def list_all_iff)
  then obtain v where v: "v \<in> set (pversions db)" "pv_procedure_id v = pr_id p" "pv_version v = pr_active_version p"
    by (auto simp: pversions_of_set)
  then have "proc_active_version_obj db p = Some v" unfolding active_version_iff [OF assms] by simp
  moreover have "steps_ok (pv_steps v)" using assms(1) v(1) by (simp add: proc_inv_def list_all_iff)
  ultimately show ?thesis by blast
qed

text \<open>
  C4: No sequence of requests to any of the services breaks the integrity of the tables. Every
  procedure has versions numbered from 1 without gaps up to its active version, which exists and is
  valid: 1 to 20 steps numbered in order, each with a policy and at most 5 retries, and no input
  mapping that names the result of a step which is not before it. A version once stored is never
  changed, as long as no service is deleted.\<close>

theorem procedure_versions_immutable:
  fixes db rs
  assumes "ws_inv db"
  defines "db' \<equiv> foldl ws_request db rs"
  shows "ws_inv db'
    \<and> (p \<in> set (procs db') \<longrightarrow> map pv_version (pversions_of db' (pr_id p)) = [1..pr_active_version p]
        \<and> (\<exists>v. proc_active_version_obj db' p = Some v \<and> steps_ok (pv_steps v)))
    \<and> (list_all (\<lambda>r. \<not> deletes_service r) rs \<longrightarrow> pversion_at db k = Some v \<longrightarrow> pversion_at db' k = Some v)"
proof -
  have i: "ws_inv db'" unfolding db'_def using assms(1) by (intro workspace.inv_run) (auto simp: list_all_iff)
  then have "proc_inv db'" by (simp add: ws_inv_def)
  then show ?thesis using i pversions_numbered active_version_exists proc_store.version_run [OF assms(1)]
    unfolding db'_def by blast
qed

lemma create_procedure_live:
  assumes "create_procedure db n svc name ss d c = Inr (db', p)"
  shows "p \<in> set (procs db') \<and> \<not> pr_is_deleted p \<and> pr_name p = name
     \<and> (\<exists>s\<in>set (services db'). svc_namespace_id s = n \<and> svc_name s = svc \<and> pr_service_id p = svc_id s)"
proof -
  obtain s where s: "proc_service db n svc = Inr s" "pr_service_id p = svc_id s" "services db' = services db"
    "p \<in> set (procs db')" "pr_name p = name" "\<not> pr_is_deleted p"
    using create_procedure_Inr [OF assms] by auto
  then show ?thesis using proc_service_Inr [OF s(1)] by auto
qed

lemma update_procedure_live:
  assumes "update_procedure db n svc name (Some ss) d c = Inr (db', p)"
  shows "p \<in> set (procs db') \<and> \<not> pr_is_deleted p \<and> pr_name p = name
     \<and> (\<exists>s\<in>set (services db'). svc_namespace_id s = n \<and> svc_name s = svc \<and> pr_service_id p = svc_id s)"
proof -
  obtain q where q: "get_procedure db n svc name = Inr q"
    and p: "p = (describe_row d q)\<lparr>pr_active_version := pr_active_version q + 1\<rparr>"
    and db': "services db' = services db" "procs db' = update_row pr_id (pr_id q)
        (\<lambda>r. (describe_row d r)\<lparr>pr_active_version := pr_active_version q + 1\<rparr>) (procs db)"
    using update_procedure_Inr [OF assms] by auto
  have "p \<in> set (procs db')" unfolding db' p using get_procedure_Inr [OF q] by (intro update_row_hit) auto
  moreover obtain s where "s \<in> set (services db)" "svc_namespace_id s = n" "svc_name s = svc" "pr_service_id q = svc_id s"
    using get_procedure_Inr [OF q] proc_service_Inr by blast
  ultimately show ?thesis using get_procedure_Inr [OF q] by (auto simp: p db')
qed

text \<open>
  C31: What is published is what runs. After a procedure is created or updated with steps, getting it by
  name returns the row that the operation returned, and its active version holds the normalised form
  of exactly these steps; an update numbers it one above the version before, creation numbers it 1.\<close>

theorem procedure_publish_round_trip:
  assumes "ws_inv db"
    and "create_procedure db n svc name ss d c = Inr (db', p) \<and> m = 1
         \<or> update_procedure db n svc name (Some ss) d c = Inr (db', p)
           \<and> get_procedure db n svc name = Inr q \<and> m = pr_active_version q + 1"
  shows "get_procedure db' n svc name = Inr p \<and> pr_active_version p = m
    \<and> (\<exists>v. proc_active_version_obj db' p = Some v \<and> normalize_steps 1 [] ss = Inr (pv_steps v) \<and> pv_version v = m)"
proof -
  have "ws_exec (WProc (PCreate n svc name ss d c)) db = Inr db' \<or> ws_exec (WProc (PUpdate n svc name (Some ss) d c)) db = Inr db'"
    using assms(2) by auto
  then have inv: "ws_inv db'" using ws_inv_exec [OF assms(1)] by blast
  have live: "p \<in> set (procs db') \<and> \<not> pr_is_deleted p \<and> pr_name p = name
     \<and> (\<exists>s\<in>set (services db'). svc_namespace_id s = n \<and> svc_name s = svc \<and> pr_service_id p = svc_id s)"
    using assms(2) create_procedure_live update_procedure_live by blast
  have ver: "pr_active_version p = m \<and> (\<exists>v\<in>set (pversions db'). pv_procedure_id v = pr_id p
      \<and> pv_version v = m \<and> normalize_steps 1 [] ss = Inr (pv_steps v))"
    using assms(2)
  proof (elim disjE conjE)
    assume "create_procedure db n svc name ss d c = Inr (db', p)" "m = 1"
    then show ?thesis using create_procedure_Inr [of db n svc name ss d c db' p] new_pversion_ok by fastforce
  next
    assume u: "update_procedure db n svc name (Some ss) d c = Inr (db', p)"
      "get_procedure db n svc name = Inr q" "m = pr_active_version q + 1"
    then show ?thesis using update_procedure_Inr [OF u(1)] new_pversion_ok by fastforce
  qed
  then obtain v where v: "v \<in> set (pversions db')" "pv_procedure_id v = pr_id p" "pv_version v = m"
    "normalize_steps 1 [] ss = Inr (pv_steps v)" by blast
  have "proc_inv db'" using inv by (simp add: ws_inv_def)
  then have "proc_active_version_obj db' p = Some v" using v live ver by (subst active_version_iff) simp_all
  moreover have "get_procedure db' n svc name = Inr p" unfolding get_procedure_iff [OF inv] by (rule live)
  ultimately show ?thesis using v ver by blast
qed

lemma check_function_ref_Inr:
  assumes "platform_inv db" and "check_function_ref db n step = Inr ()"
  shows "\<exists>svc fn f v. map_of step ''function_ref'' = Some (JStr (svc @ ''.'' @ fn))
           \<and> get_for_execution db n svc fn = Inr (f, v)"
proof -
  obtain ref where ref: "map_of step ''function_ref'' = Some ref"
    using assms(2) by (auto simp: check_function_ref_def item_Inr)
  then have it: "item step ''function_ref'' = Inr ref" by (simp add: item_Inr)
  obtain r where r0: "ref = JStr r" using assms(2) it by (cases ref) (simp_all add: check_function_ref_def)
  obtain svc fn where sp: "find_split ''.'' r = Some (svc, fn)"
    using assms(2) it r0 by (cases "find_split ''.'' r") (auto simp: check_function_ref_def)
  obtain x where x: "step_function db n svc fn = Inr x" using assms(2) it r0 sp by (auto simp: check_function_ref_def)
  obtain f where "x = Some f" using assms(2) it r0 sp x by (cases x) (auto simp: check_function_ref_def)
  then have r: "map_of step ''function_ref'' = Some (JStr r)" "find_split ''.'' r = Some (svc, fn)"
    "step_function db n svc fn = Inr (Some f)" using ref r0 sp x by simp_all
  obtain s where f: "f \<in> set (funcs db)" "fn_name f = py_lower fn" "fn_deleted_at f = None"
    and s: "s \<in> set (services db)" "svc_id s = fn_service_id f" "svc_namespace_id s = n" "svc_name s = svc"
    using one_or_none_Some [OF r(3) [unfolded step_function_def]] by (auto simp: list_ex_iff)
  have "py_lower svc = svc" using assms(1) s by (auto simp: platform_inv_def svc_inv_def list_all_iff intro: py_lower_slug)
  then have "callable_as db n svc fn f" using f s by (auto simp: callable_as_def list_ex_iff)
  from get_for_execution_callable [OF assms(1) this] show ?thesis
    using r(1) find_split_Some [OF r(2)] by auto
qed

lemma check_function_refs_all: "check_function_refs db n ss = Inr () \<longleftrightarrow> (\<forall>s\<in>set ss. check_function_ref db n s = Inr ())"
  by (induction ss) auto

text \<open>
  C32: A procedure is created only over functions that exist: every step of it names a service and a
  function of the namespace for which the lookup for execution finds a live function with its active
  version, and the stored steps name the same functions in the same order.\<close>

theorem created_procedure_callable:
  assumes "ws_inv db" and "create_procedure db n svc name ss d c = Inr (db', p)"
    and "proc_active_version_obj db' p = Some w"
  shows "map (\<lambda>s. map_of s ''function_ref'') (pv_steps w) = map (\<lambda>s. map_of s ''function_ref'') ss
    \<and> (\<forall>s\<in>set ss. \<exists>sv fn f v. map_of s ''function_ref'' = Some (JStr (sv @ ''.'' @ fn))
         \<and> get_for_execution db n sv fn = Inr (f, v))"
proof -
  have pl: "platform_inv db" using assms(1) by (simp add: ws_inv_def)
  obtain s ns v where *: "check_function_refs db n ss = Inr ()" "normalize_steps 1 [] ss = Inr ns"
    "new_pversion (Suc (next_id db)) (next_id db) 1 ns c = Inr v" "pr_id p = next_id db" "pr_active_version p = 1"
    "pversions db' = pversions db @ [v]"
    using create_procedure_Inr [OF assms(2)] by auto
  note live = create_procedure_live [OF assms(2)]
  have inv: "proc_inv db'" using assms(1) by (intro proc_inv_create [OF _ assms(2)]) (simp add: ws_inv_def)
  have "proc_active_version_obj db' p = Some v"
    using * live new_pversion_ok [OF *(2,3)] by (subst active_version_iff [OF inv]) simp_all
  then have "pv_steps w = ns" using assms(3) new_pversion_ok [OF *(2,3)] by simp
  then show ?thesis using normalize_steps_ok [OF *(2)] *(1) check_function_ref_Inr [OF pl]
    unfolding check_function_refs_all by blast
qed

subsection \<open>A small instance\<close>

definition sample_steps :: "json_dict list" where
  "sample_steps =
     [[(''name'', JStr ''one''), (''function_ref'', JStr ''tools.ping''), (''instructions'', JStr ''go'')],
      [(''name'', JStr ''two''), (''function_ref'', JStr ''tools.pong''), (''instructions'', JStr ''on''),
       (''input_mapping'', JObj [(''x'', JStr ''$.steps.one.result'')])]]"

lemma sample_ws_inv: "ws_inv sample_db" by code_simp

definition sample_procedure :: "platform_db \<times> procedure_row" where
  "sample_procedure = projr (create_procedure sample_db 9 ''tools'' ''flow'' sample_steps None None)"

lemma sample_procedure_created:
  "create_procedure sample_db 9 ''tools'' ''flow'' sample_steps None None
   = Inr (fst sample_procedure, snd sample_procedure)"
  by code_simp

theorem procedure_versions_immutable_witness:
  "ws_inv (foldl ws_request sample_db [WProc (PCreate 9 ''tools'' ''flow'' sample_steps None None),
      WProc (PCreate 9 ''tools'' ''flow'' (rev sample_steps) None None),
      WProc (PUpdate 9 ''tools'' ''flow'' (Some (rev sample_steps)) None None),
      WProc (PUpdate 9 ''tools'' ''flow'' (Some (take 1 sample_steps)) None None)])
   \<and> map pv_version (pversions (foldl ws_request sample_db [WProc (PCreate 9 ''tools'' ''flow'' sample_steps None None),
      WProc (PCreate 9 ''tools'' ''flow'' (rev sample_steps) None None),
      WProc (PUpdate 9 ''tools'' ''flow'' (Some (rev sample_steps)) None None),
      WProc (PUpdate 9 ''tools'' ''flow'' (Some (take 1 sample_steps)) None None)])) = [1, 2]"
proof
  show "ws_inv (foldl ws_request sample_db [WProc (PCreate 9 ''tools'' ''flow'' sample_steps None None),
      WProc (PCreate 9 ''tools'' ''flow'' (rev sample_steps) None None),
      WProc (PUpdate 9 ''tools'' ''flow'' (Some (rev sample_steps)) None None),
      WProc (PUpdate 9 ''tools'' ''flow'' (Some (take 1 sample_steps)) None None)])"
    using procedure_versions_immutable [OF sample_ws_inv] by blast
qed code_simp

theorem procedure_publish_round_trip_witness:
  "get_procedure (fst sample_procedure) 9 ''tools'' ''flow'' = Inr (snd sample_procedure)"
  using procedure_publish_round_trip [OF sample_ws_inv] sample_procedure_created by blast

theorem created_procedure_callable_witness:
  "\<exists>sv fn f v. map_of (sample_steps ! 1) ''function_ref'' = Some (JStr (sv @ ''.'' @ fn))
     \<and> get_for_execution sample_db 9 sv fn = Inr (f, v)"
proof -
  have "\<not> Option.is_none (proc_active_version_obj (fst sample_procedure) (snd sample_procedure))" by code_simp
  then obtain w where w: "proc_active_version_obj (fst sample_procedure) (snd sample_procedure) = Some w"
    by (auto simp: Option.is_none_def)
  have "sample_steps ! 1 \<in> set sample_steps" by code_simp
  with created_procedure_callable [OF sample_ws_inv sample_procedure_created w] show ?thesis by blast
qed

text \<open>An update, by contrast, checks no reference: one without a dot is stored.\<close>

lemma update_unchecked_ref:
  "\<not> isl (update_procedure (fst sample_procedure) 9 ''tools'' ''flow''
      (Some [[(''name'', JStr ''one''), (''function_ref'', JStr ''nowhere''), (''instructions'', JStr ''go'')]]) None None)"
  by code_simp

end
