(* ===== verification/Orchestrator.thy ===== *)
theory Orchestrator
  imports AiTools
begin

text \<open>
  The orchestration loop of an agent (\<open>tasks/orchestrator.py\<close>): limits, routing of a tool call, the
  loop over model replies, and the record of the run. What lies outside the program is the record
  \<open>world\<close>, of which nothing is assumed: the reply of the language model to a conversation, the clock,
  and the text a backend returns for a call (or that it raises). \<open>os_trace\<close> collects the calls that are
  handed to a backend; it is read by no definition. What precedes the loop (decrypting the key, loading
  tools, state and server connections) is given as \<open>agent_cfg\<close>; an exception there ends the run before
  any call. Metrics, telemetry, logging and the texts of the system prompt are left out.
\<close>

section \<open>Limits\<close>

record orch_limits =
  max_iterations :: int
  max_ai_tokens :: int
  max_execution_seconds :: int
  max_functions_called :: int

definition DEFAULT_LIMITS :: orch_limits where
  "DEFAULT_LIMITS = \<lparr>max_iterations = 10, max_ai_tokens = 200000, max_execution_seconds = 120,
                     max_functions_called = 10\<rparr>"

definition ORCHESTRATION_TIER_LIMITS :: "(string \<times> orch_limits) list" where
  "ORCHESTRATION_TIER_LIMITS =
     [(''trial-agent'', \<lparr>max_iterations = 10, max_ai_tokens = 200000, max_execution_seconds = 120,
         max_functions_called = 10\<rparr>),
      (''pro-agent'', \<lparr>max_iterations = 10, max_ai_tokens = 200000, max_execution_seconds = 120,
         max_functions_called = 10\<rparr>),
      (''enterprise-agent'', \<lparr>max_iterations = 25, max_ai_tokens = 1000000, max_execution_seconds = 300,
         max_functions_called = 25\<rparr>),
      (''dedicated-agent'', \<lparr>max_iterations = 50, max_ai_tokens = 2000000, max_execution_seconds = 300,
         max_functions_called = -1\<rparr>)]"

definition set_limit :: "string \<Rightarrow> int \<Rightarrow> orch_limits \<Rightarrow> orch_limits" where
  "set_limit key v l =
     (if key = ''max_iterations'' then l\<lparr>max_iterations := v\<rparr>
      else if key = ''max_ai_tokens'' then l\<lparr>max_ai_tokens := v\<rparr>
      else if key = ''max_execution_seconds'' then l\<lparr>max_execution_seconds := v\<rparr>
      else if key = ''max_functions_called'' then l\<lparr>max_functions_called := v\<rparr>
      else l)"

definition resolve_orchestration_limits :: "string \<Rightarrow> json_dict option \<Rightarrow> orch_limits" where
  "resolve_orchestration_limits tier overrides =
     fold (\<lambda>(k, v) l. case as_int v of None \<Rightarrow> l | Some i \<Rightarrow> set_limit k i l)
       (case overrides of None \<Rightarrow> [] | Some d \<Rightarrow> d)
       (dict_get ORCHESTRATION_TIER_LIMITS tier DEFAULT_LIMITS)"

section \<open>Conversation and world\<close>

datatype block =
    TextBlock string
  | ToolUse string json_dict string
  | OtherBlock

datatype msg =
    UserMsg string
  | AssistantMsg "block list"
  | ToolResultMsg string string string

record ai_response =
  ar_tokens :: int
  ar_blocks :: "block list"
  ar_stop_reason :: string

datatype ai_reply = AIReply ai_response | AIRaises string

text \<open>Where a routed call goes.\<close>

datatype target =
    ToProcedure json json json
  | ToPlatform string
  | ToMcp string
  | ToApi string
  | ToFunction string string

record world =
  w_elapsed_ms :: "nat \<Rightarrow> int"
  w_ai :: "nat \<Rightarrow> msg list \<Rightarrow> ai_reply"
  w_backend :: "nat \<Rightarrow> target \<Rightarrow> json_dict \<Rightarrow> string + string"

section \<open>Routing a tool call\<close>

record agent_cfg =
  ac_name :: string
  ac_has_engine :: bool
  ac_tool_tier :: string
  ac_scheduled_tool_tier :: string
  ac_auto_channel :: "string option"
  ac_limits :: orch_limits
  ac_tools :: "tool_def list"
  ac_covered :: "(string \<times> string) list"
  ac_mcp_pool :: bool
  ac_trigger :: string
  ac_canary :: string

definition effective_tier :: "agent_cfg \<Rightarrow> tool_tier res" where
  "effective_tier c =
     (if ac_trigger c \<in> {''cron'', ''webhook''} then tool_tier_of (ac_scheduled_tool_tier c)
      else tool_tier_of (ac_tool_tier c))"

fun tier_value :: "tool_tier \<Rightarrow> string" where
  "tier_value EXECUTE_ONLY = ''execute_only''"
| "tier_value STANDARD = ''standard''"
| "tier_value BUILDER = ''builder''"
| "tier_value ADMIN = ''admin''"

definition quoted :: "string \<Rightarrow> string" where
  "quoted s = CHR 0x27 # s @ [CHR 0x27]"

text \<open>
  The reply to a direct call of a function that a procedure covers; the dash in its text is outside
  ASCII and appears escaped.
\<close>

definition blocked_reply :: "string \<Rightarrow> string \<Rightarrow> string" where
  "blocked_reply tool label =
     (let (svc, nm) = (case find_split '' / '' label of None \<Rightarrow> (label, []) | Some p \<Rightarrow> p)
      in error_reply_raw
           (json_body (''Direct call to '' @ quoted tool @ '' is blocked '') @ CHR 0x5C # ''u2014''
            @ json_body ('' this function is covered by procedure '' @ quoted label
                @ ''. You MUST use run_procedure(service='' @ quoted svc @ '', name='' @ quoted nm @ '') instead.'')))"

definition route_tool :: "agent_cfg \<Rightarrow> string \<Rightarrow> json_dict \<Rightarrow> (string + target) res" where
  "route_tool c name input =
     res_bind (effective_tier c) (\<lambda>tier.
       if \<not> is_tool_allowed tier name then
         Inr (Inl (error_reply (''Agent '' @ quoted (ac_name c) @ '' (tier: '' @ tier_value tier
               @ '') is not authorized to call '' @ quoted name @ '' in '' @ ac_trigger c @ '' context'')))
       else if name = ''run_procedure'' then
         (let s = dict_get input ''service'' (JStr []); p = dict_get input ''name'' (JStr [])
          in if \<not> truthy s \<or> \<not> truthy p
             then Inr (Inl (error_reply (''run_procedure requires '' @ quoted ''service'' @ '' and '' @ quoted ''name'')))
             else Inr (Inr (ToProcedure s p (dict_get input ''input_context'' JNull))))
       else if name \<in> set PLATFORM_TOOL_NAMES then Inr (Inr (ToPlatform name))
       else if is_mcp_tool name then
         (if \<not> ac_mcp_pool c then Inr (Inl (error_reply ''MCP server pool not available''))
          else Inr (Inr (ToMcp name)))
       else if py_startswith name ''api__'' then Inr (Inr (ToApi name))
       else case parse_tool_name name of
           None \<Rightarrow>
             Inr (Inl (error_reply (''Unknown tool: '' @ quoted name @ ''. Tool names use the format ''
               @ quoted ''service_name__function_name'' @ '' (double underscore). Available tools: ''
               @ (if ac_tools c = [] then ''none'' else format_available_tools (ac_tools c)))))
         | Some (s, f) \<Rightarrow>
             (case map_of (ac_covered c) name of
                Some label \<Rightarrow> Inr (Inl (blocked_reply name label))
              | None \<Rightarrow> Inr (Inr (ToFunction s f))))"

section \<open>The loop\<close>

record call_record =
  cr_sequence :: nat
  cr_tool :: string
  cr_preview :: string
  cr_source :: string
  cr_status :: string

record orch_state =
  os_messages :: "msg list"
  os_called :: "string list"
  os_records :: "call_record list"
  os_tokens :: int
  os_iterations :: int
  os_failures :: int
  os_trace :: "(string \<times> target \<times> json_dict) list"

record block_acc =
  ba_state :: orch_state
  ba_results :: "msg list"
  ba_success :: bool

datatype halt = CanaryLeak string orch_state | Raised string orch_state

definition MAX_RESULT_PREVIEW_CHARS :: nat where
  "MAX_RESULT_PREVIEW_CHARS = 500"

definition tool_source :: "string \<Rightarrow> string" where
  "tool_source name = (if is_mcp_tool name then ''mcp''
     else if name \<in> set PLATFORM_TOOL_NAMES then ''platform'' else ''namespace'')"

text \<open>The reply of \<open>_dispatch_tool\<close>, with the calls handed to a backend appended to the trace.\<close>

definition dispatch_tool ::
  "agent_cfg \<Rightarrow> world \<Rightarrow> string \<Rightarrow> json_dict \<Rightarrow> orch_state \<Rightarrow> (string + string) \<times> orch_state" where
  "dispatch_tool c w name input s =
     (case route_tool c name input of
        Inl _ \<Rightarrow> (Inl ''not a valid ToolTier'', s)
      | Inr (Inl reply) \<Rightarrow> (Inr reply, s)
      | Inr (Inr t) \<Rightarrow> (w_backend w (length (os_trace s)) t input,
                       s\<lparr>os_trace := os_trace s @ [(name, t, input)]\<rparr>))"

text \<open>What is kept of a reply: the call counts only when the reply is not an error.\<close>

definition note_reply :: "string \<Rightarrow> string \<Rightarrow> string \<Rightarrow> orch_state \<Rightarrow> msg list \<Rightarrow> bool \<Rightarrow> block_acc" where
  "note_reply name tool_id reply s results success =
     (let err = is_error_reply reply
      in \<lparr>ba_state = s\<lparr>os_called := (if err then os_called s else os_called s @ [name]),
                       os_records := os_records s @
                         [\<lparr>cr_sequence = length (os_records s), cr_tool = name,
                           cr_preview = take MAX_RESULT_PREVIEW_CHARS reply, cr_source = tool_source name,
                           cr_status = (if err then ''error'' else ''success'')\<rparr>]\<rparr>,
          ba_results = results @ [ToolResultMsg tool_id name reply],
          ba_success = (success \<or> \<not> err)\<rparr>)"

definition limit_reply :: "int \<Rightarrow> string" where
  "limit_reply n = error_reply (''Function call limit reached ('' @ int_str n @
     ''). You have already called enough functions. Summarize your results and finish.'')"

definition restricted_reply :: "string \<Rightarrow> string" where
  "restricted_reply name = error_reply (''Tool '' @ quoted name @ '' is not available to agents.'')"

fun step_block :: "agent_cfg \<Rightarrow> world \<Rightarrow> block_acc \<Rightarrow> block \<Rightarrow> halt + block_acc" where
  "step_block c w acc (ToolUse name input tool_id) =
     (let s = ba_state acc; m = max_functions_called (ac_limits c) in
      if 0 \<le> m \<and> m \<le> int (length (os_called s)) then
        Inr (acc\<lparr>ba_results := ba_results acc @ [ToolResultMsg tool_id name (limit_reply m)]\<rparr>)
      else if py_in (ac_canary c) (py_repr (JObj input)) then Inl (CanaryLeak name s)
      else if name \<in> set RESTRICTED_AGENT_TOOLS then
        Inr (acc\<lparr>ba_results := ba_results acc @ [ToolResultMsg tool_id name (restricted_reply name)]\<rparr>)
      else case dispatch_tool c w name input s of
             (Inl e, s') \<Rightarrow> Inl (Raised e s')
           | (Inr reply, s') \<Rightarrow> Inr (note_reply name tool_id reply s' (ba_results acc) (ba_success acc)))"
| "step_block c w acc _ = Inr acc"

lemma note_reply_iterations [simp]: "os_iterations (ba_state (note_reply n i r s rs b)) = os_iterations s"
  by (simp add: note_reply_def Let_def)

lemma dispatch_tool_iterations: "dispatch_tool c w n i s = (r, s') \<Longrightarrow> os_iterations s' = os_iterations s"
  by (auto simp: dispatch_tool_def split: sum.splits)

lemma step_block_iterations:
  "step_block c w acc b = Inr acc' \<Longrightarrow> os_iterations (ba_state acc') = os_iterations (ba_state acc)"
  by (cases b) (auto simp: Let_def dest: dispatch_tool_iterations split: if_splits prod.splits sum.splits)

lemma fold_blocks_iterations:
  assumes "foldM (step_block c w) acc bs = Inr acc'"
  shows "os_iterations (ba_state acc') = os_iterations (ba_state acc)"
  using foldM_invariant [of "\<lambda>a. os_iterations (ba_state a) = os_iterations (ba_state acc)" "step_block c w" acc bs acc']
    assms step_block_iterations by fastforce

section \<open>Results and the record of a run\<close>

record orch_result =
  or_success :: bool
  or_final_text :: "string option"
  or_functions_called :: "string list"
  or_iterations :: int
  or_total_tokens :: int
  or_error :: "string option"
  or_outcome :: "string option"

record run_record =
  rr_status :: string
  rr_outcome :: string
  rr_function_name :: "string option"
  rr_functions_called_count :: nat
  rr_summary :: "string option"
  rr_error :: "string option"
  rr_calls :: "call_record list"

record orch_out =
  oo_result :: orch_result
  oo_run :: "run_record option"
  oo_channel :: "(string \<times> string) option"
  oo_trace :: "(string \<times> target \<times> json_dict) list"

definition run_status_map :: "(string \<times> string) list" where
  "run_status_map =
     [(''completed'', ''completed''), (''no_action'', ''no_action''), (''limit_hit'', ''limit_hit''),
      (''error'', ''failed''), (''timeout'', ''timeout''), (''cancelled'', ''cancelled'')]"

text \<open>
  \<open>_record_run\<close>. The columns \<open>function_name\<close> and \<open>tool_name\<close> hold at most 255 characters; a longer value
  makes the insertion fail, which is logged and otherwise ignored.
\<close>

definition record_run :: "orch_result \<Rightarrow> call_record list \<Rightarrow> run_record option" where
  "record_run r calls =
     (let outcome = (case or_outcome r of
                       Some q \<Rightarrow> if q = [] then (if or_success r then ''completed'' else ''error'') else q
                     | None \<Rightarrow> if or_success r then ''completed'' else ''error'');
          names = py_join '', '' (take 10 (or_functions_called r))
      in if 255 < length names \<or> list_ex (\<lambda>cr. 255 < length (cr_tool cr)) calls then None
         else Some \<lparr>rr_status = dict_get run_status_map outcome ''failed'', rr_outcome = outcome,
                    rr_function_name = (if names = [] then None else Some names),
                    rr_functions_called_count = length (or_functions_called r),
                    rr_summary = (case or_final_text r of Some t \<Rightarrow> if t = [] then None else Some (take 1000 t)
                                  | None \<Rightarrow> None),
                    rr_error = (case or_error r of Some t \<Rightarrow> if t = [] then None else Some (take 1000 t)
                                | None \<Rightarrow> None),
                    rr_calls = calls\<rparr>)"

text \<open>\<open>_extract_text\<close>.\<close>

definition extract_text :: "block list \<Rightarrow> string option" where
  "extract_text bs =
     (let ts = List.map_filter (\<lambda>b. case b of TextBlock t \<Rightarrow> if t = [] then None else Some t | _ \<Rightarrow> None) bs
      in if ts = [] then None else Some (py_join [CHR 0x0A] ts))"

text \<open>\<open>_post_orchestration\<close>: the message to the agent's channel, and the record.\<close>

definition post_orchestration :: "agent_cfg \<Rightarrow> orch_result \<Rightarrow> orch_state \<Rightarrow> orch_out" where
  "post_orchestration c r s =
     \<lparr>oo_result = r, oo_run = record_run r (os_records s),
      oo_channel = (case (or_success r, ac_auto_channel c, or_final_text r) of
                      (True, Some ch, Some t) \<Rightarrow> if ch = [] \<or> t = [] then None else Some (ch, t)
                    | _ \<Rightarrow> None),
      oo_trace = os_trace s\<rparr>"

definition limit_result :: "string \<Rightarrow> orch_state \<Rightarrow> orch_out" where
  "limit_result err s =
     \<lparr>oo_result = \<lparr>or_success = False, or_final_text = None, or_functions_called = os_called s,
                   or_iterations = os_iterations s, or_total_tokens = os_tokens s, or_error = Some err,
                   or_outcome = Some ''limit_hit''\<rparr>,
      oo_run = None, oo_channel = None, oo_trace = os_trace s\<rparr>"

definition error_result :: "string \<Rightarrow> orch_state \<Rightarrow> orch_out" where
  "error_result err s =
     (let r = \<lparr>or_success = False, or_final_text = None, or_functions_called = os_called s,
               or_iterations = os_iterations s, or_total_tokens = os_tokens s,
               or_error = Some (take 500 err), or_outcome = Some ''error''\<rparr>
      in \<lparr>oo_result = r, oo_run = record_run r (os_records s), oo_channel = None, oo_trace = os_trace s\<rparr>)"

definition bare_failure :: "string \<Rightarrow> (string \<times> target \<times> json_dict) list \<Rightarrow> orch_out" where
  "bare_failure err trace =
     \<lparr>oo_result = \<lparr>or_success = False, or_final_text = None, or_functions_called = [], or_iterations = 0,
                   or_total_tokens = 0, or_error = Some err, or_outcome = None\<rparr>,
      oo_run = None, oo_channel = None, oo_trace = trace\<rparr>"

definition complete_result :: "agent_cfg \<Rightarrow> block list \<Rightarrow> orch_state \<Rightarrow> orch_out" where
  "complete_result c bs s =
     post_orchestration c
       \<lparr>or_success = True, or_final_text = extract_text bs, or_functions_called = os_called s,
        or_iterations = os_iterations s, or_total_tokens = os_tokens s, or_error = None,
        or_outcome = Some (if os_called s = [] then ''no_action'' else ''completed'')\<rparr> s"

text \<open>Both messages are cut after their first sentence.\<close>

definition canary_text :: "string \<Rightarrow> string" where
  "canary_text name = ''SECURITY: Canary token leaked in tool call to '' @ quoted name"

definition stopped_text :: "int \<Rightarrow> string" where
  "stopped_text n = ''Stopped after '' @ int_str n @ '' consecutive iterations where all tool calls failed.''"

text \<open>One reply that asks for tools: the state after the batch, or the end of the run.\<close>

definition run_batch :: "agent_cfg \<Rightarrow> world \<Rightarrow> block list \<Rightarrow> orch_state \<Rightarrow> orch_out + orch_state" where
  "run_batch c w bs s =
     (case foldM (step_block c w)
             \<lparr>ba_state = s\<lparr>os_messages := os_messages s @ [AssistantMsg bs]\<rparr>, ba_results = [], ba_success = False\<rparr> bs of
        Inl (CanaryLeak name s') \<Rightarrow> Inl (bare_failure (canary_text name) (os_trace s'))
      | Inl (Raised e s') \<Rightarrow> Inl (error_result e s')
      | Inr acc \<Rightarrow>
          (let s' = (ba_state acc)\<lparr>os_messages := os_messages (ba_state acc) @ ba_results acc,
                                   os_failures := (if ba_success acc then 0 else os_failures (ba_state acc) + 1)\<rparr>
           in if \<not> ba_success acc \<and> 3 \<le> os_failures s' then Inl (limit_result (stopped_text (os_failures s')) s')
              else Inr s'))"

lemma run_batch_iterations: "run_batch c w bs s = Inr s' \<Longrightarrow> os_iterations s' = os_iterations s"
  by (auto simp: run_batch_def Let_def dest: fold_blocks_iterations split: sum.splits halt.splits if_splits)

function orch_loop :: "agent_cfg \<Rightarrow> world \<Rightarrow> orch_state \<Rightarrow> orch_out" where
  "orch_loop c w s =
     (let l = ac_limits c in
      if max_iterations l \<le> os_iterations s then limit_result ''Max iterations exceeded'' s
      else if max_ai_tokens l \<le> os_tokens s then limit_result ''Token limit exceeded'' s
      else if 1000 * max_execution_seconds l \<le> w_elapsed_ms w (nat (os_iterations s))
      then limit_result ''Execution time limit exceeded'' s
      else case w_ai w (nat (os_iterations s)) (os_messages s) of
             AIRaises e \<Rightarrow> error_result e s
           | AIReply r \<Rightarrow>
               (let s1 = s\<lparr>os_iterations := os_iterations s + 1, os_tokens := os_tokens s + ar_tokens r\<rparr>
                in if ar_stop_reason r \<noteq> ''tool_use'' then complete_result c (ar_blocks r) s1
                   else case run_batch c w (ar_blocks r) s1 of
                          Inl res \<Rightarrow> res
                        | Inr s2 \<Rightarrow> orch_loop c w s2))"
  by pat_completeness auto
termination
  by (relation "measure (\<lambda>(c, w, s). nat (max_iterations (ac_limits c) - os_iterations s))")
    (auto dest: run_batch_iterations)

declare orch_loop.simps [simp del]

definition init_state :: "string \<Rightarrow> orch_state" where
  "init_state trigger_context =
     \<lparr>os_messages = [UserMsg trigger_context], os_called = [], os_records = [], os_tokens = 0,
      os_iterations = 0, os_failures = 0, os_trace = []\<rparr>"

definition run_orchestration :: "agent_cfg \<Rightarrow> world \<Rightarrow> string \<Rightarrow> orch_out" where
  "run_orchestration c w trigger_context =
     (if \<not> ac_has_engine c then bare_failure ''Agent has no AI engine configured'' []
      else orch_loop c w (init_state trigger_context))"

section \<open>What every run keeps to\<close>

definition authorised :: "agent_cfg \<Rightarrow> string \<times> target \<times> json_dict \<Rightarrow> bool" where
  "authorised c k = (case k of (name, t, input) \<Rightarrow>
     route_tool c name input = Inr (Inr t) \<and> name \<notin> set RESTRICTED_AGENT_TOOLS
     \<and> \<not> py_in (ac_canary c) (py_repr (JObj input)))"

definition orch_ok :: "agent_cfg \<Rightarrow> orch_state \<Rightarrow> bool" where
  "orch_ok c s \<longleftrightarrow>
     (0 \<le> max_functions_called (ac_limits c) \<longrightarrow> int (length (os_called s)) \<le> max_functions_called (ac_limits c))
     \<and> list_all (authorised c) (os_trace s)
     \<and> map cr_tool (filter (\<lambda>r. cr_status r = ''success'') (os_records s)) = os_called s
     \<and> map cr_sequence (os_records s) = [0..<length (os_records s)]"

fun halt_state :: "halt \<Rightarrow> orch_state" where
  "halt_state (CanaryLeak _ s) = s"
| "halt_state (Raised _ s) = s"

lemma orch_ok_trace:
  "orch_ok c s \<Longrightarrow> authorised c k \<Longrightarrow> orch_ok c (s\<lparr>os_trace := os_trace s @ [k]\<rparr>)"
  by (simp add: orch_ok_def)

lemma orch_ok_note_reply:
  assumes "orch_ok c s"
    and "0 \<le> max_functions_called (ac_limits c) \<Longrightarrow> int (length (os_called s)) < max_functions_called (ac_limits c)"
  shows "orch_ok c (ba_state (note_reply name i reply s rs b))"
  using assms by (auto simp: orch_ok_def note_reply_def Let_def)

lemma dispatch_tool_ok:
  assumes "orch_ok c s" and "dispatch_tool c w name input s = (r, s')"
    and "name \<notin> set RESTRICTED_AGENT_TOOLS" and "\<not> py_in (ac_canary c) (py_repr (JObj input))"
  shows "orch_ok c s' \<and> os_called s' = os_called s"
  using assms by (auto simp: dispatch_tool_def authorised_def intro!: orch_ok_trace split: sum.splits)

definition spent :: "orch_state \<Rightarrow> int \<times> int" where
  "spent s = (os_iterations s, os_tokens s)"

lemma spent_simps [simp]:
  "spent (s\<lparr>os_messages := m\<rparr>) = spent s" "spent (s\<lparr>os_failures := f\<rparr>) = spent s"
  "spent (ba_state (note_reply n i r s rs b)) = spent s"
  by (simp_all add: spent_def note_reply_def Let_def)

lemma dispatch_tool_spent: "dispatch_tool c w n i s = (r, s') \<Longrightarrow> spent s' = spent s"
  by (auto simp: dispatch_tool_def spent_def split: sum.splits)

lemma step_block_ok:
  assumes "orch_ok c (ba_state acc)"
  shows "case step_block c w acc b of
           Inl h \<Rightarrow> orch_ok c (halt_state h) \<and> spent (halt_state h) = spent (ba_state acc)
         | Inr acc' \<Rightarrow> orch_ok c (ba_state acc') \<and> spent (ba_state acc') = spent (ba_state acc)"
proof (cases b)
  case (ToolUse name input i)
  obtain r s' where d: "dispatch_tool c w name input (ba_state acc) = (r, s')" by force
  show ?thesis using assms ToolUse d dispatch_tool_ok [OF assms d] dispatch_tool_spent [OF d]
    by (auto simp: Let_def intro!: orch_ok_note_reply split: sum.splits)
qed (use assms in auto)

lemma fold_blocks_ok:
  assumes "orch_ok c (ba_state acc)"
  shows "case foldM (step_block c w) acc bs of
           Inl h \<Rightarrow> orch_ok c (halt_state h) \<and> spent (halt_state h) = spent (ba_state acc)
         | Inr acc' \<Rightarrow> orch_ok c (ba_state acc') \<and> spent (ba_state acc') = spent (ba_state acc)"
  by (rule foldM_post [where P = "\<lambda>a. orch_ok c (ba_state a) \<and> spent (ba_state a) = spent (ba_state acc)"])
    (use step_block_ok [where c = c and w = w] assms in \<open>fastforce split: sum.splits\<close>)+

text \<open>The budget: iterations, and tokens when a reply costs at most \<open>B\<close> tokens.\<close>

definition reply_cost :: "world \<Rightarrow> int \<Rightarrow> bool" where
  "reply_cost w B \<longleftrightarrow> 0 \<le> B \<and> (\<forall>n ms r. w_ai w n ms = AIReply r \<longrightarrow> ar_tokens r \<le> B)"

fun in_budget :: "orch_limits \<Rightarrow> world \<Rightarrow> int \<times> int \<Rightarrow> bool" where
  "in_budget l w (i, k) \<longleftrightarrow> 0 \<le> i \<and> i \<le> max 0 (max_iterations l)
     \<and> (\<forall>B. reply_cost w B \<longrightarrow> k \<le> max 0 (max_ai_tokens l + B))"

text \<open>Which runs leave a record, and what it says.\<close>

definition names_fit :: "string list \<Rightarrow> bool" where
  "names_fit ns \<longleftrightarrow> length (py_join '', '' (take 10 ns)) \<le> 255"

definition audited :: "orch_out \<Rightarrow> run_record \<Rightarrow> bool" where
  "audited out r \<longleftrightarrow>
     rr_status r = (if \<not> or_success (oo_result out) then ''failed''
                    else if or_functions_called (oo_result out) = [] then ''no_action'' else ''completed'')
     \<and> map cr_tool (filter (\<lambda>k. cr_status k = ''success'') (rr_calls r)) = or_functions_called (oo_result out)
     \<and> rr_functions_called_count r = length (or_functions_called (oo_result out))
     \<and> map cr_sequence (rr_calls r) = [0..<length (rr_calls r)]
     \<and> or_outcome (oo_result out) = Some (rr_outcome r)"

definition reported :: "orch_out \<Rightarrow> bool" where
  "reported out \<longleftrightarrow>
     (case oo_run out of None \<Rightarrow> True | Some r \<Rightarrow> audited out r \<and> names_fit (or_functions_called (oo_result out)))
     \<and> (or_success (oo_result out) \<longleftrightarrow> or_error (oo_result out) = None)
     \<and> (\<not> or_success (oo_result out) \<longrightarrow> oo_channel out = None \<and> or_final_text (oo_result out) = None)
     \<and> (or_outcome (oo_result out) \<in> {None, Some ''limit_hit''} \<longrightarrow> \<not> or_success (oo_result out) \<and> oo_run out = None)
     \<and> or_outcome (oo_result out) \<in> {None, Some ''limit_hit'', Some ''error'', Some ''completed'', Some ''no_action''}
     \<and> (or_success (oo_result out) \<longleftrightarrow> or_outcome (oo_result out) \<in> {Some ''completed'', Some ''no_action''})"

definition run_ok :: "agent_cfg \<Rightarrow> world \<Rightarrow> orch_out \<Rightarrow> bool" where
  "run_ok c w out \<longleftrightarrow>
     list_all (authorised c) (oo_trace out)
     \<and> in_budget (ac_limits c) w (or_iterations (oo_result out), or_total_tokens (oo_result out))
     \<and> (0 \<le> max_functions_called (ac_limits c) \<longrightarrow>
          int (length (or_functions_called (oo_result out))) \<le> max_functions_called (ac_limits c))
     \<and> reported out"

lemmas result_defs = bare_failure_def error_result_def limit_result_def complete_result_def
  post_orchestration_def Let_def

lemmas report_defs = reported_def audited_def names_fit_def record_run_def run_status_map_def dict_get_def

lemma run_ok_bare: "list_all (authorised c) t \<Longrightarrow> run_ok c w (bare_failure e t)"
  by (auto simp: run_ok_def reported_def bare_failure_def reply_cost_def)

lemma run_ok_results:
  assumes "orch_ok c s" and "in_budget (ac_limits c) w (spent s)"
  shows "run_ok c w (limit_result e s)" and "run_ok c w (error_result e s)"
    and "run_ok c w (complete_result c bs s)"
  using assms by (auto simp: run_ok_def spent_def result_defs orch_ok_def report_defs)

lemma run_batch_ok:
  assumes "orch_ok c s" and "in_budget (ac_limits c) w (spent s)"
  shows "case run_batch c w bs s of
           Inl out \<Rightarrow> run_ok c w out | Inr s' \<Rightarrow> orch_ok c s' \<and> spent s' = spent s"
proof -
  let ?acc = "\<lparr>ba_state = s\<lparr>os_messages := os_messages s @ [AssistantMsg bs]\<rparr>, ba_results = [], ba_success = False\<rparr>"
  have keep: "orch_ok c (s'\<lparr>os_messages := ms, os_failures := n\<rparr>) = orch_ok c s'" for s' ms n
    by (simp add: orch_ok_def)
  have tr: "list_all (authorised c) (os_trace s')" if "orch_ok c s'" for s'
    using that by (simp add: orch_ok_def)
  have "orch_ok c (ba_state ?acc)" using assms(1) by (simp add: orch_ok_def)
  from fold_blocks_ok [OF this, of w bs] assms(2) show ?thesis
    unfolding run_batch_def Let_def
    by (auto simp: keep intro!: run_ok_results run_ok_bare tr split: sum.splits halt.splits)
qed

lemma orch_loop_ok:
  "orch_ok c s \<Longrightarrow> in_budget (ac_limits c) w (spent s) \<Longrightarrow> run_ok c w (orch_loop c w s)"
proof (induction c w s rule: orch_loop.induct)
  case (1 c w s)
  show ?case
  proof (cases "max_iterations (ac_limits c) \<le> os_iterations s \<or> max_ai_tokens (ac_limits c) \<le> os_tokens s
       \<or> 1000 * max_execution_seconds (ac_limits c) \<le> w_elapsed_ms w (nat (os_iterations s))")
    case True
    then show ?thesis using run_ok_results(1) [OF "1.prems"] by (subst orch_loop.simps) (auto simp: Let_def)
  next
    case False
    show ?thesis
    proof (cases "w_ai w (nat (os_iterations s)) (os_messages s)")
      case (AIRaises e)
      then show ?thesis using False run_ok_results(2) [OF "1.prems"] by (subst orch_loop.simps) (auto simp: Let_def)
    next
      case (AIReply r)
      let ?s1 = "s\<lparr>os_iterations := os_iterations s + 1, os_tokens := os_tokens s + ar_tokens r\<rparr>"
      have cost: "ar_tokens r \<le> B" if "reply_cost w B" for B
        using that AIReply by (simp add: reply_cost_def)
      have s1: "orch_ok c ?s1" "in_budget (ac_limits c) w (spent ?s1)"
        using "1.prems" False by (auto simp: orch_ok_def spent_def dest!: cost)
      show ?thesis
        using False AIReply run_ok_results(3) [OF s1] run_batch_ok [OF s1, of "ar_blocks r"] s1(2)
          "1.IH" [OF refl _ _ _ AIReply refl]
        by (subst orch_loop.simps) (auto simp: Let_def split: sum.splits)
    qed
  qed
qed

lemma run_orchestration_ok: "run_ok c w (run_orchestration c w ctx)"
proof (cases "ac_has_engine c")
  case True
  have "orch_ok c (init_state ctx)" by (simp add: orch_ok_def init_state_def)
  then show ?thesis using True
    by (auto simp: run_orchestration_def init_state_def spent_def reply_cost_def intro!: orch_loop_ok)
qed (simp add: run_orchestration_def run_ok_bare)



section \<open>Properties of a run\<close>

text \<open>A standard agent whose model asks for three calls, one covered and one a platform tool, and then answers.\<close>

definition demo_cfg :: "string \<Rightarrow> agent_cfg" where
  "demo_cfg trigger =
     \<lparr>ac_name = ''bot'', ac_has_engine = True, ac_tool_tier = ''standard'', ac_scheduled_tool_tier = ''execute_only'',
      ac_auto_channel = Some ''discord'', ac_limits = resolve_orchestration_limits ''pro-agent'' None,
      ac_tools = [], ac_covered = [(''mail__send'', ''mail / notify'')], ac_mcp_pool = False,
      ac_trigger = trigger, ac_canary = ''tok-1_A''\<rparr>"

definition demo_world :: world where
  "demo_world =
     \<lparr>w_elapsed_ms = (\<lambda>n. 1000 * int n),
      w_ai = (\<lambda>n ms. AIReply
        (if n = 0
         then \<lparr>ar_tokens = 40,
               ar_blocks = [TextBlock ''hm'', ToolUse ''math__add'' [(''x'', JInt 1)] ''a'',
                            ToolUse ''mail__send'' [] ''b'', ToolUse ''set_state'' [] ''c''],
               ar_stop_reason = ''tool_use''\<rparr>
         else \<lparr>ar_tokens = 2, ar_blocks = [TextBlock ''done''], ar_stop_reason = ''end_turn''\<rparr>)),
      w_backend = (\<lambda>_ _ _. Inr ''2'')\<rparr>"

lemma demo_cost: "reply_cost demo_world 40"
  by (auto simp: reply_cost_def demo_world_def)

text \<open>
  C28: A run always ends, and within its limits: it makes at most \<open>max_iterations\<close> model calls that are
  answered, counts at most \<open>max_functions_called\<close> successful calls unless that limit is negative, and
  exceeds the token limit by at most the cost of one reply.\<close>

theorem orchestration_within_limits:
  fixes c w ctx
  defines "r \<equiv> oo_result (run_orchestration c w ctx)"
  shows "0 \<le> or_iterations r \<and> or_iterations r \<le> max 0 (max_iterations (ac_limits c))
    \<and> (0 \<le> max_functions_called (ac_limits c) \<longrightarrow>
         int (length (or_functions_called r)) \<le> max_functions_called (ac_limits c))
    \<and> (reply_cost w B \<longrightarrow> or_total_tokens r \<le> max 0 (max_ai_tokens (ac_limits c) + B))"
  using run_orchestration_ok [of c w ctx] by (auto simp: run_ok_def r_def)

theorem orchestration_within_limits_witness:
  "int (length (or_functions_called (oo_result (run_orchestration (demo_cfg ''manual'') demo_world ''go'')))) \<le> 10
   \<and> or_total_tokens (oo_result (run_orchestration (demo_cfg ''manual'') demo_world ''go'')) \<le> 200040
   \<and> oo_result (run_orchestration (demo_cfg ''manual'') demo_world ''go'') =
       \<lparr>or_success = True, or_final_text = Some ''done'', or_functions_called = [''math__add''],
        or_iterations = 2, or_total_tokens = 42, or_error = None, or_outcome = Some ''completed''\<rparr>"
proof (intro conjI)
  have l: "max_functions_called (ac_limits (demo_cfg ''manual'')) = 10"
    "max_ai_tokens (ac_limits (demo_cfg ''manual'')) = 200000" by code_simp+
  show "int (length (or_functions_called (oo_result (run_orchestration (demo_cfg ''manual'') demo_world ''go'')))) \<le> 10"
    using orchestration_within_limits [of "demo_cfg ''manual''" demo_world "''go''" 40] l by simp
  show "or_total_tokens (oo_result (run_orchestration (demo_cfg ''manual'') demo_world ''go'')) \<le> 200040"
    using orchestration_within_limits [of "demo_cfg ''manual''" demo_world "''go''" 40] l demo_cost by simp
qed code_simp

text \<open>The one target a name stands for: its prefix decides, and else the first separator splits it.\<close>

definition spelled :: "string \<Rightarrow> target \<Rightarrow> bool" where
  "spelled name t \<longleftrightarrow>
     t = ToMcp name \<and> prefix ''mcp__'' name
     \<or> t = ToApi name \<and> prefix ''api__'' name
     \<or> (\<exists>s f. t = ToFunction s f \<and> \<not> prefix ''mcp__'' name \<and> \<not> prefix ''api__'' name
          \<and> (name = s @ ''__'' @ f \<and> \<not> sublist ''__'' s
             \<or> name = s @ ''.'' @ f \<and> \<not> sublist ''.'' s \<and> \<not> sublist ''__'' name))"

lemma spelled_function:
  assumes "parse_tool_name name = Some (s, f)" and "\<not> prefix ''api__'' name"
  shows "spelled name (ToFunction s f)"
proof (cases "sublist ''__'' name")
  case True
  then have f: "find_split ''__'' name = Some (s, f)" and m: "\<not> prefix ''mcp__'' name"
    using assms(1) by (simp_all add: parse_tool_name_def is_mcp_tool_def split: if_splits)
  then show ?thesis using assms(2) find_split_Some [OF f] find_split_before [OF f] by (simp add: spelled_def)
next
  case False
  then have f: "find_split ''.'' name = Some (s, f)" and m: "\<not> prefix ''mcp__'' name"
    using assms(1) by (simp_all add: parse_tool_name_def is_mcp_tool_def split: if_splits)
  then show ?thesis using False assms(2) find_split_Some [OF f] find_split_before [OF f] by (simp add: spelled_def)
qed

lemma route_target:
  assumes "route_tool c name input = Inr (Inr t)"
  shows "\<exists>tier. effective_tier c = Inr tier \<and> is_tool_allowed tier name"
    and "spelled name t"
    and "(\<exists>s f. t = ToFunction s f) \<longrightarrow> map_of (ac_covered c) name = None"
    and "t = ToMcp name \<longrightarrow> ac_mcp_pool c"
proof -
  obtain tier where t: "effective_tier c = Inr tier" "is_tool_allowed tier name"
    using assms by (cases "effective_tier c") (auto simp: route_tool_def split: if_splits)
  then show "\<exists>tier. effective_tier c = Inr tier \<and> is_tool_allowed tier name" by blast
  have "name \<notin> set PLATFORM_TOOL_NAMES" using t(2) platform_tool_refused by blast
  moreover have "''run_procedure'' \<in> set PLATFORM_TOOL_NAMES" by code_simp
  ultimately have n: "name \<notin> set PLATFORM_TOOL_NAMES" "name \<noteq> ''run_procedure''" by auto
  have "(\<exists>s f. t = ToFunction s f \<and> parse_tool_name name = Some (s, f) \<and> \<not> prefix ''api__'' name
            \<and> map_of (ac_covered c) name = None)
         \<or> t = ToMcp name \<and> is_mcp_tool name \<and> ac_mcp_pool c \<or> t = ToApi name \<and> prefix ''api__'' name"
    using assms t n by (auto simp: route_tool_def split: if_splits option.splits)
  then have "spelled name t \<and> ((\<exists>s f. t = ToFunction s f) \<longrightarrow> map_of (ac_covered c) name = None)
      \<and> (t = ToMcp name \<longrightarrow> ac_mcp_pool c)"
    using spelled_function by (elim disjE exE conjE) (simp_all add: spelled_def is_mcp_tool_def)
  then show "spelled name t" "(\<exists>s f. t = ToFunction s f) \<longrightarrow> map_of (ac_covered c) name = None"
    "t = ToMcp name \<longrightarrow> ac_mcp_pool c" by blast+
qed

text \<open>
  C1: Every call a run hands to a backend is authorised. The tier that applies to the trigger may
  call the tool, the tool is not restricted, no string of its arguments contains the secret token of
  the run (a url-safe string), and the target is the one the name spells. A name that starts with
  \<open>mcp__\<close> goes to the connected servers, which the agent then has; one that starts with \<open>api__\<close> goes
  to the agent's api; every other name goes to the function it splits into, at its first double
  underscore or else at its first dot, and no procedure covers that name. Platform tools and
  procedures are never reached.\<close>

theorem orchestration_calls_authorised:
  assumes "(name, t, input) \<in> set (oo_trace (run_orchestration c w ctx))"
    and "list_all urlsafe_char (ac_canary c)"
  shows "(\<exists>tier. effective_tier c = Inr tier \<and> is_tool_allowed tier name)
    \<and> name \<notin> set RESTRICTED_AGENT_TOOLS
    \<and> (\<forall>s\<in>set (json_strings (JObj input)). \<not> sublist (ac_canary c) s)
    \<and> (t = ToMcp name \<and> prefix ''mcp__'' name \<and> ac_mcp_pool c
       \<or> t = ToApi name \<and> prefix ''api__'' name
       \<or> (\<exists>s f. t = ToFunction s f \<and> \<not> prefix ''mcp__'' name \<and> \<not> prefix ''api__'' name
            \<and> map_of (ac_covered c) name = None
            \<and> (name = s @ ''__'' @ f \<and> \<not> sublist ''__'' s
               \<or> name = s @ ''.'' @ f \<and> \<not> sublist ''.'' s \<and> \<not> sublist ''__'' name)))"
proof -
  have a: "authorised c (name, t, input)"
    using run_orchestration_ok [of c w ctx] assms(1) by (auto simp: run_ok_def list_all_iff)
  then have r: "route_tool c name input = Inr (Inr t)" "\<not> sublist (ac_canary c) (py_repr (JObj input))"
    by (simp_all add: authorised_def)
  have "\<not> sublist (ac_canary c) s" if "s \<in> set (json_strings (JObj input))" for s
    using py_repr_keeps [OF assms(2) _ that] r(2) by blast
  then show ?thesis using a route_target [OF r(1)] unfolding spelled_def authorised_def by (intro conjI) auto
qed

theorem orchestration_calls_authorised_witness:
  "map fst (oo_trace (run_orchestration (demo_cfg ''manual'') demo_world ''go'')) = [''math__add'']
   \<and> ''math__add'' \<notin> set RESTRICTED_AGENT_TOOLS
   \<and> map_of (ac_covered (demo_cfg ''manual'')) ''math__add'' = None
   \<and> list_all (\<lambda>s. \<not> sublist ''tok-1_A'' s) (json_strings (JObj [(''x'', JInt 1)]))"
proof -
  have m: "(''math__add'', ToFunction ''math'' ''add'', [(''x'', JInt 1)])
          \<in> set (oo_trace (run_orchestration (demo_cfg ''manual'') demo_world ''go''))"
    "list_all urlsafe_char (ac_canary (demo_cfg ''manual''))" "ac_canary (demo_cfg ''manual'') = ''tok-1_A''"
    "map fst (oo_trace (run_orchestration (demo_cfg ''manual'') demo_world ''go'')) = [''math__add'']"
    by code_simp+
  from orchestration_calls_authorised [OF m(1,2)] show ?thesis unfolding m(3) list_all_iff using m(4) by blast
qed

section \<open>Which runs leave a record\<close>

text \<open>The model asks only for tools whose name fits the column \<open>tool_name\<close>.\<close>

fun short_block :: "block \<Rightarrow> bool" where
  "short_block (ToolUse name _ _) \<longleftrightarrow> length name \<le> 255"
| "short_block _ \<longleftrightarrow> True"

definition short_names :: "world \<Rightarrow> bool" where
  "short_names w \<longleftrightarrow> (\<forall>n ms r. w_ai w n ms = AIReply r \<longrightarrow> list_all short_block (ar_blocks r))"

definition short_records :: "orch_state \<Rightarrow> bool" where
  "short_records s \<longleftrightarrow> list_all (\<lambda>r. length (cr_tool r) \<le> 255) (os_records s)"

definition leaves_record :: "orch_out \<Rightarrow> bool" where
  "leaves_record out \<longleftrightarrow> or_outcome (oo_result out) \<in> {None, Some ''limit_hit''}
     \<or> \<not> names_fit (or_functions_called (oo_result out)) \<or> oo_run out \<noteq> None"

lemma short_records_simps [simp]:
  "short_records (s\<lparr>os_messages := m\<rparr>) = short_records s" "short_records (s\<lparr>os_failures := f\<rparr>) = short_records s"
  "short_records (s\<lparr>os_trace := t\<rparr>) = short_records s"
  "short_records (s\<lparr>os_iterations := i, os_tokens := k\<rparr>) = short_records s"
  by (simp_all add: short_records_def)

lemma short_note_reply: "short_records s \<Longrightarrow> length n \<le> 255 \<Longrightarrow> short_records (ba_state (note_reply n i r s rs b))"
  by (simp add: short_records_def note_reply_def Let_def)

lemma dispatch_tool_short: "dispatch_tool c w n i s = (r, s') \<Longrightarrow> short_records s' = short_records s"
  by (auto simp: dispatch_tool_def split: sum.splits)

lemma step_block_short:
  assumes "short_records (ba_state acc)" and "short_block b"
  shows "case step_block c w acc b of
           Inl h \<Rightarrow> short_records (halt_state h) | Inr acc' \<Rightarrow> short_records (ba_state acc')"
proof (cases b)
  case (ToolUse name input i)
  obtain r s' where d: "dispatch_tool c w name input (ba_state acc) = (r, s')" by force
  show ?thesis using assms ToolUse d dispatch_tool_short [OF d]
    by (auto simp: Let_def intro!: short_note_reply split: sum.splits)
qed (use assms in auto)

lemma fold_blocks_short:
  "short_records (ba_state acc) \<Longrightarrow> list_all short_block bs \<Longrightarrow>
   case foldM (step_block c w) acc bs of
     Inl h \<Rightarrow> short_records (halt_state h) | Inr acc' \<Rightarrow> short_records (ba_state acc')"
proof (induction bs arbitrary: acc)
  case (Cons b bs)
  then show ?case using step_block_short [of acc b c w] by (cases "step_block c w acc b") auto
qed simp

lemma leaves_record_results:
  "leaves_record (limit_result e s)" "leaves_record (bare_failure e t)"
  "short_records s \<Longrightarrow> leaves_record (error_result e s)"
  "short_records s \<Longrightarrow> leaves_record (complete_result c bs s)"
  by (auto simp: leaves_record_def result_defs record_run_def short_records_def names_fit_def list_ex_iff list_all_iff)

lemma run_batch_short:
  assumes "short_records s" and "list_all short_block bs"
  shows "case run_batch c w bs s of Inl out \<Rightarrow> leaves_record out | Inr s' \<Rightarrow> short_records s'"
  using fold_blocks_short [of "\<lparr>ba_state = s\<lparr>os_messages := os_messages s @ [AssistantMsg bs]\<rparr>, ba_results = [],
      ba_success = False\<rparr>" bs c w] assms
  unfolding run_batch_def Let_def
  by (auto intro!: leaves_record_results split: sum.splits halt.splits)

lemma orch_loop_leaves_record:
  "short_records s \<Longrightarrow> short_names w \<Longrightarrow> leaves_record (orch_loop c w s)"
proof (induction c w s rule: orch_loop.induct)
  case (1 c w s)
  show ?case
  proof (cases "w_ai w (nat (os_iterations s)) (os_messages s)")
    case (AIRaises e)
    then show ?thesis using "1.prems" leaves_record_results by (subst orch_loop.simps) (auto simp: Let_def)
  next
    case (AIReply r)
    let ?s1 = "s\<lparr>os_iterations := os_iterations s + 1, os_tokens := os_tokens s + ar_tokens r\<rparr>"
    have s1: "short_records ?s1" using "1.prems" by simp
    have b: "list_all short_block (ar_blocks r)" using "1.prems"(2) AIReply by (simp add: short_names_def)
    show ?thesis
      using AIReply leaves_record_results(4) [OF s1] leaves_record_results(1) run_batch_short [OF s1 b, of c w] "1.prems"(2)
        "1.IH" [OF refl _ _ _ AIReply refl]
      by (subst orch_loop.simps) (auto simp: Let_def split: sum.splits)
  qed
qed

lemma run_leaves_record: "short_names w \<Longrightarrow> leaves_record (run_orchestration c w ctx)"
  by (auto simp: run_orchestration_def init_state_def short_records_def
      intro!: leaves_record_results orch_loop_leaves_record)

text \<open>
  C29: What a run reports and records. Its outcome is \<open>completed\<close> or \<open>no_action\<close> exactly when it is a
  success, and otherwise \<open>error\<close>, \<open>limit_hit\<close> or none. A run that hits a limit, or has none because it is
  halted for a leaked token or has no engine, leaves no record. Every other run, failed ones included,
  is recorded, as long as the names of the tools the model asks for and the first ten counted names,
  joined, have at most 255 characters, the width of their columns; with longer joined names it is not.
  The record has the outcome and the status \<open>failed\<close>, \<open>no_action\<close> or \<open>completed\<close> that the result calls
  for, and its audit trail is numbered consecutively from 0 with the counted calls as its successful
  entries, in order. A failed run sends nothing to the channel.\<close>

theorem orchestration_run_recorded:
  fixes c w ctx
  defines "out \<equiv> run_orchestration c w ctx"
  shows "(\<forall>r. oo_run out = Some r \<longrightarrow>
       rr_status r = (if \<not> or_success (oo_result out) then ''failed''
                      else if or_functions_called (oo_result out) = [] then ''no_action'' else ''completed'')
       \<and> or_outcome (oo_result out) = Some (rr_outcome r)
       \<and> map cr_tool (filter (\<lambda>k. cr_status k = ''success'') (rr_calls r)) = or_functions_called (oo_result out)
       \<and> map cr_sequence (rr_calls r) = [0..<length (rr_calls r)]
       \<and> rr_functions_called_count r = length (or_functions_called (oo_result out))
       \<and> length (py_join '', '' (take 10 (or_functions_called (oo_result out)))) \<le> 255)
    \<and> (or_success (oo_result out) \<longleftrightarrow> or_error (oo_result out) = None)
    \<and> (or_success (oo_result out) \<longleftrightarrow> or_outcome (oo_result out) \<in> {Some ''completed'', Some ''no_action''})
    \<and> or_outcome (oo_result out) \<in> {None, Some ''limit_hit'', Some ''error'', Some ''completed'', Some ''no_action''}
    \<and> (\<not> or_success (oo_result out) \<longrightarrow> oo_channel out = None)
    \<and> (or_outcome (oo_result out) \<in> {None, Some ''limit_hit''} \<longrightarrow> oo_run out = None)
    \<and> (short_names w \<longrightarrow> or_outcome (oo_result out) \<notin> {None, Some ''limit_hit''} \<longrightarrow>
         length (py_join '', '' (take 10 (or_functions_called (oo_result out)))) \<le> 255 \<longrightarrow> oo_run out \<noteq> None)"
proof -
  have "reported out" using run_orchestration_ok [of c w ctx] by (simp add: run_ok_def out_def)
  moreover have "short_names w \<longrightarrow> leaves_record out" using run_leaves_record by (simp add: out_def)
  ultimately show ?thesis unfolding reported_def audited_def names_fit_def leaves_record_def
    by (intro conjI allI impI; elim conjE) (simp_all split: option.splits)
qed

text \<open>On a schedule the tier is lower: the same agent may not list agents, and gives up after three rounds.\<close>

definition stuck_world :: world where
  "stuck_world = demo_world\<lparr>w_ai := \<lambda>n ms. AIReply
     \<lparr>ar_tokens = 1, ar_blocks = [ToolUse ''list_agents'' [] ''a''], ar_stop_reason = ''tool_use''\<rparr>\<rparr>"

text \<open>A model that cannot be reached.\<close>

definition failing_world :: world where
  "failing_world = demo_world\<lparr>w_ai := \<lambda>n ms. AIRaises ''unreachable''\<rparr>"

theorem orchestration_run_recorded_witness:
  "(\<exists>r. oo_run (run_orchestration (demo_cfg ''manual'') demo_world ''go'') = Some r \<and> rr_status r = ''completed''
        \<and> map cr_status (rr_calls r) = [''success'', ''error'', ''error''])
   \<and> oo_channel (run_orchestration (demo_cfg ''manual'') demo_world ''go'') = Some (''discord'', ''done'')
   \<and> or_iterations (oo_result (run_orchestration (demo_cfg ''cron'') stuck_world ''go'')) = 3
   \<and> oo_run (run_orchestration (demo_cfg ''cron'') stuck_world ''go'') = None
   \<and> map_option rr_outcome (oo_run (run_orchestration (demo_cfg ''manual'') failing_world ''go'')) = Some ''error''"
proof -
  let ?o = "run_orchestration (demo_cfg ''manual'') demo_world ''go''"
  let ?x = "run_orchestration (demo_cfg ''cron'') stuck_world ''go''"
  have e: "\<not> Option.is_none (oo_run ?o)"
    "map cr_status (rr_calls (the (oo_run ?o))) = [''success'', ''error'', ''error'']"
    "or_success (oo_result ?o)" "or_functions_called (oo_result ?o) = [''math__add'']"
    "oo_channel ?o = Some (''discord'', ''done'')"
    "or_outcome (oo_result ?x) = Some ''limit_hit''" "or_iterations (oo_result ?x) = 3"
    by code_simp+
  from e(1,2) obtain r where r: "oo_run ?o = Some r" "map cr_status (rr_calls r) = [''success'', ''error'', ''error'']"
    by (cases "oo_run ?o") simp_all
  have f: "or_functions_called (oo_result ?o) \<noteq> []" using e(4) by simp
  let ?y = "run_orchestration (demo_cfg ''manual'') failing_world ''go''"
  have y: "or_outcome (oo_result ?y) = Some ''error''"
    "length (py_join '', '' (take 10 (or_functions_called (oo_result ?y)))) \<le> 255" by code_simp+
  have "short_names failing_world" by (simp add: short_names_def failing_world_def)
  then obtain q where q: "oo_run ?y = Some q"
    using orchestration_run_recorded [of "demo_cfg ''manual''" failing_world "''go''"] y by auto
  then have "rr_outcome q = ''error''"
    using orchestration_run_recorded [of "demo_cfg ''manual''" failing_world "''go''"] y(1) by auto
  with q have z: "map_option rr_outcome (oo_run ?y) = Some ''error''" by simp
  have "rr_status r = ''completed''"
    using orchestration_run_recorded [of "demo_cfg ''manual''" demo_world "''go''"] r(1) e(3) f by presburger
  moreover have "oo_run ?x = None"
    using orchestration_run_recorded [of "demo_cfg ''cron''" stuck_world "''go''"] e(6) by blast
  ultimately show ?thesis using r e(5,7) z by (intro conjI exI [of _ r])
qed

end
