(* ===== verification/ProcedureRun.thy ===== *)
theory ProcedureRun
  imports Procedures Orchestrator
begin

text \<open>
  Running a procedure step by step (\<open>run_procedure_orchestration\<close> in \<open>tasks/orchestrator.py\<close>). The
  record \<open>pworld\<close> is what lies outside: the clock and the reply of the model per attempt, the text a
  backend returns for a call, and the decoding of that text as JSON, none of which is assumed
  anything of. The reply may depend on the prompt; since every attempt has its own reply, prompts need
  not be modelled. Timestamps of attempts, logging and telemetry are left out, and an error
  message about a mapping lists only the parameters. A run that raises has the value \<open>RRaised\<close>. The
  transactions of a run follow each other without requests of others in between.
\<close>

section \<open>World, attempts and state\<close>

datatype pai_reply = PReply ai_response | PClientError string | PRaises string

record pworld =
  pw_elapsed_ms :: "nat \<Rightarrow> int"
  pw_ai :: "nat \<Rightarrow> pai_reply"
  pw_backend :: "nat \<Rightarrow> target \<Rightarrow> json_dict \<Rightarrow> string + string"
  pw_loads :: "string \<Rightarrow> json option"
  pw_now :: int

record attempt =
  at_error :: "string option"
  at_input :: "json_dict option"
  at_success :: bool

definition new_attempt :: attempt where
  "new_attempt = \<lparr>at_error = None, at_input = None, at_success = False\<rparr>"

abbreviation failed_attempt :: "string \<Rightarrow> attempt" where
  "failed_attempt e \<equiv> new_attempt\<lparr>at_error := Some e\<rparr>"

record prun =
  pn_ctx :: json_dict
  pn_results :: "json list"
  pn_called :: "string list"
  pn_tokens :: int
  pn_iterations :: int
  pn_attempts :: nat
  pn_trace :: "(string \<times> target \<times> json_dict) list"
  pn_db :: platform_db

datatype run_end = RRaised string prun | RFailed orch_result prun

section \<open>One call\<close>

text \<open>The dispatch gets neither a server pool nor the table of covered functions.\<close>

definition proc_dispatch ::
  "agent_cfg \<Rightarrow> pworld \<Rightarrow> string \<Rightarrow> json_dict \<Rightarrow> (string \<times> target \<times> json_dict) list
   \<Rightarrow> (string + string) \<times> (string \<times> target \<times> json_dict) list" where
  "proc_dispatch c w name input trace =
     (case route_tool (c\<lparr>ac_mcp_pool := False, ac_covered := []\<rparr>) name input of
        Inl _ \<Rightarrow> (Inl ''not a valid ToolTier'', trace)
      | Inr (Inl reply) \<Rightarrow> (Inr reply, trace)
      | Inr (Inr t) \<Rightarrow> (pw_backend w (length trace) t input, trace @ [(name, t, input)]))"

text \<open>Iterating over a value, and membership of a value in the keys of a dict; both may raise.\<close>

fun iter_json :: "json \<Rightarrow> json list option" where
  "iter_json (JArr xs) = Some xs"
| "iter_json (JStr s) = Some (map (\<lambda>c. JStr [c]) s)"
| "iter_json (JObj d) = Some (map (JStr \<circ> fst) d)"
| "iter_json _ = None"

fun key_in :: "json \<Rightarrow> json_dict \<Rightarrow> string + bool" where
  "key_in (JStr k) d = Inr (dict_has d k)"
| "key_in (JArr _) d = Inl ''unhashable''"
| "key_in (JObj _) d = Inl ''unhashable''"
| "key_in _ d = Inr False"

fun absent_keys :: "json list \<Rightarrow> json_dict \<Rightarrow> string + json list" where
  "absent_keys [] d = Inr []"
| "absent_keys (f # fs) d =
     (case key_in f d of
        Inl e \<Rightarrow> Inl e
      | Inr b \<Rightarrow> (case absent_keys fs d of Inl e \<Rightarrow> Inl e | Inr ms \<Rightarrow> Inr (if b then ms else f # ms)))"

definition missing_fields :: "json \<Rightarrow> json \<Rightarrow> string + json list" where
  "missing_fields validation data =
     (case (validation, data) of
        (JObj vd, JObj d) \<Rightarrow>
          (let rf = dict_get vd ''required_fields'' (JArr [])
           in if \<not> truthy rf then Inr []
              else case iter_json rf of None \<Rightarrow> Inl ''not iterable'' | Some fs \<Rightarrow> absent_keys fs d)
      | _ \<Rightarrow> Inr [])"

fun call_blocks ::
  "agent_cfg \<Rightarrow> pworld \<Rightarrow> string \<Rightarrow> json \<Rightarrow> attempt \<Rightarrow> (string \<times> target \<times> json_dict) list \<Rightarrow> block list
   \<Rightarrow> (string \<times> (string \<times> target \<times> json_dict) list)
      + (attempt \<times> (string \<times> target \<times> json_dict) list \<times> json option)" where
  "call_blocks c w tool validation a tr [] = Inr (a, tr, None)"
| "call_blocks c w tool validation a tr (ToolUse name input i # bs) =
     (if name \<noteq> tool then
        call_blocks c w tool validation
          (a\<lparr>at_error := Some (''Called '' @ quoted name @ '' instead of required '' @ quoted tool)\<rparr>) tr bs
      else
        (let a1 = a\<lparr>at_input := Some input\<rparr> in
         case proc_dispatch c w name input tr of
           (Inl e, tr') \<Rightarrow> Inl (e, tr')
         | (Inr reply, tr') \<Rightarrow>
             if is_error_reply reply
             then call_blocks c w tool validation (a1\<lparr>at_error := Some (take 500 reply)\<rparr>) tr' bs
             else
               (let data = (case pw_loads w reply of None \<Rightarrow> JStr reply | Some v \<Rightarrow> v) in
                case missing_fields validation data of
                  Inl e \<Rightarrow> Inl (e, tr')
                | Inr missing \<Rightarrow>
                    if missing \<noteq> []
                    then call_blocks c w tool validation
                           (a1\<lparr>at_error := Some (''Validation failed: missing fields '' @ py_repr (JArr missing))\<rparr>) tr' bs
                    else Inr (a1\<lparr>at_success := True\<rparr>, tr', Some data))))"
| "call_blocks c w tool validation a tr (TextBlock _ # bs) = call_blocks c w tool validation a tr bs"
| "call_blocks c w tool validation a tr (OtherBlock # bs) = call_blocks c w tool validation a tr bs"

section \<open>The attempts of a step\<close>

text \<open>One round of the loop: it raises, breaks, continues, or ends with a result.\<close>

datatype round =
    Raises string prun
  | Breaks attempt prun
  | Continues attempt prun
  | Succeeds attempt json prun

definition attempt_once :: "agent_cfg \<Rightarrow> pworld \<Rightarrow> string \<Rightarrow> json \<Rightarrow> prun \<Rightarrow> round" where
  "attempt_once c w tool validation st =
     (let i = pn_attempts st; st1 = st\<lparr>pn_attempts := Suc i\<rparr> in
      if 1000 * max_execution_seconds (ac_limits c) \<le> pw_elapsed_ms w i
      then Breaks (failed_attempt ''Execution time limit exceeded'') st1
      else case pw_ai w i of
        PRaises e \<Rightarrow> Raises e st1
      | PClientError e \<Rightarrow> Continues (failed_attempt (take 500 e)) st1
      | PReply r \<Rightarrow>
          (let st2 = st1\<lparr>pn_iterations := pn_iterations st1 + 1, pn_tokens := pn_tokens st1 + ar_tokens r\<rparr> in
           if ar_stop_reason r \<noteq> ''tool_use''
           then Continues (failed_attempt ''LLM responded with text instead of calling the required function'') st2
           else case call_blocks c w tool validation new_attempt (pn_trace st2) (ar_blocks r) of
             Inl (e, tr) \<Rightarrow> Raises e (st2\<lparr>pn_trace := tr\<rparr>)
           | Inr (a, tr, None) \<Rightarrow> Continues a (st2\<lparr>pn_trace := tr\<rparr>)
           | Inr (a, tr, Some v) \<Rightarrow> Succeeds a v (st2\<lparr>pn_trace := tr, pn_called := pn_called st2 @ [tool]\<rparr>)))"

fun attempt_loop ::
  "agent_cfg \<Rightarrow> pworld \<Rightarrow> string \<Rightarrow> json \<Rightarrow> nat \<Rightarrow> attempt list \<Rightarrow> prun
   \<Rightarrow> (string \<times> prun) + (attempt list \<times> json option \<times> prun)" where
  "attempt_loop c w tool validation 0 as st = Inr (as, None, st)"
| "attempt_loop c w tool validation (Suc n) as st =
     (case attempt_once c w tool validation st of
        Raises e s \<Rightarrow> Inl (e, s)
      | Breaks a s \<Rightarrow> Inr (as @ [a], None, s)
      | Continues a s \<Rightarrow> attempt_loop c w tool validation n (as @ [a]) s
      | Succeeds a v s \<Rightarrow> Inr (as @ [a], Some v, s))"

section \<open>One step\<close>

record pstep =
  ps_num :: int
  ps_name :: json
  ps_service :: string
  ps_function :: string
  ps_policy :: json
  ps_retries :: int
  ps_validation :: json
  ps_input :: json
  ps_output :: json

definition ps_tool :: "pstep \<Rightarrow> string" where
  "ps_tool p = ps_service p @ ''__'' @ ps_function p"

text \<open>Reading a stored step; a key that is missing or of a wrong type raises.\<close>

definition read_step :: "json_dict \<Rightarrow> pstep option" where
  "read_step step =
     (case (map_of step ''step_number'', map_of step ''name'', map_of step ''function_ref'',
            map_of step ''instructions'', as_int (dict_get step ''max_retries'' (JInt 1))) of
        (Some (JInt n), Some nm, Some (JStr ref), Some _, Some k) \<Rightarrow>
          map_option (\<lambda>(svc, fn).
            \<lparr>ps_num = n, ps_name = nm, ps_service = svc, ps_function = fn,
             ps_policy = dict_get step ''failure_policy'' (JStr ''required''), ps_retries = k,
             ps_validation = dict_get step ''validation'' JNull,
             ps_input = dict_get step ''input_mapping'' JNull,
             ps_output = dict_get step ''output_mapping'' JNull\<rparr>) (find_split ''.'' ref)
      | _ \<Rightarrow> None)"

fun str_mapping :: "json_dict \<Rightarrow> (string \<times> string) list option" where
  "str_mapping [] = Some []"
| "str_mapping ((k, JStr e) # m) = map_option (Cons (k, e)) (str_mapping m)"
| "str_mapping _ = None"

definition opt_str :: "string option \<Rightarrow> json" where
  "opt_str s = (case s of None \<Rightarrow> JNull | Some t \<Rightarrow> JStr t)"

definition attempt_json :: "nat \<Rightarrow> attempt \<Rightarrow> json" where
  "attempt_json i a = JObj ([(''attempt'', JInt (int i)), (''success'', JBool (at_success a)), (''error'', opt_str (at_error a))]
     @ (case at_input a of None \<Rightarrow> [] | Some d \<Rightarrow> [(''tool_input'', JObj d)]))"

definition step_result :: "pstep \<Rightarrow> string \<Rightarrow> json option \<Rightarrow> string option \<Rightarrow> attempt list \<Rightarrow> json" where
  "step_result p status data err as =
     JObj [(''step_number'', JInt (ps_num p)), (''name'', ps_name p), (''status'', JStr status),
           (''function_called'', case data of None \<Rightarrow> JNull | Some _ \<Rightarrow> JStr (ps_tool p)),
           (''result'', case data of None \<Rightarrow> JNull | Some v \<Rightarrow> v), (''error'', opt_str err),
           (''attempt_count'', JInt (int (length as))),
           (''attempts'', JArr (map (\<lambda>(i, a). attempt_json i a) (enumerate1 1 as)))]"

definition ctx_entry :: "pstep \<Rightarrow> string \<Rightarrow> json \<Rightarrow> string \<times> json" where
  "ctx_entry p status v =
     (''step_'' @ int_str (ps_num p), JObj [(''name'', ps_name p), (''status'', JStr status), (''result'', v)])"

definition mapped_output :: "pstep \<Rightarrow> json \<Rightarrow> json option" where
  "mapped_output p v =
     (case (ps_output p, v) of
        (JObj m, JObj d) \<Rightarrow>
          if m = [] then Some v
          else map_option (\<lambda>sm. let ex = fst (apply_output_mapping sm v) in if ex = [] then v else JObj ex)
                 (str_mapping m)
      | _ \<Rightarrow> Some v)"

definition set_execution :: "nat \<Rightarrow> exec_set list \<Rightarrow> prun \<Rightarrow> run_end + prun" where
  "set_execution eid kw st =
     (case res_bind (get_execution (pn_db st) eid) (\<lambda>e. update_execution (pn_db st) e kw) of
        Inl _ \<Rightarrow> Inl (RRaised ''no execution'' st)
      | Inr db \<Rightarrow> Inr (st\<lparr>pn_db := db\<rparr>))"

definition proc_failure :: "string \<Rightarrow> string \<Rightarrow> prun \<Rightarrow> orch_result" where
  "proc_failure txt err st =
     \<lparr>or_success = False, or_final_text = Some txt, or_functions_called = pn_called st,
      or_iterations = pn_iterations st, or_total_tokens = pn_tokens st, or_error = Some err, or_outcome = None\<rparr>"

definition at_step :: "pstep \<Rightarrow> string" where
  "at_step p = int_str (ps_num p) @ '' ('' @ py_str (ps_name p) @ '')''"

text \<open>The input mapping fails: the row, if it still exists, is updated only when the step is required.\<close>

definition mapping_failed :: "pworld \<Rightarrow> nat \<Rightarrow> pstep \<Rightarrow> string list \<Rightarrow> prun \<Rightarrow> run_end + prun" where
  "mapping_failed w eid p params st =
     (let err = ''Input mapping failed: '' @ py_join ''; '' params;
          st1 = st\<lparr>pn_results := pn_results st @ [step_result p ''failed'' None (Some err) []]\<rparr>
      in if ps_policy p \<noteq> JStr ''required'' then Inr st1
         else let kw = [SetStatus ''failed'', SetCompletedAt (pw_now w), SetStepResults (pn_results st1)];
                  st2 = (case set_execution eid kw st1 of Inl _ \<Rightarrow> st1 | Inr s \<Rightarrow> s)
              in Inl (RFailed (proc_failure (''Procedure failed at step '' @ at_step p @ '': input mapping error'') err st2) st2))"

text \<open>The end of a step that was attempted.\<close>

definition finish_step :: "pworld \<Rightarrow> nat \<Rightarrow> pstep \<Rightarrow> attempt list \<Rightarrow> json option \<Rightarrow> prun \<Rightarrow> run_end + prun" where
  "finish_step w eid p as data st =
     (let advance = (\<lambda>status v.
            let e = ctx_entry p status v;
                s = st\<lparr>pn_ctx := AList.update (fst e) (snd e) (pn_ctx st),
                       pn_results := pn_results st @ [step_result p status data None as]\<rparr>
            in set_execution eid [SetCurrentStep (ps_num p), SetStepResults (pn_results s)] s)
      in case data of
           Some v \<Rightarrow> (case mapped_output p v of
                        None \<Rightarrow> Inl (RRaised ''output mapping'' st)
                      | Some o' \<Rightarrow> advance ''success'' o')
         | None \<Rightarrow>
             if ps_policy p = JStr ''skip'' then advance ''skipped'' JNull
             else if ps_policy p = JStr ''allowed'' then advance ''failed'' JNull
             else
               (let s = st\<lparr>pn_results := pn_results st @ [step_result p ''failed'' None None as]\<rparr>;
                    msg = ''Required step '' @ at_step p @ '' failed''
                in case set_execution eid
                     [SetStatus ''failed'', SetCurrentStep (ps_num p), SetStepResults (pn_results s),
                      SetCompletedAt (pw_now w),
                      SetError (msg @ '' after '' @ nat_str (length as) @ '' attempts'')] s of
                     Inl e \<Rightarrow> Inl e
                   | Inr s' \<Rightarrow> Inl (RFailed (proc_failure (''Procedure failed at step '' @ at_step p) msg s') s')))"

definition try_step :: "agent_cfg \<Rightarrow> pworld \<Rightarrow> nat \<Rightarrow> pstep \<Rightarrow> prun \<Rightarrow> run_end + prun" where
  "try_step c w eid p st =
     (case attempt_loop c w (ps_tool p) (ps_validation p) (nat (ps_retries p + 1)) [] st of
        Inl (e, s) \<Rightarrow> Inl (RRaised e s)
      | Inr (as, data, s) \<Rightarrow> finish_step w eid p as data s)"

definition run_step :: "agent_cfg \<Rightarrow> pworld \<Rightarrow> nat \<Rightarrow> prun \<Rightarrow> json_dict \<Rightarrow> run_end + prun" where
  "run_step c w eid st step =
     (case read_step step of
        None \<Rightarrow> Inl (RRaised ''step'' st)
      | Some p \<Rightarrow>
          (case str_mapping (dict_items (ps_input p)) of
             None \<Rightarrow> Inl (RRaised ''input mapping'' st)
           | Some m \<Rightarrow>
               (let errs = snd (resolve_input_mapping m (pn_ctx st))
                in if errs \<noteq> [] then mapping_failed w eid p (map fst errs) st
                   else try_step c w eid p st)))"

section \<open>The run\<close>

text \<open>
  A run ends with an exception or with a result; its last state is kept in both, with the tables and
  with the counts of rounds and calls.
\<close>

datatype proc_out = ProcRaised string prun | ProcDone orch_out prun

fun last_state :: "proc_out \<Rightarrow> prun" where
  "last_state (ProcRaised _ s) = s"
| "last_state (ProcDone _ s) = s"

definition start_run :: "platform_db \<Rightarrow> json_dict option \<Rightarrow> prun" where
  "start_run db input_context =
     \<lparr>pn_ctx = (case input_context of None \<Rightarrow> [] | Some d \<Rightarrow> if d = [] then [] else [(''input'', JObj d)]),
      pn_results = [], pn_called = [], pn_tokens = 0, pn_iterations = 0, pn_attempts = 0, pn_trace = [], pn_db = db\<rparr>"

definition proc_refused :: "string \<Rightarrow> platform_db \<Rightarrow> proc_out" where
  "proc_refused err db = ProcDone (bare_failure err []) (start_run db None)"

definition complete_run :: "agent_cfg \<Rightarrow> pworld \<Rightarrow> string \<Rightarrow> nat \<Rightarrow> json_dict list \<Rightarrow> prun \<Rightarrow> proc_out" where
  "complete_run c w name eid steps st =
     (case set_execution eid
        [SetStatus ''completed'', SetCurrentStep (int (length steps)), SetStepResults (pn_results st),
         SetCompletedAt (pw_now w)] st of
        Inl (RRaised e s) \<Rightarrow> ProcRaised e s
      | Inl (RFailed r s) \<Rightarrow> ProcRaised [] s
      | Inr s \<Rightarrow>
          ProcDone (post_orchestration c
            \<lparr>or_success = True,
             or_final_text = Some (''Procedure '' @ quoted name @ '' completed successfully (''
                               @ nat_str (length steps) @ '' steps)''),
             or_functions_called = pn_called s, or_iterations = pn_iterations s,
             or_total_tokens = pn_tokens s, or_error = None, or_outcome = None\<rparr>
            ((init_state [])\<lparr>os_trace := pn_trace s\<rparr>)) s)"

definition run_steps :: "agent_cfg \<Rightarrow> pworld \<Rightarrow> string \<Rightarrow> nat \<Rightarrow> json_dict list \<Rightarrow> prun \<Rightarrow> proc_out" where
  "run_steps c w name eid steps st =
     (case foldM (run_step c w eid) st steps of
        Inl (RRaised e s) \<Rightarrow> ProcRaised e s
      | Inl (RFailed r s) \<Rightarrow>
          ProcDone \<lparr>oo_result = r, oo_run = None, oo_channel = None, oo_trace = pn_trace s\<rparr> s
      | Inr s \<Rightarrow> complete_run c w name eid steps s)"

definition run_procedure ::
  "agent_cfg \<Rightarrow> pworld \<Rightarrow> platform_db \<Rightarrow> nat \<Rightarrow> nat \<Rightarrow> string \<Rightarrow> string \<Rightarrow> json_dict option \<Rightarrow> proc_out" where
  "run_procedure c w db agent_id namespace_id service_name name input_context =
     (if \<not> ac_has_engine c then proc_refused ''Agent has no AI engine configured'' db
      else case get_procedure db namespace_id service_name name of
        Inl e \<Rightarrow> proc_refused ''Procedure not found'' db
      | Inr p \<Rightarrow>
          (case proc_active_version_obj db p of
             None \<Rightarrow> proc_refused (''No active version for procedure '' @ quoted name) db
           | Some v \<Rightarrow>
               (case create_execution db p (ac_trigger c) (Some agent_id) (map_option JObj input_context) of
                  Inl e \<Rightarrow> ProcRaised ''execution'' (start_run db input_context)
                | Inr (db', e) \<Rightarrow>
                    run_steps c w name (pe_id e) (pv_steps v) (start_run db' input_context))))"

section \<open>What the attempts of a step do\<close>

definition proc_call :: "agent_cfg \<Rightarrow> string \<Rightarrow> string \<times> target \<times> json_dict \<Rightarrow> bool" where
  "proc_call c tool k = (case k of (name, t, input) \<Rightarrow>
     name = tool \<and> route_tool (c\<lparr>ac_mcp_pool := False, ac_covered := []\<rparr>) name input = Inr (Inr t))"

definition calls_only ::
  "agent_cfg \<Rightarrow> string \<Rightarrow> (string \<times> target \<times> json_dict) list \<Rightarrow> (string \<times> target \<times> json_dict) list \<Rightarrow> bool" where
  "calls_only c tool tr tr' \<longleftrightarrow> (\<exists>new. tr' = tr @ new \<and> list_all (proc_call c tool) new)"

lemma calls_only_refl [simp]: "calls_only c tool tr tr"
  by (simp add: calls_only_def)

lemma calls_only_trans: "calls_only c tool tr tr' \<Longrightarrow> calls_only c tool tr' tr'' \<Longrightarrow> calls_only c tool tr tr''"
  unfolding calls_only_def by (metis append.assoc list_all_append)

lemma proc_dispatch_trace: "proc_dispatch c w name input tr = (r, tr') \<Longrightarrow> calls_only c name tr tr'"
  by (auto simp: proc_dispatch_def proc_call_def calls_only_def split: sum.splits)

definition call_trace ::
  "(string \<times> (string \<times> target \<times> json_dict) list) + (attempt \<times> (string \<times> target \<times> json_dict) list \<times> json option)
   \<Rightarrow> (string \<times> target \<times> json_dict) list" where
  "call_trace r = (case r of Inl (e, tr) \<Rightarrow> tr | Inr (a, tr, v) \<Rightarrow> tr)"

lemma call_trace_simps [simp]: "call_trace (Inl (e, tr)) = tr" "call_trace (Inr (a, tr, v)) = tr"
  by (simp_all add: call_trace_def)

lemma call_blocks_trace: "calls_only c tool tr (call_trace (call_blocks c w tool vd a tr bs))"
proof (induction c w tool vd a tr bs rule: call_blocks.induct)
  case (2 c w tool vd a tr name input i bs)
  obtain r tr1 where d: "proc_dispatch c w name input tr = (r, tr1)" by force
  show ?case
  proof (cases "name = tool")
    case True
    have first: "calls_only c tool tr tr1" using proc_dispatch_trace [OF d] True by simp
    show ?thesis
    proof (cases r)
      case (Inr reply)
      let ?data = "case pw_loads w reply of None \<Rightarrow> JStr reply | Some v \<Rightarrow> v"
      note IH = "2.IH"(2,3) [OF _ refl d [symmetric] Inr]
      show ?thesis
        using True d Inr first IH
        by (cases "missing_fields vd ?data") (auto simp: Let_def intro: calls_only_trans [OF first])
    qed (use True d first in auto)
  qed (use "2.IH"(1) in simp)
qed auto

definition attempted :: "agent_cfg \<Rightarrow> string \<Rightarrow> nat \<Rightarrow> bool \<Rightarrow> prun \<Rightarrow> prun \<Rightarrow> bool" where
  "attempted c tool n ok st st' \<longleftrightarrow>
     pn_db st' = pn_db st \<and> pn_ctx st' = pn_ctx st \<and> pn_results st' = pn_results st
     \<and> pn_called st' = pn_called st @ (if ok then [tool] else [])
     \<and> calls_only c tool (pn_trace st) (pn_trace st')
     \<and> pn_attempts st \<le> pn_attempts st' \<and> pn_attempts st' \<le> pn_attempts st + n
     \<and> pn_iterations st \<le> pn_iterations st'
     \<and> pn_iterations st' - pn_iterations st \<le> int (pn_attempts st') - int (pn_attempts st)"

lemma attempted_trans:
  "attempted c tool 1 False st st' \<Longrightarrow> attempted c tool n ok st' st'' \<Longrightarrow> attempted c tool (Suc n) ok st st''"
  unfolding attempted_def by (auto intro: calls_only_trans)

fun round_state :: "round \<Rightarrow> prun" where
  "round_state (Raises e s) = s"
| "round_state (Breaks a s) = s"
| "round_state (Continues a s) = s"
| "round_state (Succeeds a v s) = s"

fun succeeds :: "round \<Rightarrow> bool" where
  "succeeds (Succeeds a v s) = True"
| "succeeds _ = False"

lemma attempt_once_effect:
  "attempted c tool 1 (succeeds (attempt_once c w tool vd st)) st (round_state (attempt_once c w tool vd st))"
proof (cases "pw_ai w (pn_attempts st)")
  case (PReply r)
  note tr = call_blocks_trace [of c tool "pn_trace st" w vd new_attempt "ar_blocks r"]
  show ?thesis using PReply tr
    by (auto simp: attempt_once_def attempted_def Let_def split: sum.splits option.splits)
qed (auto simp: attempt_once_def attempted_def Let_def)

lemma attempt_loop_effect:
  "case attempt_loop c w tool vd n as st of
     Inl (e, st') \<Rightarrow> attempted c tool n False st st'
   | Inr (as', data, st') \<Rightarrow> attempted c tool n (data \<noteq> None) st st' \<and> length as' \<le> length as + n"
proof (induction c w tool vd n as st rule: attempt_loop.induct)
  case (1 c w tool vd as st)
  then show ?case by (simp add: attempted_def)
next
  case (2 c w tool vd n as st)
  note once = attempt_once_effect [of c tool w vd st]
  show ?case
  proof (cases "attempt_once c w tool vd st")
    case (Continues a s)
    have "attempted c tool 1 False st s" using once Continues by simp
    then show ?thesis using "2.IH" [OF Continues] Continues
      by (auto intro: attempted_trans split: sum.splits)
  qed (use once in \<open>auto simp: attempted_def\<close>)
qed


section \<open>The execution row\<close>

lemma fetch_update_row:
  assumes "fetch e (\<lambda>x. rid x = i) rows = Inr x" and "rid y = i"
  shows "fetch e (\<lambda>x. rid x = i) (update_row rid i (\<lambda>_. y) rows) = Inr y"
proof -
  have f: "filter (\<lambda>x. rid x = i) (update_row rid i (\<lambda>_. y) rows) = map (\<lambda>_. y) (filter (\<lambda>x. rid x = i) rows)"
    using assms(2) by (induction rows) (auto simp: update_row_def)
  have "\<exists>z. filter (\<lambda>x. rid x = i) rows = [z]" using assms(1)
    by (cases "filter (\<lambda>x. rid x = i) rows" rule: scalar_one_or_none.cases) (auto simp: fetch_def one_or_none_def)
  then show ?thesis by (auto simp: fetch_def one_or_none_def f)
qed

definition exec_is :: "nat \<Rightarrow> string \<Rightarrow> prun \<Rightarrow> bool" where
  "exec_is eid status st \<longleftrightarrow> ws_inv (pn_db st) \<and> (\<exists>e. get_execution (pn_db st) eid = Inr e \<and> pe_status e = status)"

definition saved :: "nat \<Rightarrow> prun \<Rightarrow> bool" where
  "saved eid st \<longleftrightarrow> (\<exists>e. get_execution (pn_db st) eid = Inr e \<and> pe_step_results e = pn_results st)"

lemma set_execution_Inr:
  assumes "ws_inv (pn_db st)" and "get_execution (pn_db st) eid = Inr e" and "foldM set_exec e kw = Inr e'"
  shows "\<exists>db. set_execution eid kw st = Inr (st\<lparr>pn_db := db\<rparr>) \<and> ws_inv db \<and> get_execution db eid = Inr e'"
proof -
  have e: "pe_id e = eid" using fetch_Inr [OF assms(2) [unfolded get_execution_def]] by simp
  let ?db = "(pn_db st)\<lparr>pexecs := update_row pe_id eid (\<lambda>_. e') (pexecs (pn_db st))\<rparr>"
  have u: "update_execution (pn_db st) e kw = Inr ?db" using assms(3) e by (simp add: update_execution_def)
  have "ws_exec (WProc (PSetExecution eid kw)) (pn_db st) = Inr ?db" using assms(2) u by simp
  then have "ws_inv ?db" by (rule ws_inv_exec [OF assms(1)])
  moreover have "get_execution ?db eid = Inr e'"
    using fetch_update_row [OF assms(2) [unfolded get_execution_def]] set_exec_keeps [OF assms(3)] e
    by (simp add: get_execution_def)
  moreover have "set_execution eid kw st = Inr (st\<lparr>pn_db := ?db\<rparr>)"
    using assms(2) u by (simp add: set_execution_def)
  ultimately show ?thesis by blast
qed

lemma execution_statuses: "''failed'' \<in> set PROCEDURE_EXECUTION_STATUSES" "''completed'' \<in> set PROCEDURE_EXECUTION_STATUSES"
  by code_simp+

section \<open>Progress through the steps\<close>

definition tool_of :: "json_dict \<Rightarrow> string" where
  "tool_of step = (case read_step step of None \<Rightarrow> [] | Some p \<Rightarrow> ps_tool p)"

definition tries_of :: "json_dict \<Rightarrow> nat" where
  "tries_of step = (case read_step step of None \<Rightarrow> 0 | Some p \<Rightarrow> nat (ps_retries p + 1))"

definition required :: "json_dict \<Rightarrow> bool" where
  "required step = (case read_step step of None \<Rightarrow> False | Some p \<Rightarrow> ps_policy p \<notin> {JStr ''skip'', JStr ''allowed''})"

definition status_of :: "json \<Rightarrow> json" where
  "status_of r = dict_get (dict_items r) ''status'' JNull"

lemma status_of_step_result [simp]: "status_of (step_result p status data err as) = JStr status"
  by (simp add: status_of_def step_result_def dict_get_def)

definition run_key :: "string \<Rightarrow> bool" where
  "run_key k = (k = ''input'' \<or> py_startswith k ''step_'')"

definition within :: "agent_cfg \<Rightarrow> json_dict list \<Rightarrow> prun \<Rightarrow> bool" where
  "within c ds st \<longleftrightarrow>
     list_all (\<lambda>k. list_ex (\<lambda>d. proc_call c (tool_of d) k) ds) (pn_trace st)
     \<and> subseq (pn_called st) (map tool_of ds)
     \<and> pn_attempts st \<le> sum_list (map tries_of ds)
     \<and> 0 \<le> pn_iterations st \<and> pn_iterations st \<le> int (pn_attempts st)"

definition progress :: "agent_cfg \<Rightarrow> nat \<Rightarrow> json_dict list \<Rightarrow> prun \<Rightarrow> bool" where
  "progress c eid ds st \<longleftrightarrow>
     within c ds st \<and> list_all (run_key \<circ> fst) (pn_ctx st)
     \<and> list_all2 (\<lambda>d r. required d \<longrightarrow> status_of r = JStr ''success'') ds (pn_results st)
     \<and> exec_is eid ''running'' st"

definition failed_at :: "agent_cfg \<Rightarrow> nat \<Rightarrow> json_dict list \<Rightarrow> json_dict \<Rightarrow> orch_result \<Rightarrow> prun \<Rightarrow> bool" where
  "failed_at c eid ds d r st \<longleftrightarrow>
     within c (ds @ [d]) st \<and> required d \<and> \<not> or_success r \<and> or_functions_called r = pn_called st
     \<and> or_iterations r = pn_iterations st
     \<and> length (pn_results st) = length ds + 1 \<and> status_of (last (pn_results st)) = JStr ''failed''
     \<and> exec_is eid ''failed'' st \<and> saved eid st"

lemma within_more: "within c ds st \<Longrightarrow> within c (ds @ [d]) st"
  by (auto simp: within_def list_all_iff intro: list_emb_append2 subseq_order.trans)

lemma within_attempted:
  assumes "within c ds st" and "read_step d = Some p" and "attempted c (ps_tool p) (nat (ps_retries p + 1)) ok st st'"
  shows "within c (ds @ [d]) st'"
proof -
  obtain new where new: "pn_trace st' = pn_trace st @ new" "list_all (proc_call c (tool_of d)) new"
    using assms(2,3) by (auto simp: attempted_def calls_only_def tool_of_def)
  have "subseq (pn_called st') (map tool_of (ds @ [d]))"
    using assms unfolding within_def attempted_def
    by (auto simp: tool_of_def intro: list_emb_append_mono list_emb_append2)
  then show ?thesis using assms new unfolding within_def attempted_def
    by (auto simp: list_all_iff tries_of_def)
qed

lemma required_iff:
  assumes "validate_step d = Inr ()" and "read_step d = Some p"
  shows "required d \<longleftrightarrow> ps_policy p = JStr ''required''"
proof -
  have "dict_get d ''failure_policy'' (JStr ''required'') \<in> JStr ` set FAILURE_POLICIES"
    using assms(1) by (auto simp: validate_step_def split: if_splits)
  moreover have "ps_policy p = dict_get d ''failure_policy'' (JStr ''required'')"
    using assms(2) by (auto simp: read_step_def split: option.splits json.splits)
  ultimately have "ps_policy p \<in> {JStr ''required'', JStr ''allowed'', JStr ''skip''}"
    by (simp add: FAILURE_POLICIES_def)
  then show ?thesis using assms(2) by (auto simp: required_def)
qed

fun set_ok :: "exec_set \<Rightarrow> bool" where
  "set_ok (SetStatus s) = (s \<in> set PROCEDURE_EXECUTION_STATUSES)"
| "set_ok _ = True"

fun set_status :: "exec_set \<Rightarrow> string \<Rightarrow> string" where
  "set_status (SetStatus s) _ = s"
| "set_status _ s = s"

fun set_results :: "exec_set \<Rightarrow> json list \<Rightarrow> json list" where
  "set_results (SetStepResults r) _ = r"
| "set_results _ r = r"

lemma set_exec_all:
  "list_all set_ok kw \<Longrightarrow> \<exists>e'. foldM set_exec e kw = Inr e' \<and> pe_status e' = fold set_status kw (pe_status e)
     \<and> pe_step_results e' = fold set_results kw (pe_step_results e)"
proof (induction kw arbitrary: e)
  case (Cons k kw)
  obtain e1 where e1: "set_exec e k = Inr e1" "pe_status e1 = set_status k (pe_status e)"
    "pe_step_results e1 = set_results k (pe_step_results e)"
    using Cons.prems by (cases k) auto
  then show ?case using Cons.IH [of e1] Cons.prems by simp
qed simp

lemma exec_is_set:
  assumes "exec_is eid status st" and "list_all set_ok kw"
  shows "\<exists>db e rs. set_execution eid kw st = Inr (st\<lparr>pn_db := db\<rparr>) \<and> ws_inv db \<and> get_execution db eid = Inr e
    \<and> pe_status e = fold set_status kw status \<and> pe_step_results e = fold set_results kw rs"
proof -
  obtain e where e: "ws_inv (pn_db st)" "get_execution (pn_db st) eid = Inr e" "pe_status e = status"
    using assms(1) by (auto simp: exec_is_def)
  obtain e' where e': "foldM set_exec e kw = Inr e'" "pe_status e' = fold set_status kw (pe_status e)"
    "pe_step_results e' = fold set_results kw (pe_step_results e)"
    using set_exec_all [OF assms(2), of e] by blast
  obtain db where "set_execution eid kw st = Inr (st\<lparr>pn_db := db\<rparr>)" "ws_inv db" "get_execution db eid = Inr e'"
    using set_execution_Inr [OF e(1,2) e'(1)] by blast
  then show ?thesis using e' e(3) by blast
qed

lemma mapping_failed_progress:
  assumes "progress c eid ds st" and "validate_step d = Inr ()" and "read_step d = Some p"
  shows "case mapping_failed w eid p ps st of
           Inr st' \<Rightarrow> progress c eid (ds @ [d]) st'
         | Inl (RFailed r s) \<Rightarrow> failed_at c eid ds d r s
         | Inl (RRaised e s) \<Rightarrow> False"
proof -
  have wi: "within c (ds @ [d]) st" using assms(1) by (intro within_more) (simp add: progress_def)
  have run: "exec_is eid ''running'' st" using assms(1) by (simp add: progress_def)
  have len: "length (pn_results st) = length ds" using assms(1) by (auto simp: progress_def list_all2_lengthD)
  let ?err = "''Input mapping failed: '' @ py_join ''; '' ps"
  let ?s = "st\<lparr>pn_results := pn_results st @ [step_result p ''failed'' None (Some ?err) []]\<rparr>"
  have w: "within c (ds @ [d]) ?s" using wi by (simp add: within_def)
  show ?thesis
  proof (cases "ps_policy p = JStr ''required''")
    case True
    have "exec_is eid ''running'' ?s" using run by (simp add: exec_is_def)
    from exec_is_set [OF this, of "[SetStatus ''failed'', SetCompletedAt (pw_now w), SetStepResults (pn_results ?s)]"]
    obtain db e where "set_execution eid [SetStatus ''failed'', SetCompletedAt (pw_now w), SetStepResults (pn_results ?s)] ?s
        = Inr (?s\<lparr>pn_db := db\<rparr>)" "ws_inv db" "get_execution db eid = Inr e"
        "pe_status e = ''failed''" "pe_step_results e = pn_results ?s"
      by (auto simp: execution_statuses)
    then show ?thesis using True w len required_iff [OF assms(2,3)]
      by (simp add: mapping_failed_def Let_def failed_at_def proc_failure_def exec_is_def saved_def within_def)
  next
    case False
    then show ?thesis using w run assms(1) required_iff [OF assms(2,3)]
      by (auto simp: mapping_failed_def Let_def progress_def exec_is_def list_all2_appendI)
  qed
qed


text \<open>The state of a run while a step is attempted: nothing is recorded of that step yet.\<close>

definition trying :: "agent_cfg \<Rightarrow> nat \<Rightarrow> json_dict list \<Rightarrow> json_dict \<Rightarrow> prun \<Rightarrow> bool" where
  "trying c eid ds d st \<longleftrightarrow>
     within c (ds @ [d]) st \<and> list_all (run_key \<circ> fst) (pn_ctx st)
     \<and> list_all2 (\<lambda>d r. required d \<longrightarrow> status_of r = JStr ''success'') ds (pn_results st)
     \<and> exec_is eid ''running'' st"

lemma trying_attempted:
  assumes "progress c eid ds st" and "read_step d = Some p"
    and "attempted c (ps_tool p) (nat (ps_retries p + 1)) ok st st'"
  shows "trying c eid ds d st'"
  using assms within_attempted [OF _ assms(2,3)]
  by (simp add: trying_def progress_def exec_is_def attempted_def)

lemma run_key_update:
  "list_all (run_key \<circ> fst) ctx \<Longrightarrow> run_key k \<Longrightarrow> list_all (run_key \<circ> fst) (AList.update k v ctx)"
  by (induction ctx) auto

lemma run_key_entry: "run_key (fst (ctx_entry p status v))"
  by (simp add: run_key_def ctx_entry_def)

text \<open>Recording the status of the step and going on.\<close>

lemma advance_progress:
  fixes p v data err as
  assumes "trying c eid ds d st" and "required d \<Longrightarrow> status = ''success''"
  defines "e \<equiv> ctx_entry p status v"
  defines "s \<equiv> st\<lparr>pn_ctx := AList.update (fst e) (snd e) (pn_ctx st),
                 pn_results := pn_results st @ [step_result p status data err as]\<rparr>"
  shows "\<exists>s'. set_execution eid [SetCurrentStep (ps_num p), SetStepResults (pn_results s)] s = Inr s'
    \<and> progress c eid (ds @ [d]) s'"
proof -
  have run: "exec_is eid ''running'' s" using assms(1) by (simp add: trying_def exec_is_def s_def)
  from exec_is_set [OF run, of "[SetCurrentStep (ps_num p), SetStepResults (pn_results s)]"]
  obtain db x where db: "set_execution eid [SetCurrentStep (ps_num p), SetStepResults (pn_results s)] s
      = Inr (s\<lparr>pn_db := db\<rparr>)" "ws_inv db" "get_execution db eid = Inr x" "pe_status x = ''running''"
    by auto
  have "list_all (run_key \<circ> fst) (pn_ctx s)"
    using assms(1) run_key_entry [of p status v] by (simp add: trying_def s_def e_def run_key_update)
  moreover have "within c (ds @ [d]) (s\<lparr>pn_db := db\<rparr>)" using assms(1) by (simp add: trying_def within_def s_def)
  moreover have "list_all2 (\<lambda>d r. required d \<longrightarrow> status_of r = JStr ''success'') (ds @ [d]) (pn_results s)"
    using assms(1,2) by (auto simp: trying_def s_def intro!: list_all2_appendI)
  ultimately have "progress c eid (ds @ [d]) (s\<lparr>pn_db := db\<rparr>)"
    using db by (simp add: progress_def exec_is_def)
  then show ?thesis using db(1) by blast
qed

lemma fail_step:
  fixes p as
  assumes "trying c eid ds d st" and "required d"
  defines "s \<equiv> st\<lparr>pn_results := pn_results st @ [step_result p ''failed'' None None as]\<rparr>"
  shows "\<exists>s'. set_execution eid [SetStatus ''failed'', SetCurrentStep (ps_num p), SetStepResults (pn_results s),
             SetCompletedAt t, SetError m] s = Inr s' \<and> failed_at c eid ds d (proc_failure x y s') s'"
proof -
  have run: "exec_is eid ''running'' s" using assms(1) by (simp add: trying_def exec_is_def s_def)
  have len: "length (pn_results st) = length ds" using assms(1) by (auto simp: trying_def list_all2_lengthD)
  from exec_is_set [OF run, of "[SetStatus ''failed'', SetCurrentStep (ps_num p), SetStepResults (pn_results s),
             SetCompletedAt t, SetError m]"]
  obtain db e where db: "set_execution eid [SetStatus ''failed'', SetCurrentStep (ps_num p), SetStepResults (pn_results s),
             SetCompletedAt t, SetError m] s = Inr (s\<lparr>pn_db := db\<rparr>)" "ws_inv db" "get_execution db eid = Inr e"
        "pe_status e = ''failed''" "pe_step_results e = pn_results s"
    by (auto simp: execution_statuses)
  have "within c (ds @ [d]) (s\<lparr>pn_db := db\<rparr>)" using assms(1) by (simp add: trying_def within_def s_def)
  then have "failed_at c eid ds d (proc_failure x y (s\<lparr>pn_db := db\<rparr>)) (s\<lparr>pn_db := db\<rparr>)"
    using db assms(2) len by (simp add: failed_at_def proc_failure_def exec_is_def saved_def s_def)
  then show ?thesis using db(1) by blast
qed

definition step_post :: "agent_cfg \<Rightarrow> nat \<Rightarrow> json_dict list \<Rightarrow> json_dict \<Rightarrow> run_end + prun \<Rightarrow> bool" where
  "step_post c eid ds d res = (case res of
       Inr st' \<Rightarrow> progress c eid (ds @ [d]) st'
     | Inl (RFailed r s) \<Rightarrow> failed_at c eid ds d r s
     | Inl (RRaised e s) \<Rightarrow> within c (ds @ [d]) s \<and> exec_is eid ''running'' s)"

lemma finish_step_post:
  assumes "trying c eid ds d st" and "validate_step d = Inr ()" and "read_step d = Some p"
  shows "step_post c eid ds d (finish_step w eid p as data st)"
proof (cases data)
  case (Some v)
  show ?thesis
  proof (cases "mapped_output p v")
    case None
    then show ?thesis using Some assms(1) by (simp add: finish_step_def Let_def step_post_def trying_def)
  next
    case o: (Some out)
    obtain s' where "set_execution eid [SetCurrentStep (ps_num p), SetStepResults (pn_results st @ [step_result p ''success'' data None as])]
        (st\<lparr>pn_ctx := AList.update (fst (ctx_entry p ''success'' out)) (snd (ctx_entry p ''success'' out)) (pn_ctx st),
            pn_results := pn_results st @ [step_result p ''success'' data None as]\<rparr>) = Inr s'" "progress c eid (ds @ [d]) s'"
      using advance_progress [OF assms(1), where status = "''success''" and p = p and v = out and data = data and err = None and as = as] by auto
    then show ?thesis using Some o by (simp add: finish_step_def Let_def step_post_def)
  qed
next
  case None
  note req = required_iff [OF assms(2,3)]
  have adv: "step_post c eid ds d (set_execution eid [SetCurrentStep (ps_num p), SetStepResults (pn_results st @ [step_result p status None None as])]
        (st\<lparr>pn_ctx := AList.update (fst (ctx_entry p status JNull)) (snd (ctx_entry p status JNull)) (pn_ctx st),
            pn_results := pn_results st @ [step_result p status None None as]\<rparr>))"
    if n: "\<not> required d" for status
    using advance_progress [OF assms(1), where status = status and p = p and v = JNull and data = None and err = None and as = as] n by (auto simp: step_post_def)
  show ?thesis
  proof (cases "required d")
    case True
    let ?msg = "''Required step '' @ at_step p @ '' failed''"
    obtain s' where "set_execution eid [SetStatus ''failed'', SetCurrentStep (ps_num p),
        SetStepResults (pn_results st @ [step_result p ''failed'' None None as]), SetCompletedAt (pw_now w),
        SetError (?msg @ '' after '' @ nat_str (length as) @ '' attempts'')]
        (st\<lparr>pn_results := pn_results st @ [step_result p ''failed'' None None as]\<rparr>) = Inr s'"
      "failed_at c eid ds d (proc_failure (''Procedure failed at step '' @ at_step p) ?msg s') s'"
      using fail_step [OF assms(1) True, where p = p and as = as and t = "pw_now w"
          and m = "?msg @ '' after '' @ nat_str (length as) @ '' attempts''"] by auto
    then show ?thesis using None True req by (simp add: finish_step_def Let_def step_post_def)
  next
    case False
    then have "ps_policy p = JStr ''skip'' \<or> ps_policy p = JStr ''allowed''"
      using assms(3) by (auto simp: required_def)
    then show ?thesis using None adv [OF False] by (auto simp: finish_step_def Let_def)
  qed
qed

lemma run_step_post:
  assumes "progress c eid ds st" and "validate_step d = Inr ()"
  shows "step_post c eid ds d (run_step c w eid st d)"
proof (cases "read_step d")
  case None
  then show ?thesis using assms(1) by (simp add: run_step_def step_post_def progress_def within_more)
next
  case (Some p)
  have raised: "step_post c eid ds d (Inl (RRaised e st))" for e
    using assms(1) by (simp add: step_post_def progress_def within_more)
  have map: "step_post c eid ds d (mapping_failed w eid p ps st)" for ps
    using mapping_failed_progress [OF assms Some, where w = w and ps = ps]
    by (auto simp: step_post_def split: sum.splits run_end.splits)
  let ?loop = "attempt_loop c w (ps_tool p) (ps_validation p) (nat (ps_retries p + 1)) [] st"
  note eff = attempt_loop_effect [where c = c and w = w and tool = "ps_tool p" and vd = "ps_validation p"
      and n = "nat (ps_retries p + 1)" and as = "[]" and st = st]
  have tried: "step_post c eid ds d (try_step c w eid p st)"
  proof (cases ?loop)
    case (Inl x)
    then obtain e s where l: "?loop = Inl (e, s)" by (cases x) auto
    have "trying c eid ds d s" by (rule trying_attempted [OF assms(1) Some]) (use eff l in simp)
    then show ?thesis using l by (simp add: try_step_def step_post_def trying_def)
  next
    case (Inr x)
    then obtain as data s where l: "?loop = Inr (as, data, s)" by (cases x) auto
    have "trying c eid ds d s"
      by (rule trying_attempted [OF assms(1) Some, where ok = "data \<noteq> None"]) (use eff l in simp)
    then show ?thesis using l finish_step_post [OF _ assms(2) Some] by (simp add: try_step_def)
  qed
  show ?thesis using Some raised map tried
    by (cases "str_mapping (dict_items (ps_input p))") (simp_all add: run_step_def Let_def)
qed

section \<open>The whole run\<close>

definition fold_post :: "agent_cfg \<Rightarrow> nat \<Rightarrow> json_dict list \<Rightarrow> json_dict list \<Rightarrow> run_end + prun \<Rightarrow> bool" where
  "fold_post c eid ds ss res = (case res of
       Inr st \<Rightarrow> progress c eid (ds @ ss) st
     | Inl (RFailed r s) \<Rightarrow> (\<exists>pre d post. ss = pre @ d # post \<and> failed_at c eid (ds @ pre) d r s)
     | Inl (RRaised e s) \<Rightarrow> within c (ds @ ss) s \<and> exec_is eid ''running'' s)"

lemma within_append: "within c ds st \<Longrightarrow> within c (ds @ es) st"
proof (induction es arbitrary: ds)
  case (Cons d es)
  from Cons.IH [OF within_more [OF Cons.prems]] show ?case by simp
qed simp

lemma run_steps_fold:
  "progress c eid ds st \<Longrightarrow> list_all (\<lambda>d. validate_step d = Inr ()) ss \<Longrightarrow>
     fold_post c eid ds ss (foldM (run_step c w eid) st ss)"
proof (induction ss arbitrary: ds st)
  case Nil
  then show ?case by (simp add: fold_post_def)
next
  case (Cons d ss)
  have post: "step_post c eid ds d (run_step c w eid st d)" using Cons.prems by (intro run_step_post) simp_all
  show ?case
  proof (cases "run_step c w eid st d")
    case (Inl e)
    then show ?thesis using post within_append [of c "ds @ [d]" _ ss]
      by (cases e) (auto simp: fold_post_def step_post_def intro: exI [of _ "[]"])
  next
    case (Inr s)
    then have "fold_post c eid (ds @ [d]) ss (foldM (run_step c w eid) s ss)"
      using Cons.IH [of "ds @ [d]" s] Cons.prems(2) post by (simp add: step_post_def)
    then show ?thesis using Inr
      by (auto simp: fold_post_def split: sum.splits run_end.splits) (metis append_Cons append_assoc append_Nil)
  qed
qed

lemma start_progress:
  assumes "ws_inv db" and "get_procedure db n svc name = Inr p" and "create_execution db p t a ctx = Inr (db', e)"
  shows "progress c (pe_id e) [] (start_run db' input)"
proof -
  have e: "db' = db\<lparr>pexecs := pexecs db @ [e], next_id := Suc (next_id db)\<rparr>" "pe_id e = next_id db" "pe_status e = ''running''"
    using create_execution_Inr [OF assms(3)] by simp_all
  have old: "x \<in> set (pexecs db) \<Longrightarrow> pe_id x < next_id db" for x
    using assms(1) by (auto simp: ws_inv_def proc_inv_def list_all_iff)
  have "filter (\<lambda>x. pe_id x = next_id db) (pexecs db) = []"
    unfolding filter_empty_conv using old by fastforce
  then have g: "get_execution db' (pe_id e) = Inr e" using e(2) by (simp add: e(1) get_execution_def fetch_def one_or_none_def)
  have "ws_exec (WProc (PExecute n svc name t a ctx)) db = Inr db'" using assms(2,3) by simp
  then have "ws_inv db'" by (rule ws_inv_exec [OF assms(1)])
  then have "exec_is (pe_id e) ''running'' (start_run db' input)"
    using g e(3) by (simp add: exec_is_def start_run_def)
  then show ?thesis
    by (auto simp: progress_def within_def start_run_def run_key_def split: option.splits)
qed

lemma tries_bound:
  assumes "steps_ok ss"
  shows "sum_list (map tries_of ss) \<le> 120"
proof -
  have one: "tries_of d \<le> 6" if d: "d \<in> set ss" for d
  proof (cases "read_step d")
    case (Some p)
    have "validate_step d = Inr ()" using assms d by (simp add: steps_ok_def list_all_iff)
    then have "case as_int (dict_get d ''max_retries'' (JInt 1)) of None \<Rightarrow> False | Some k \<Rightarrow> k \<le> 5"
      by (auto simp: validate_step_def MAX_RETRIES_def split: if_splits option.splits)
    moreover have "as_int (dict_get d ''max_retries'' (JInt 1)) = Some (ps_retries p)"
      using Some by (auto simp: read_step_def split: option.splits json.splits)
    ultimately show ?thesis using Some by (simp add: tries_of_def)
  qed (simp add: tries_of_def)
  have "sum_list (map tries_of ss) \<le> sum_list (map (\<lambda>_. 6) ss)" by (rule sum_list_mono) (rule one)
  also have "\<dots> = 6 * length ss" by (simp add: sum_list_triv)
  also have "\<dots> \<le> 120" using assms by (simp add: steps_ok_def MAX_STEPS_def)
  finally show ?thesis .
qed

text \<open>What is known of the value a run returns.\<close>

definition run_post :: "agent_cfg \<Rightarrow> nat \<Rightarrow> json_dict list \<Rightarrow> proc_out \<Rightarrow> bool" where
  "run_post c eid ss res = (case res of
       ProcRaised e s \<Rightarrow> within c ss s \<and> exec_is eid ''running'' s
     | ProcDone out s \<Rightarrow> oo_trace out = pn_trace s \<and> or_functions_called (oo_result out) = pn_called s
         \<and> or_iterations (oo_result out) = pn_iterations s
         \<and> (if or_success (oo_result out)
            then within c ss s \<and> exec_is eid ''completed'' s \<and> saved eid s
              \<and> list_all2 (\<lambda>d r. required d \<longrightarrow> status_of r = JStr ''success'') ss (pn_results s)
            else \<exists>pre d post. ss = pre @ d # post \<and> failed_at c eid pre d (oo_result out) s))"

lemma complete_run_post:
  assumes "progress c eid ss st"
  shows "run_post c eid ss (complete_run c w name eid ss st)"
proof -
  let ?kw = "[SetStatus ''completed'', SetCurrentStep (int (length ss)), SetStepResults (pn_results st), SetCompletedAt (pw_now w)]"
  have "exec_is eid ''running'' st" using assms by (simp add: progress_def)
  from exec_is_set [OF this, of ?kw]
  obtain db e where db: "set_execution eid ?kw st = Inr (st\<lparr>pn_db := db\<rparr>)" "ws_inv db" "get_execution db eid = Inr e"
      "pe_status e = ''completed''" "pe_step_results e = pn_results st"
    by (auto simp: execution_statuses)
  then show ?thesis using assms unfolding complete_run_def run_post_def
    by (auto simp: post_orchestration_def progress_def within_def exec_is_def saved_def)
qed

lemma run_steps_post:
  assumes "progress c eid [] st" and "list_all (\<lambda>d. validate_step d = Inr ()) ss"
  shows "run_post c eid ss (run_steps c w name eid ss st)"
proof (cases "foldM (run_step c w eid) st ss")
  case (Inl e)
  then show ?thesis using run_steps_fold [OF assms, of w]
    by (cases e) (auto simp: run_steps_def run_post_def fold_post_def failed_at_def)
next
  case (Inr s)
  then show ?thesis using run_steps_fold [OF assms, of w] complete_run_post [of c eid ss s w name]
    by (simp add: run_steps_def fold_post_def)
qed

lemma run_procedure_post:
  assumes "ws_inv db" and "ac_has_engine c" and "get_procedure db n svc name = Inr p"
    and "length (ac_trigger c) \<le> 20"
  shows "\<exists>v. proc_active_version_obj db p = Some v \<and> steps_ok (pv_steps v)
    \<and> run_post c (next_id db) (pv_steps v) (run_procedure c w db a n svc name input)"
proof -
  have pi: "proc_inv db" using assms(1) by (simp add: ws_inv_def)
  have p: "p \<in> set (procs db)" using get_procedure_Inr [OF assms(3)] by simp
  obtain v where v: "proc_active_version_obj db p = Some v" "steps_ok (pv_steps v)"
    using active_version_exists [OF pi p] by blast
  have "pr_id p \<in> set (map pr_id (procs db))" using p by simp
  then obtain db' e where ce: "create_execution db p (ac_trigger c) (Some a) (map_option JObj input) = Inr (db', e)"
    using assms(4) by (auto simp: create_execution_def Let_def)
  have "pe_id e = next_id db" using create_execution_Inr [OF ce] by simp
  moreover have "run_post c (pe_id e) (pv_steps v) (run_steps c w name (pe_id e) (pv_steps v) (start_run db' input))"
    using v(2) by (intro run_steps_post start_progress [OF assms(1,3) ce]) (simp add: steps_ok_def)
  ultimately show ?thesis using assms(2,3) v ce by (simp add: run_procedure_def)
qed

section \<open>Properties of a procedure run\<close>

text \<open>
  C33: The outcome of a procedure run is decided by its required steps, and the execution row says so.
  A run that reports success has completed: the row has one result per step of the active version and
  every required step succeeded in it. A run that reports failure stopped at a required step: the row is
  failed, holds the results up to that step, the last of them failed, and no later step was called. A run
  that raises leaves its row at the status running. The tables keep their integrity throughout.\<close>

theorem procedure_run_outcome:
  assumes "ws_inv db" and "ac_has_engine c" and "get_procedure db n svc name = Inr p"
    and "proc_active_version_obj db p = Some v" and "length (ac_trigger c) \<le> 20"
  shows "case run_procedure c w db a n svc name input of
      ProcRaised err st \<Rightarrow> ws_inv (pn_db st) \<and> (\<exists>e. get_execution (pn_db st) (next_id db) = Inr e \<and> pe_status e = ''running'')
    | ProcDone out st \<Rightarrow> ws_inv (pn_db st) \<and> (\<exists>e. get_execution (pn_db st) (next_id db) = Inr e \<and>
        (if or_success (oo_result out)
         then pe_status e = ''completed''
            \<and> list_all2 (\<lambda>d r. required d \<longrightarrow> status_of r = JStr ''success'') (pv_steps v) (pe_step_results e)
            \<and> subseq (or_functions_called (oo_result out)) (map tool_of (pv_steps v))
         else pe_status e = ''failed'' \<and> (\<exists>pre d post. pv_steps v = pre @ d # post \<and> required d
            \<and> length (pe_step_results e) = length pre + 1 \<and> status_of (last (pe_step_results e)) = JStr ''failed''
            \<and> subseq (or_functions_called (oo_result out)) (map tool_of (pre @ [d])))))"
proof -
  have post: "run_post c (next_id db) (pv_steps v) (run_procedure c w db a n svc name input)"
    using run_procedure_post [OF assms(1-3,5)] assms(4) by auto
  show ?thesis
  proof (cases "run_procedure c w db a n svc name input")
    case (ProcRaised err st)
    then show ?thesis using post by (simp add: run_post_def exec_is_def)
  next
    case (ProcDone out s)
    show ?thesis
    proof (cases "or_success (oo_result out)")
      case True
      then show ?thesis using post ProcDone by (auto simp: run_post_def exec_is_def saved_def within_def)
    next
      case False
      then obtain pre d rest where s: "pv_steps v = pre @ d # rest"
        "failed_at c (next_id db) pre d (oo_result out) s" using post ProcDone by (auto simp: run_post_def)
      then obtain e where "get_execution (pn_db s) (next_id db) = Inr e" "pe_status e = ''failed''"
        "pe_step_results e = pn_results s" by (auto simp: failed_at_def exec_is_def saved_def)
      then show ?thesis using post ProcDone False s by (auto simp: run_post_def failed_at_def exec_is_def within_def)
    qed
  qed
qed

text \<open>Whether it returns or raises, a run stays within a prefix of the steps of the active version.\<close>

lemma run_within:
  assumes "ws_inv db"
  shows "(\<exists>p v ds. get_procedure db n svc name = Inr p \<and> proc_active_version_obj db p = Some v
             \<and> steps_ok (pv_steps v) \<and> prefix ds (pv_steps v)
             \<and> within c ds (last_state (run_procedure c w db a n svc name input)))
         \<or> (\<exists>d i. last_state (run_procedure c w db a n svc name input) = start_run d i)"
proof (cases "ac_has_engine c \<and> length (ac_trigger c) \<le> 20 \<and> \<not> isl (get_procedure db n svc name)")
  case True
  then obtain p where p: "get_procedure db n svc name = Inr p" by (auto elim: not_islE)
  let ?r = "run_procedure c w db a n svc name input"
  obtain v where v: "proc_active_version_obj db p = Some v" "steps_ok (pv_steps v)" "run_post c (next_id db) (pv_steps v) ?r"
    using run_procedure_post [OF assms _ p] True by blast
  have "\<exists>ds. prefix ds (pv_steps v) \<and> within c ds (last_state ?r)"
  proof (cases ?r)
    case (ProcDone out s)
    then have "within c (pv_steps v) s \<or> (\<exists>pre d xs. pv_steps v = (pre @ [d]) @ xs \<and> within c (pre @ [d]) s)"
      using v(3) by (auto simp: run_post_def failed_at_def split: if_splits)
    then show ?thesis using ProcDone by (metis last_state.simps(2) prefix_order.order_refl prefixI)
  qed (use v(3) in \<open>auto simp: run_post_def\<close>)
  then show ?thesis using p v(1,2) by blast
next
  case False
  then show ?thesis
    by (auto simp: run_procedure_def proc_refused_def create_execution_def Let_def split: sum.splits option.splits)
qed

lemma run_result:
  assumes "ws_inv db" and "run_procedure c w db a n svc name input = ProcDone out s"
  shows "oo_trace out = pn_trace s \<and> or_functions_called (oo_result out) = pn_called s
    \<and> or_iterations (oo_result out) = pn_iterations s"
proof (cases "ac_has_engine c \<and> length (ac_trigger c) \<le> 20 \<and> \<not> isl (get_procedure db n svc name)")
  case True
  then obtain p where p: "get_procedure db n svc name = Inr p" by (auto elim: not_islE)
  show ?thesis using run_procedure_post [OF assms(1) _ p, of c w a input] True assms(2) by (auto simp: run_post_def)
next
  case False
  then show ?thesis using assms(2)
    by (auto simp: run_procedure_def proc_refused_def bare_failure_def start_run_def create_execution_def Let_def
        split: sum.splits option.splits if_splits)
qed

text \<open>
  C34: A procedure run ends within fixed bounds, whether it returns or raises. It goes through at most
  120 rounds (20 steps of at most 6 attempts), each of which asks the model at most once, those whose
  request failed included, and it counts at most 20 calls as successful; a result it returns reports
  these calls and the rounds that were answered.\<close>

theorem procedure_run_bounded:
  assumes "ws_inv db"
  shows "case run_procedure c w db a n svc name input of
      ProcRaised err st \<Rightarrow> pn_attempts st \<le> 120 \<and> length (pn_called st) \<le> 20
    | ProcDone out st \<Rightarrow> pn_attempts st \<le> 120 \<and> length (pn_called st) \<le> 20
        \<and> or_iterations (oo_result out) \<le> int (pn_attempts st) \<and> or_functions_called (oo_result out) = pn_called st"
proof -
  let ?r = "run_procedure c w db a n svc name input"
  have "pn_attempts (last_state ?r) \<le> 120 \<and> length (pn_called (last_state ?r)) \<le> 20
      \<and> pn_iterations (last_state ?r) \<le> int (pn_attempts (last_state ?r))"
    using run_within [OF assms, of n svc name c w a input]
  proof (elim disjE exE conjE)
    fix v :: pversion_row and ds assume h: "steps_ok (pv_steps v)" "prefix ds (pv_steps v)" "within c ds (last_state ?r)"
    obtain xs where xs: "pv_steps v = ds @ xs" using h(2) by (auto simp: prefix_def)
    have "length (pv_steps v) \<le> 20" using h(1) by (simp add: steps_ok_def MAX_STEPS_def)
    moreover have "length (pn_called (last_state ?r)) \<le> length ds"
      using h(3) unfolding within_def by (auto dest: list_emb_length)
    moreover have "sum_list (map tries_of ds) \<le> 120" using tries_bound [OF h(1)] xs by simp
    ultimately show ?thesis using h(3) xs by (simp add: within_def)
  qed (simp add: start_run_def)
  then show ?thesis using run_result [OF assms, of c w a n svc name input] by (cases ?r) auto
qed

text \<open>
  C9: In a procedure run, one that raises included, every call that reaches a backend is one that the
  active version prescribes: it goes by the tool name of one of its steps, the agent's tier for the
  trigger allows it, and the target is the one the name spells. A name that starts with \<open>api__\<close> goes to
  the agent's api and every other name to the function it splits into, at its first double underscore
  or else at its first dot; no call reaches an external server.\<close>

theorem procedure_run_calls:
  assumes "ws_inv db"
    and "(tool, t, args) \<in> set (pn_trace (last_state (run_procedure c w db a n svc name input)))"
  shows "\<exists>p v d. get_procedure db n svc name = Inr p \<and> proc_active_version_obj db p = Some v
    \<and> d \<in> set (pv_steps v) \<and> tool = tool_of d
    \<and> (\<exists>tier. effective_tier c = Inr tier \<and> is_tool_allowed tier tool)
    \<and> (t = ToApi tool \<and> prefix ''api__'' tool
       \<or> (\<exists>s f. t = ToFunction s f \<and> \<not> prefix ''mcp__'' tool \<and> \<not> prefix ''api__'' tool
            \<and> (tool = s @ ''__'' @ f \<and> \<not> sublist ''__'' s
               \<or> tool = s @ ''.'' @ f \<and> \<not> sublist ''.'' s \<and> \<not> sublist ''__'' tool)))"
proof -
  obtain p v ds where v: "get_procedure db n svc name = Inr p" "proc_active_version_obj db p = Some v"
    "prefix ds (pv_steps v)" "within c ds (last_state (run_procedure c w db a n svc name input))"
    using run_within [OF assms(1), of n svc name c w a input] assms(2) by (auto simp: start_run_def)
  then obtain d where d: "d \<in> set ds" "proc_call c (tool_of d) (tool, t, args)"
    using assms(2) by (auto simp: within_def list_all_iff list_ex_iff)
  let ?c = "c\<lparr>ac_mcp_pool := False, ac_covered := []\<rparr>"
  have r: "tool = tool_of d" "route_tool ?c tool args = Inr (Inr t)" using d(2) by (auto simp: proc_call_def)
  have "d \<in> set (pv_steps v)" using d(1) v(3) by (auto simp: prefix_def)
  moreover have "effective_tier ?c = effective_tier c" by (simp add: effective_tier_def)
  ultimately show ?thesis using route_target [OF r(2)] r(1) v(1,2) unfolding spelled_def by auto
qed

lemma resolve_step_reference:
  assumes "list_all (run_key \<circ> fst) ctx" and "py_startswith e ''$.steps.''"
  shows "resolve e ctx = Inl (NoKey ''steps'')"
proof -
  obtain r where e: "e = ''$.'' @ ''steps'' @ (CHR ''.'' # r)" using assms(2) by (auto simp: prefix_def)
  have "ident ''steps''" by code_simp
  then have sc: "scan_path (''steps'' @ (CHR ''.'' # r)) = SField ''steps'' # scan_path (CHR ''.'' # r)"
    by (rule scan_ident) (simp add: boundary_def)
  have "\<not> run_key ''steps''" by code_simp
  then have "''steps'' \<notin> fst ` set ctx" using assms(1) by (auto simp: list_all_iff)
  then have "map_of ctx ''steps'' = None" by (simp add: map_of_eq_None_iff)
  moreover have "drop 2 e = ''steps'' @ (CHR ''.'' # r)" "prefix ''$.'' e" by (simp_all add: e)
  ultimately show ?thesis using sc by (simp add: resolve_def)
qed

lemma resolve_mapping_error:
  assumes "(k, e) \<in> set m" and "resolve e ctx = Inl x"
  shows "snd (resolve_input_mapping m ctx) \<noteq> []"
proof -
  have grow: "snd acc \<noteq> [] \<Longrightarrow> snd (foldl (add_resolved ctx) acc m) \<noteq> []" for acc m
    by (induction m arbitrary: acc) (auto split: sum.splits)
  have "snd (foldl (add_resolved ctx) acc m) \<noteq> []" for acc
    using assms(1)
  proof (induction m arbitrary: acc)
    case (Cons y m)
    show ?case
    proof (cases "y = (k, e)")
      case True
      then show ?thesis using assms(2) grow [of "add_resolved ctx acc y" m] by (cases acc) simp
    next
      case False
      then show ?thesis using Cons.IH [of "add_resolved ctx acc y"] Cons.prems by simp
    qed
  qed simp
  then show ?thesis by (simp add: resolve_input_mapping_def)
qed

lemma str_mapping_mem: "str_mapping m = Some sm \<Longrightarrow> (k, JStr e) \<in> set m \<Longrightarrow> (k, e) \<in> set sm"
  by (induction m arbitrary: sm rule: str_mapping.induct) auto

lemma step_reference_fails:
  assumes "progress c eid ds st" and "validate_step d = Inr ()" and "required d"
    and "(k, JStr e) \<in> set (dict_items (dict_get d ''input_mapping'' JNull))" and "py_startswith e ''$.steps.''"
  shows "isl (run_step c w eid st d)"
proof -
  obtain p where p: "read_step d = Some p" using assms(3) by (auto simp: required_def split: option.splits)
  have i: "ps_input p = dict_get d ''input_mapping'' JNull"
    using p by (auto simp: read_step_def split: option.splits json.splits)
  have pol: "ps_policy p = JStr ''required''" using required_iff [OF assms(2) p] assms(3) by simp
  show ?thesis
  proof (cases "str_mapping (dict_items (ps_input p))")
    case (Some m)
    have "(k, e) \<in> set m" using Some assms(4) by (intro str_mapping_mem) (simp_all add: i)
    moreover have "resolve e (pn_ctx st) = Inl (NoKey ''steps'')"
      using assms(1,5) by (intro resolve_step_reference) (simp_all add: progress_def)
    ultimately have "snd (resolve_input_mapping m (pn_ctx st)) \<noteq> []" by (rule resolve_mapping_error)
    then show ?thesis using p Some pol by (simp add: run_step_def mapping_failed_def Let_def)
  qed (use p in \<open>simp add: run_step_def\<close>)
qed

text \<open>
  C35: A reference to an earlier step, the form \<open>$.steps.<name>\<close> that the procedure service accepts and
  checks for order, never resolves: the context of a run has the keys \<open>input\<close> and \<open>step_<number>\<close>
  only. A procedure with such a reference in a required step never succeeds, whatever the model and
  the functions return.\<close>

theorem step_references_never_succeed:
  assumes "ws_inv db" and "get_procedure db n svc name = Inr p" and "proc_active_version_obj db p = Some v"
    and "d \<in> set (pv_steps v)" and "required d"
    and "(k, JStr e) \<in> set (dict_items (dict_get d ''input_mapping'' JNull))" and "py_startswith e ''$.steps.''"
  shows "case run_procedure c w db a n svc name input of
           ProcRaised _ _ \<Rightarrow> True | ProcDone out _ \<Rightarrow> \<not> or_success (oo_result out)"
proof (cases "ac_has_engine c \<and> length (ac_trigger c) \<le> 20")
  case True
  have pr: "p \<in> set (procs db)" using get_procedure_Inr [OF assms(2)] by simp
  have "proc_inv db" using assms(1) by (simp add: ws_inv_def)
  then have ok: "list_all (\<lambda>d. validate_step d = Inr ()) (pv_steps v)"
    using active_version_exists [OF _ pr] assms(3) by (auto simp: steps_ok_def)
  have "pr_id p \<in> set (map pr_id (procs db))" using pr by simp
  then obtain db' e' where ce: "create_execution db p (ac_trigger c) (Some a) (map_option JObj input) = Inr (db', e')"
    using True by (auto simp: create_execution_def Let_def)
  have start: "progress c (pe_id e') [] (start_run db' input)" by (rule start_progress [OF assms(1,2) ce])
  obtain pre rest where sp: "pv_steps v = pre @ d # rest" using assms(4) by (auto simp: in_set_conv_decomp)
  have okp: "list_all (\<lambda>d. validate_step d = Inr ()) pre" and okd: "validate_step d = Inr ()" using ok sp by simp_all
  let ?f = "run_step c w (pe_id e')"
  have "isl (foldM ?f (start_run db' input) (pv_steps v))"
  proof (cases "foldM ?f (start_run db' input) pre")
    case (Inr s)
    then have "progress c (pe_id e') pre s" using run_steps_fold [OF start okp, of w] by (simp add: fold_post_def)
    from step_reference_fails [OF this okd assms(5-7), of w] show ?thesis
      using Inr by (auto simp: sp foldM_append split: sum.splits)
  qed (simp add: sp foldM_append)
  then obtain x where x: "foldM ?f (start_run db' input) (pv_steps v) = Inl x" by (cases "foldM ?f (start_run db' input) (pv_steps v)") auto
  have "fold_post c (pe_id e') [] (pv_steps v) (Inl x)" using run_steps_fold [OF start ok, of w] x by simp
  then show ?thesis using True assms(2,3) ce x
    by (cases x) (auto simp: run_procedure_def run_steps_def fold_post_def failed_at_def)
next
  case False
  then show ?thesis using assms(2,3)
    by (auto simp: run_procedure_def proc_refused_def bare_failure_def create_execution_def Let_def)
qed


subsection \<open>A small instance\<close>

definition plain_steps :: "json_dict list" where
  "plain_steps = map (filter (\<lambda>(k, v). k \<noteq> ''input_mapping'')) sample_steps"

definition plain_made :: "platform_db \<times> procedure_row" where
  "plain_made = projr (create_procedure sample_db 9 ''tools'' ''plain'' plain_steps None None)"

definition plain_db :: platform_db where "plain_db = fst plain_made"

definition plain_version :: pversion_row where
  "plain_version = the (proc_active_version_obj plain_db (snd plain_made))"

lemma plain_inv: "ws_inv plain_db" by code_simp

lemma plain_get: "get_procedure plain_db 9 ''tools'' ''plain'' = Inr (snd plain_made)" by code_simp

lemma plain_active: "proc_active_version_obj plain_db (snd plain_made) = Some plain_version" by code_simp

text \<open>The model answers with text at first, then calls what it is asked to.\<close>

definition demo_pworld :: pworld where
  "demo_pworld =
     \<lparr>pw_elapsed_ms = (\<lambda>n. 10 * int n),
      pw_ai = (\<lambda>n. PReply
        (if n = 0 then \<lparr>ar_tokens = 1, ar_blocks = [TextBlock ''hm''], ar_stop_reason = ''end_turn''\<rparr>
         else \<lparr>ar_tokens = 1, ar_blocks = [ToolUse (if n = 1 then ''tools__ping'' else ''tools__pong'') [] ''a''],
               ar_stop_reason = ''tool_use''\<rparr>)),
      pw_backend = (\<lambda>_ _ _. Inr ''ok''), pw_loads = (\<lambda>_. None), pw_now = 5\<rparr>"

definition demo_run :: proc_out where
  "demo_run = run_procedure (demo_cfg ''manual'') demo_pworld plain_db 1 9 ''tools'' ''plain'' None"

definition demo_out :: orch_out where
  "demo_out = (case demo_run of ProcDone out _ \<Rightarrow> out | ProcRaised _ s \<Rightarrow> bare_failure [] [])"

definition demo_last :: prun where
  "demo_last = last_state demo_run"

lemma demo_run_done: "demo_run = ProcDone demo_out demo_last" by code_simp

lemma demo_agent: "ac_has_engine (demo_cfg ''manual'')" "length (ac_trigger (demo_cfg ''manual'')) \<le> 20" by code_simp+

theorem procedure_run_outcome_witness:
  "or_functions_called (oo_result demo_out) = [''tools__ping'', ''tools__pong'']
   \<and> (\<exists>e. get_execution (pn_db demo_last) (next_id plain_db) = Inr e \<and> pe_status e = ''completed'')"
proof -
  have s: "or_success (oo_result demo_out)" "or_functions_called (oo_result demo_out) = [''tools__ping'', ''tools__pong'']"
    by code_simp+
  show ?thesis
    using procedure_run_outcome [OF plain_inv demo_agent(1) plain_get plain_active demo_agent(2), of demo_pworld 1 None]
      s demo_run_done [unfolded demo_run_def] by auto
qed

theorem procedure_run_bounded_witness:
  "pn_attempts demo_last \<le> 120 \<and> pn_attempts demo_last = 3 \<and> length (pn_called demo_last) = 2"
proof (intro conjI)
  show "pn_attempts demo_last \<le> 120"
    using procedure_run_bounded [OF plain_inv, of "demo_cfg ''manual''" demo_pworld 1 9 "''tools''" "''plain''" None]
      demo_run_done [unfolded demo_run_def] by simp
qed code_simp+

text \<open>The functions return text; one of them raises in the second run, after the first step.\<close>

definition raising_pworld :: pworld where
  "raising_pworld = demo_pworld\<lparr>pw_backend := \<lambda>n _ _. if n = 0 then Inr ''ok'' else Inl ''down''\<rparr>"

definition raising_last :: prun where
  "raising_last = last_state (run_procedure (demo_cfg ''manual'') raising_pworld plain_db 1 9 ''tools'' ''plain'' None)"

theorem procedure_run_calls_witness:
  "pn_trace raising_last = [(''tools__ping'', ToFunction ''tools'' ''ping'', []), (''tools__pong'', ToFunction ''tools'' ''pong'', [])]
   \<and> (\<exists>d. tool_of d = ''tools__pong'' \<and> d \<in> set (pv_steps plain_version))"
proof
  show t: "pn_trace raising_last = [(''tools__ping'', ToFunction ''tools'' ''ping'', []), (''tools__pong'', ToFunction ''tools'' ''pong'', [])]"
    by code_simp
  then have "(''tools__pong'', ToFunction ''tools'' ''pong'', []) \<in> set (pn_trace raising_last)" by simp
  from procedure_run_calls [OF plain_inv this [unfolded raising_last_def]]
  show "\<exists>d. tool_of d = ''tools__pong'' \<and> d \<in> set (pv_steps plain_version)" using plain_get plain_active by auto
qed

definition chained_db :: platform_db where "chained_db = fst sample_procedure"

definition chained_version :: pversion_row where
  "chained_version = the (proc_active_version_obj chained_db (snd sample_procedure))"

theorem step_references_never_succeed_witness:
  "case run_procedure (demo_cfg ''manual'') demo_pworld chained_db 1 9 ''tools'' ''flow'' None of
     ProcRaised _ _ \<Rightarrow> True | ProcDone out _ \<Rightarrow> \<not> or_success (oo_result out)"
proof -
  have c: "ws_inv chained_db" "get_procedure chained_db 9 ''tools'' ''flow'' = Inr (snd sample_procedure)"
    "proc_active_version_obj chained_db (snd sample_procedure) = Some chained_version"
    "pv_steps chained_version ! 1 \<in> set (pv_steps chained_version)" "required (pv_steps chained_version ! 1)"
    "(''x'', JStr ''$.steps.one.result'')
       \<in> set (dict_items (dict_get (pv_steps chained_version ! 1) ''input_mapping'' JNull))"
    "py_startswith ''$.steps.one.result'' ''$.steps.''"
    by code_simp+
  show ?thesis by (rule step_references_never_succeed [OF c])
qed

end
