(* ===== verification/Glob.thy ===== *)
theory Glob
  imports Py_Base
begin

text \<open>
  Shell-style patterns: \<open>fnmatch.fnmatch\<close> of the Python standard library, which the access
  rules and the proxy rules call. \<open>parse_glob\<close> follows \<open>fnmatch.translate\<close> (the case
  normalisation is the identity on the deployment platform), \<open>gmatch\<close> matches the whole
  name, \<open>glob_lang\<close> is the set of names a pattern denotes and \<open>gmatch_lang\<close> says the two
  agree. The interface the rule engines rely on is the locale \<open>name_matcher\<close>.
\<close>

section \<open>Patterns\<close>

datatype gtok = GStar | GAny | GLit char | GSet bool "(char \<times> char) list"

definition in_range :: "char \<Rightarrow> char \<times> char \<Rightarrow> bool" where
  "in_range c r = ((of_char (fst r) :: nat) \<le> of_char c \<and> (of_char c :: nat) \<le> of_char (snd r))"

fun tok_ok :: "gtok \<Rightarrow> char \<Rightarrow> bool" where
  "tok_ok GStar c = False"
| "tok_ok GAny c = True"
| "tok_ok (GLit d) c = (c = d)"
| "tok_ok (GSet neg rs) c = (neg \<noteq> list_ex (in_range c) rs)"

text \<open>
  The body of a bracket expression: an optional \<open>!\<close>, an optional \<open>]\<close>, then everything up
  to the closing \<open>]\<close>; without a closing bracket, \<open>[\<close> stands for itself.
\<close>

definition class_split :: "string \<Rightarrow> (string \<times> string) option" where
  "class_split r =
     (let p1 = (if prefix ''!'' r then ''!'' else []);
          r1 = drop (length p1) r;
          p2 = (if prefix '']'' r1 then '']'' else []);
          r2 = drop (length p2) r1;
          body = takeWhile (\<lambda>c. c \<noteq> CHR '']'') r2
      in if length body = length r2 then None
         else Some (p1 @ p2 @ body, drop (Suc (length body)) r2))"

fun find_hyphen :: "nat \<Rightarrow> string \<Rightarrow> nat option" where
  "find_hyphen off [] = None"
| "find_hyphen (Suc off) (c # cs) = map_option Suc (find_hyphen off cs)"
| "find_hyphen 0 (c # cs) = (if c = CHR ''-'' then Some 0 else map_option Suc (find_hyphen 0 cs))"

lemma find_hyphen_less: "find_hyphen off w = Some m \<Longrightarrow> m < length w"
  by (induction off w arbitrary: m rule: find_hyphen.induct) (auto split: if_splits)

function class_chunks :: "nat \<Rightarrow> string \<Rightarrow> string list" where
  "class_chunks off w =
     (case find_hyphen off w of
        None \<Rightarrow> [w]
      | Some m \<Rightarrow> take m w # class_chunks 2 (drop (Suc m) w))"
  by pat_completeness auto
termination
  by (relation "measure (\<lambda>(off, w). length w)") (auto dest: find_hyphen_less)

declare class_chunks.simps [simp del]

text \<open>An empty last chunk means that the class ends in a literal hyphen.\<close>

fun fix_last :: "string list \<Rightarrow> string list" where
  "fix_last [x, y] = (if y = [] then [x @ ''-''] else [x, y])"
| "fix_last (x # xs) = x # fix_last xs"
| "fix_last [] = []"

text \<open>Empty ranges such as \<open>z-a\<close> are removed from the right.\<close>

fun drop_empty_ranges :: "string list \<Rightarrow> string list" where
  "drop_empty_ranges (x # y # zs) =
     (case drop_empty_ranges (y # zs) of
        [] \<Rightarrow> [x]
      | y' # zs' \<Rightarrow>
          if (of_char (hd y') :: nat) < of_char (last x)
          then (butlast x @ tl y') # zs' else x # y' # zs')"
| "drop_empty_ranges xs = xs"

fun class_ranges :: "string list \<Rightarrow> (char \<times> char) list" where
  "class_ranges (x # y # zs) = map (\<lambda>c. (c, c)) x @ (last x, hd y) # class_ranges (y # zs)"
| "class_ranges [x] = map (\<lambda>c. (c, c)) x"
| "class_ranges [] = []"

definition class_tok :: "string \<Rightarrow> gtok" where
  "class_tok w =
     (let cs = (if CHR ''-'' \<in> set w
                then drop_empty_ranges (fix_last (class_chunks (if prefix ''!'' w then 2 else 1) w))
                else [w])
      in if cs = [[]] then GSet False []
         else if cs = [''!''] then GAny
         else if prefix ''!'' (hd cs) then GSet True (class_ranges (tl (hd cs) # tl cs))
         else GSet False (class_ranges cs))"

lemma class_split_length: "class_split r = Some (w, rest) \<Longrightarrow> length rest \<le> length r"
  by (auto simp: class_split_def Let_def split: if_splits)

function parse_glob :: "string \<Rightarrow> gtok list" where
  "parse_glob [] = []"
| "parse_glob (c # cs) =
     (if c = CHR ''*'' then GStar # parse_glob cs
      else if c = CHR ''?'' then GAny # parse_glob cs
      else if c = CHR ''['' then
        (case class_split cs of
           None \<Rightarrow> GLit c # parse_glob cs
         | Some (w, rest) \<Rightarrow> class_tok w # parse_glob rest)
      else GLit c # parse_glob cs)"
  by pat_completeness auto
termination
  by (relation "measure length") (auto dest: class_split_length)

fun gmatch :: "gtok list \<Rightarrow> string \<Rightarrow> bool" where
  "gmatch [] s = (s = [])"
| "gmatch (GStar # ts) [] = gmatch ts []"
| "gmatch (GStar # ts) (c # cs) = (gmatch ts (c # cs) \<or> gmatch (GStar # ts) cs)"
| "gmatch (t # ts) [] = False"
| "gmatch (t # ts) (c # cs) = (tok_ok t c \<and> gmatch ts cs)"

definition fnmatch :: "string \<Rightarrow> string \<Rightarrow> bool" where
  "fnmatch name pat = gmatch (parse_glob pat) name"

section \<open>What a pattern denotes\<close>

fun glob_lang :: "gtok list \<Rightarrow> string set" where
  "glob_lang [] = {[]}"
| "glob_lang (GStar # ts) = {u @ v | u v. v \<in> glob_lang ts}"
| "glob_lang (t # ts) = {c # v | c v. tok_ok t c \<and> v \<in> glob_lang ts}"

lemma gmatch_star_iff: "gmatch (GStar # ts) s \<longleftrightarrow> (\<exists>u v. s = u @ v \<and> gmatch ts v)"
proof (induction s)
  case Nil
  then show ?case by simp
next
  case (Cons c cs)
  show ?case (is "?L \<longleftrightarrow> ?R")
  proof
    assume ?L
    then have "gmatch ts (c # cs) \<or> gmatch (GStar # ts) cs" by simp
    then consider "gmatch ts (c # cs)" | "gmatch (GStar # ts) cs" by blast
    then show ?R
    proof cases
      case 1
      then show ?thesis by (metis append_Nil)
    next
      case 2
      with Cons.IH obtain u v where "cs = u @ v" "gmatch ts v" by blast
      then show ?thesis by (metis append_Cons)
    qed
  next
    assume ?R
    then obtain u v where uv: "c # cs = u @ v" "gmatch ts v" by blast
    show ?L
    proof (cases u)
      case Nil
      with uv have "gmatch ts (c # cs)" by simp
      then show ?thesis by simp
    next
      case (Cons d u')
      with uv have "gmatch (GStar # ts) cs" using Cons.IH by auto
      then show ?thesis by simp
    qed
  qed
qed

lemma gmatch_lang: "gmatch ts s \<longleftrightarrow> s \<in> glob_lang ts"
proof (induction ts arbitrary: s)
  case Nil
  then show ?case by simp
next
  case (Cons t ts)
  show ?case
  proof (cases "t = GStar")
    case True
    then show ?thesis by (auto simp: gmatch_star_iff Cons.IH)
  next
    case False
    then have "gmatch (t # ts) s \<longleftrightarrow> (\<exists>c v. s = c # v \<and> tok_ok t c \<and> gmatch ts v)"
      by (cases t; cases s) auto
    moreover have "s \<in> glob_lang (t # ts) \<longleftrightarrow> (\<exists>c v. s = c # v \<and> tok_ok t c \<and> v \<in> glob_lang ts)"
      using False by (cases t) auto
    ultimately show ?thesis by (simp add: Cons.IH)
  qed
qed

definition glob_plain :: "string \<Rightarrow> bool" where
  "glob_plain p = list_all (\<lambda>c. c \<noteq> CHR ''*'' \<and> c \<noteq> CHR ''?'' \<and> c \<noteq> CHR ''['') p"

lemma parse_glob_plain: "glob_plain p \<Longrightarrow> parse_glob (p @ q) = map GLit p @ parse_glob q"
  by (induction p) (auto simp: glob_plain_def)

lemma gmatch_lits: "gmatch (map GLit p @ ts) s \<longleftrightarrow> (\<exists>v. s = p @ v \<and> gmatch ts v)"
proof (induction p arbitrary: s)
  case Nil
  then show ?case by simp
next
  case (Cons c p)
  then show ?case by (cases s) auto
qed

lemma fnmatch_star [simp]: "fnmatch s ''*''"
proof -
  have "gmatch [GStar] s" by (induction s) auto
  then show ?thesis by (simp add: fnmatch_def)
qed

lemma fnmatch_plain: "glob_plain p \<Longrightarrow> fnmatch s p \<longleftrightarrow> s = p"
  using parse_glob_plain [of p "[]"] gmatch_lits [of p "[]" s]
  by (auto simp: fnmatch_def)

lemma fnmatch_plain_star: "glob_plain p \<Longrightarrow> fnmatch s (p @ ''*'') \<longleftrightarrow> py_startswith s p"
proof -
  assume p: "glob_plain p"
  have "fnmatch s (p @ ''*'') \<longleftrightarrow> (\<exists>v. s = p @ v \<and> gmatch [GStar] v)"
    unfolding fnmatch_def parse_glob_plain [OF p] by (simp add: gmatch_lits)
  then show ?thesis
    using fnmatch_star by (auto simp: fnmatch_def prefix_def)
qed

section \<open>The interface of the rule engines\<close>

locale name_matcher =
  fixes matches :: "string \<Rightarrow> string \<Rightarrow> bool" and plain :: "string \<Rightarrow> bool"
  assumes matches_star: "matches s ''*''"
    and matches_plain: "plain p \<Longrightarrow> matches s p \<longleftrightarrow> s = p"
    and matches_plain_star: "plain p \<Longrightarrow> matches s (p @ ''*'') \<longleftrightarrow> py_startswith s p"
begin

lemma any_star: "''*'' \<in> set ps \<Longrightarrow> list_ex (matches s) ps"
  by (auto simp: list_ex_iff intro: matches_star)

lemma any_plain: "\<forall>p\<in>set ps. plain p \<Longrightarrow> list_ex (matches s) ps \<longleftrightarrow> s \<in> set ps"
  by (auto simp: list_ex_iff matches_plain)

lemma plain_disjoint: "plain p \<Longrightarrow> plain q \<Longrightarrow> matches s p \<Longrightarrow> matches s q \<Longrightarrow> p = q"
  by (simp add: matches_plain)

end

interpretation glob: name_matcher fnmatch glob_plain
  by unfold_locales (simp_all add: fnmatch_plain fnmatch_plain_star)

end
