(* ===== verification/AgentAccess.thy ===== *)
theory AgentAccess
  imports Glob
begin

text \<open>
  The access rules of an agent (\<open>core/agent_access.py\<close>): \<open>check_function_access\<close>,
  \<open>check_state_access\<close> and \<open>filter_state_keys\<close>. A rule is a record; a key that the code reads
  with \<open>get\<close> and no default is an option, \<open>patterns\<close> is empty when absent. The key \<open>min_trust_score\<close> is absent or
  an integer: the handler that adds rules stores nothing else. \<open>List.find\<close> is the
  pair of nested loops with their early exit: the first rule one of whose patterns matches.
\<close>

record access_rule =
  ar_id :: "string option"
  ar_type :: "string option"
  ar_patterns :: "string list"
  ar_min_trust :: "int option"

record access_rules =
  function_rules :: "access_rule list"
  state_rules :: "access_rule list"

definition rule_matches :: "string \<Rightarrow> access_rule \<Rightarrow> bool" where
  "rule_matches name r = list_ex (fnmatch name) (ar_patterns r)"

definition rules_of :: "string \<Rightarrow> access_rule list \<Rightarrow> access_rule list" where
  "rules_of ty rs = filter (\<lambda>r. ar_type r = Some ty) rs"

definition qualified_name :: "string \<Rightarrow> string \<Rightarrow> string" where
  "qualified_name service_name function_name = service_name @ ''.'' @ function_name"

definition check_function_access ::
  "access_rules option \<Rightarrow> string \<Rightarrow> string \<Rightarrow> int option \<Rightarrow> bool \<times> string option" where
  "check_function_access access_rules service_name function_name trust_score =
     (case access_rules of
        None \<Rightarrow> (True, None)
      | Some ar \<Rightarrow>
        if function_rules ar = [] then (True, None)
        else
          let q = qualified_name service_name function_name;
              deny_service_rules = rules_of ''deny_services'' (function_rules ar);
              deny_function_rules = rules_of ''deny_functions'' (function_rules ar);
              allow_service_rules = rules_of ''allow_services'' (function_rules ar);
              allow_function_rules = rules_of ''allow_functions'' (function_rules ar)
          in case find (rule_matches service_name) deny_service_rules of
               Some r \<Rightarrow> (False, ar_id r)
             | None \<Rightarrow>
               (case find (rule_matches q) deny_function_rules of
                  Some r \<Rightarrow> (False, ar_id r)
                | None \<Rightarrow>
                  if allow_service_rules \<noteq> []
                     \<and> find (rule_matches service_name) allow_service_rules = None
                  then (False, ar_id (hd allow_service_rules))
                  else if allow_function_rules \<noteq> [] then
                    (case find (rule_matches q) allow_function_rules of
                       None \<Rightarrow> (False, ar_id (hd allow_function_rules))
                     | Some r \<Rightarrow>
                       (case trust_score of
                          None \<Rightarrow> (True, None)
                        | Some t \<Rightarrow>
                          if t < (case ar_min_trust r of None \<Rightarrow> 0 | Some m \<Rightarrow> m)
                          then (False, ar_id r) else (True, None)))
                  else (True, None)))"

definition check_state_access :: "access_rules option \<Rightarrow> string \<Rightarrow> bool \<times> string option" where
  "check_state_access access_rules key =
     (case access_rules of
        None \<Rightarrow> (True, None)
      | Some ar \<Rightarrow>
        if state_rules ar = [] then (True, None)
        else
          let deny_rules = rules_of ''deny_keys'' (state_rules ar);
              allow_rules = rules_of ''allow_keys'' (state_rules ar)
          in case find (rule_matches key) deny_rules of
               Some r \<Rightarrow> (False, ar_id r)
             | None \<Rightarrow>
               if allow_rules \<noteq> [] \<and> find (rule_matches key) allow_rules = None
               then (False, ar_id (hd allow_rules)) else (True, None))"

definition filter_state_keys :: "access_rules option \<Rightarrow> string list \<Rightarrow> string list" where
  "filter_state_keys access_rules keys =
     (case access_rules of
        None \<Rightarrow> keys
      | Some ar \<Rightarrow> filter (\<lambda>k. fst (check_state_access (Some ar) k)) keys)"

section \<open>The policy the engine implements\<close>

text \<open>
  The declarative reading of a rule set: a request is denied by any matching deny rule, and
  restricted by the allow rules of a kind only when there are any.
\<close>

definition denied_by :: "string \<Rightarrow> string \<Rightarrow> access_rule list \<Rightarrow> bool" where
  "denied_by ty name rs = (\<exists>r\<in>set rs. ar_type r = Some ty \<and> rule_matches name r)"

definition permitted_by :: "string \<Rightarrow> string \<Rightarrow> access_rule list \<Rightarrow> bool" where
  "permitted_by ty name rs =
     ((\<exists>r\<in>set rs. ar_type r = Some ty) \<longrightarrow> (\<exists>r\<in>set rs. ar_type r = Some ty \<and> rule_matches name r))"

definition trust_gate :: "string \<Rightarrow> access_rule list \<Rightarrow> int option \<Rightarrow> bool" where
  "trust_gate q rs t =
     (case (find (rule_matches q) (rules_of ''allow_functions'' rs), t) of
        (Some r, Some s) \<Rightarrow> (case ar_min_trust r of None \<Rightarrow> 0 | Some m \<Rightarrow> m) \<le> s
      | _ \<Rightarrow> True)"

lemma find_rules_None:
  "find (rule_matches name) (rules_of ty rs) = None \<longleftrightarrow> \<not> denied_by ty name rs"
  by (auto simp: find_None_iff rules_of_def denied_by_def)

lemma find_rules_Some:
  "find (rule_matches name) (rules_of ty rs) = Some r \<Longrightarrow>
     r \<in> set rs \<and> ar_type r = Some ty \<and> rule_matches name r"
  by (auto simp: find_Some_iff rules_of_def dest!: arg_cong [where f = set] nth_mem)

lemma permitted_by_iff:
  "permitted_by ty name rs \<longleftrightarrow> rules_of ty rs = [] \<or> find (rule_matches name) (rules_of ty rs) \<noteq> None"
  unfolding find_rules_None
  by (auto simp: permitted_by_def denied_by_def rules_of_def filter_empty_conv)

lemma denied_by_append [simp]:
  "denied_by ty name (rs @ rs') \<longleftrightarrow> denied_by ty name rs \<or> denied_by ty name rs'"
  by (auto simp: denied_by_def)

lemma rules_of_append [simp]: "rules_of ty (rs @ rs') = rules_of ty rs @ rules_of ty rs'"
  by (simp add: rules_of_def)

lemma rules_of_other: "ar_type r \<noteq> Some ty \<Longrightarrow> rules_of ty [r] = []"
  by (simp add: rules_of_def)

lemma rules_of_Nil [simp]: "rules_of ty [] = []"
  by (simp add: rules_of_def)

lemma function_access_iff:
  "fst (check_function_access (Some ar) s f t) \<longleftrightarrow>
     \<not> denied_by ''deny_services'' s (function_rules ar)
     \<and> \<not> denied_by ''deny_functions'' (qualified_name s f) (function_rules ar)
     \<and> permitted_by ''allow_services'' s (function_rules ar)
     \<and> permitted_by ''allow_functions'' (qualified_name s f) (function_rules ar)
     \<and> trust_gate (qualified_name s f) (function_rules ar) t"
proof (cases "function_rules ar = []")
  case True
  then show ?thesis
    by (simp add: check_function_access_def denied_by_def permitted_by_def trust_gate_def)
next
  case False
  then show ?thesis
    unfolding check_function_access_def trust_gate_def permitted_by_iff find_rules_None [symmetric]
    by (auto simp: Let_def split: option.splits)
qed

lemma state_access_iff:
  "fst (check_state_access (Some ar) k) \<longleftrightarrow>
     \<not> denied_by ''deny_keys'' k (state_rules ar) \<and> permitted_by ''allow_keys'' k (state_rules ar)"
proof (cases "state_rules ar = []")
  case True
  then show ?thesis by (simp add: check_state_access_def denied_by_def permitted_by_def)
next
  case False
  then show ?thesis
    unfolding check_state_access_def permitted_by_iff find_rules_None [symmetric]
    by (auto simp: Let_def split: option.splits)
qed

text \<open>
  C2: The engine implements the declarative policy. With a rule set, a call is allowed exactly
  when no deny rule matches the service or the qualified name, the allow rules of either kind
  (if there are any) admit it, and the trust score reaches the minimum of the first allow rule
  that matches.
\<close>

theorem check_function_access_policy:
  "fst (check_function_access (Some ar) s f t) \<longleftrightarrow>
     \<not> denied_by ''deny_services'' s (function_rules ar)
     \<and> \<not> denied_by ''deny_functions'' (qualified_name s f) (function_rules ar)
     \<and> permitted_by ''allow_services'' s (function_rules ar)
     \<and> permitted_by ''allow_functions'' (qualified_name s f) (function_rules ar)
     \<and> trust_gate (qualified_name s f) (function_rules ar) t"
  by (rule function_access_iff)

text \<open>
  C13: A matching deny rule wins. If any \<open>deny_services\<close> rule matches the service or any
  \<open>deny_functions\<close> rule matches the qualified name, the call is refused whatever allow rules
  and trust score the agent has, and the reported rule is one of the deny rules that match.
\<close>

theorem deny_takes_precedence:
  assumes "denied_by ''deny_services'' s (function_rules ar)
         \<or> denied_by ''deny_functions'' (qualified_name s f) (function_rules ar)"
  shows "\<exists>r\<in>set (function_rules ar).
           check_function_access (Some ar) s f t = (False, ar_id r)
           \<and> (ar_type r = Some ''deny_services'' \<and> rule_matches s r
              \<or> ar_type r = Some ''deny_functions'' \<and> rule_matches (qualified_name s f) r)"
proof (cases "find (rule_matches s) (rules_of ''deny_services'' (function_rules ar))")
  case (Some r)
  then have "function_rules ar \<noteq> []" by (auto dest: find_rules_Some)
  with Some find_rules_Some [OF Some] show ?thesis
    by (auto simp: check_function_access_def Let_def)
next
  case None
  with assms have "find (rule_matches (qualified_name s f))
      (rules_of ''deny_functions'' (function_rules ar)) \<noteq> None"
    by (simp add: find_rules_None)
  then obtain r where r: "find (rule_matches (qualified_name s f))
      (rules_of ''deny_functions'' (function_rules ar)) = Some r"
    by blast
  then have "function_rules ar \<noteq> []" by (auto dest: find_rules_Some)
  with None r find_rules_Some [OF r] show ?thesis
    by (auto simp: check_function_access_def Let_def)
qed

definition sample_rules :: access_rules where
  "sample_rules =
     \<lparr>function_rules =
        [\<lparr>ar_id = Some ''a'', ar_type = Some ''allow_functions'', ar_patterns = [''*''],
          ar_min_trust = Some 400\<rparr>,
         \<lparr>ar_id = Some ''d'', ar_type = Some ''deny_functions'', ar_patterns = [''db.*''],
          ar_min_trust = None\<rparr>],
      state_rules =
        [\<lparr>ar_id = Some ''k'', ar_type = Some ''deny_keys'', ar_patterns = [''__*''],
          ar_min_trust = None\<rparr>]\<rparr>"

theorem deny_takes_precedence_witness:
  "\<exists>r\<in>set (function_rules sample_rules).
     check_function_access (Some sample_rules) ''db'' ''drop'' (Some 900) = (False, ar_id r)"
  using deny_takes_precedence [of "''db''" sample_rules "''drop''" "Some 900"]
  by (auto simp: sample_rules_def denied_by_def rule_matches_def fnmatch_def qualified_name_def)

text \<open>
  C14: Tightening a rule set is safe. After one more deny rule is appended, every call the agent
  may still make was allowed before; and a call allowed with one trust score is allowed with every
  higher one.
\<close>

theorem access_monotone:
  assumes "ar_type r = Some ''deny_services'' \<or> ar_type r = Some ''deny_functions''"
    and "t \<le> t'"
    and "fst (check_function_access
               (Some (ar\<lparr>function_rules := function_rules ar @ [r]\<rparr>)) s f (Some t))"
  shows "fst (check_function_access (Some ar) s f (Some t'))"
proof -
  have "rules_of ''allow_services'' [r] = []" "rules_of ''allow_functions'' [r] = []"
    using assms(1) by (auto intro: rules_of_other)
  then have "trust_gate (qualified_name s f) (function_rules ar @ [r]) (Some t)
      \<Longrightarrow> trust_gate (qualified_name s f) (function_rules ar) (Some t')"
    and "permitted_by ''allow_services'' s (function_rules ar @ [r])
      \<longleftrightarrow> permitted_by ''allow_services'' s (function_rules ar)"
    and "permitted_by ''allow_functions'' (qualified_name s f) (function_rules ar @ [r])
      \<longleftrightarrow> permitted_by ''allow_functions'' (qualified_name s f) (function_rules ar)"
    using assms(2) by (auto simp: trust_gate_def permitted_by_iff split: option.splits)
  with assms(3) show ?thesis by (simp add: function_access_iff)
qed

theorem access_monotone_witness:
  "fst (check_function_access (Some sample_rules) ''mail'' ''send'' (Some 600))"
proof (rule access_monotone [where t = 500 and
      r = "\<lparr>ar_id = None, ar_type = Some ''deny_services'', ar_patterns = [''db''], ar_min_trust = None\<rparr>"])
  show "fst (check_function_access (Some (sample_rules\<lparr>function_rules := function_rules sample_rules @
      [\<lparr>ar_id = None, ar_type = Some ''deny_services'', ar_patterns = [''db''], ar_min_trust = None\<rparr>]\<rparr>))
      ''mail'' ''send'' (Some 500))"
    by (simp add: sample_rules_def check_function_access_def rules_of_def rule_matches_def
        fnmatch_def qualified_name_def)
qed simp_all

text \<open>
  C15: Listing state keys leaks nothing and hides nothing. The filtered list holds exactly the
  keys the state rules admit, in the original order, and filtering it again changes nothing.
\<close>

theorem filter_state_keys_exact:
  "filter_state_keys (Some ar) keys =
     filter (\<lambda>k. \<not> denied_by ''deny_keys'' k (state_rules ar)
               \<and> permitted_by ''allow_keys'' k (state_rules ar)) keys
   \<and> filter_state_keys (Some ar) (filter_state_keys (Some ar) keys) = filter_state_keys (Some ar) keys"
  by (simp add: filter_state_keys_def state_access_iff)

end
