(* ===== verification/ReplicaNames.thy ===== *)
theory ReplicaNames
  imports Exceptions "HOL-Library.Multiset"
begin

text \<open>
  The names of replicas (\<open>core/replica_names.py\<close>). What \<open>random\<close> draws is an argument:
  \<open>random.choice\<close> takes the element at a drawn number modulo the length, and \<open>random.shuffle\<close> is
  the exchange of every position, from the last one down, with a drawn position not above it.
  The generator returns an unused name of the pool whenever there is one.
\<close>

definition VERBS :: "string list" where
  "VERBS =
     [''bold'', ''brave'', ''bright'', ''brisk'', ''calm'', ''clear'', ''clever'', ''cool'',
      ''crisp'', ''daring'', ''eager'', ''even'', ''fair'', ''fast'', ''fierce'', ''firm'',
      ''fleet'', ''fluid'', ''frank'', ''fresh'', ''glad'', ''grand'', ''great'', ''keen'',
      ''kind'', ''lively'', ''lucid'', ''merry'', ''mighty'', ''noble'', ''plain'', ''prime'',
      ''proud'', ''pure'', ''quick'', ''quiet'', ''rapid'', ''ready'', ''sharp'', ''sleek'',
      ''smart'', ''smooth'', ''snappy'', ''solid'', ''steady'', ''stout'', ''strong'', ''sturdy'',
      ''super'', ''swift'']"

definition ANIMALS :: "string list" where
  "ANIMALS =
     [''ant'', ''badger'', ''bear'', ''bison'', ''cobra'', ''condor'', ''crane'', ''crow'',
      ''deer'', ''dolphin'', ''dove'', ''duck'', ''eagle'', ''elk'', ''falcon'', ''finch'',
      ''fox'', ''frog'', ''goat'', ''goose'', ''gull'', ''hawk'', ''heron'', ''horse'', ''ibis'',
      ''jay'', ''kite'', ''lark'', ''lion'', ''lynx'', ''marten'', ''mink'', ''moose'', ''newt'',
      ''otter'', ''owl'', ''panda'', ''parrot'', ''pike'', ''puma'', ''quail'', ''ram'', ''raven'',
      ''robin'', ''salmon'', ''seal'', ''shrike'', ''snake'', ''squid'', ''stork'', ''swan'',
      ''tern'', ''tiger'', ''trout'', ''viper'', ''vole'', ''wasp'', ''whale'', ''wolf'', ''wren'']"

definition POOL_SIZE :: nat where
  "POOL_SIZE = length VERBS * length ANIMALS"

definition replica_name_of :: "string \<times> string \<Rightarrow> string" where
  "replica_name_of p = fst p @ ''-'' @ snd p"

definition all_names :: "string list" where
  "all_names = map replica_name_of (List.product VERBS ANIMALS)"

definition random_choice :: "nat \<Rightarrow> 'a list \<Rightarrow> 'a" where
  "random_choice i xs = xs ! (i mod length xs)"

fun shuffle_from :: "(nat \<Rightarrow> nat) \<Rightarrow> nat \<Rightarrow> 'a list \<Rightarrow> 'a list" where
  "shuffle_from js 0 xs = xs"
| "shuffle_from js (Suc i) xs =
     (let j = js (Suc i) mod Suc (Suc i)
      in shuffle_from js i (xs[j := xs ! Suc i, Suc i := xs ! j]))"

definition random_shuffle :: "(nat \<Rightarrow> nat) \<Rightarrow> 'a list \<Rightarrow> 'a list" where
  "random_shuffle js xs = shuffle_from js (length xs - 1) xs"

record draws =
  dr_choices :: "nat \<Rightarrow> nat \<times> nat"
  dr_shuffle :: "nat \<Rightarrow> nat"

definition generate_replica_name :: "draws \<Rightarrow> string list \<Rightarrow> nat \<Rightarrow> string res" where
  "generate_replica_name d existing_names max_retries =
     (let random_name = (\<lambda>k. replica_name_of (random_choice (fst (dr_choices d k)) VERBS,
                                                random_choice (snd (dr_choices d k)) ANIMALS));
          unused = (\<lambda>name. name \<notin> set existing_names)
      in case find unused (map random_name [0..<max_retries]) of
           Some name \<Rightarrow> Inr name
         | None \<Rightarrow> (case find unused (random_shuffle (dr_shuffle d) all_names) of
                     Some name \<Rightarrow> Inr name
                   | None \<Rightarrow> Inl (RuntimeError ''replica names'')))"

section \<open>The pool\<close>

lemma VERBS_facts: "distinct VERBS" "length VERBS = 50" "list_all (\<lambda>v. CHR ''-'' \<notin> set v) VERBS"
  by code_simp+

lemma ANIMALS_facts: "distinct ANIMALS" "length ANIMALS = 60"
  by code_simp+

lemma first_split_unique:
  "xs @ c # a = ys @ c # b \<Longrightarrow> c \<notin> set xs \<Longrightarrow> c \<notin> set ys \<Longrightarrow> xs = ys \<and> a = b"
proof (induction xs arbitrary: ys)
  case (Cons x xs)
  then show ?case by (cases ys) auto
qed (auto simp: Cons_eq_append_conv)

lemma replica_name_inj: "inj_on replica_name_of (set VERBS \<times> UNIV)"
proof (rule inj_onI)
  fix p q assume "p \<in> set VERBS \<times> UNIV" "q \<in> set VERBS \<times> UNIV" and e: "replica_name_of p = replica_name_of q"
  then have "CHR ''-'' \<notin> set (fst p)" "CHR ''-'' \<notin> set (fst q)"
    using VERBS_facts(3) by (auto simp: list_all_iff)
  with e have "fst p = fst q \<and> snd p = snd q"
    by (intro first_split_unique [where c = "CHR ''-''"]) (simp_all add: replica_name_of_def)
  then show "p = q" by (simp add: prod_eq_iff)
qed

lemma distinct_all_names: "distinct all_names"
proof -
  have "distinct (List.product VERBS ANIMALS)"
    by (rule distinct_product [OF VERBS_facts(1) ANIMALS_facts(1)])
  moreover have "inj_on replica_name_of (set (List.product VERBS ANIMALS))"
    by (rule inj_on_subset [OF replica_name_inj]) auto
  ultimately show ?thesis unfolding all_names_def by (simp add: distinct_map)
qed

lemma length_all_names: "length all_names = POOL_SIZE"
  by (simp add: all_names_def POOL_SIZE_def)

lemma random_choice_in: "xs \<noteq> [] \<Longrightarrow> random_choice i xs \<in> set xs"
  by (simp add: random_choice_def)

lemma set_shuffle_from: "i < length xs \<Longrightarrow> set (shuffle_from js i xs) = set xs"
proof (induction i arbitrary: xs)
  case (Suc i)
  have "js (Suc i) mod Suc (Suc i) < Suc (Suc i)" by simp
  with Suc.prems have "js (Suc i) mod Suc (Suc i) < length xs" by linarith
  with Suc.prems have "mset (xs[js (Suc i) mod Suc (Suc i) := xs ! Suc i, Suc i := xs ! (js (Suc i) mod Suc (Suc i))]) = mset xs"
    by (intro mset_swap)
  from mset_eq_setD [OF this] show ?case using Suc by (simp add: Let_def)
qed simp

lemma set_random_shuffle: "set (random_shuffle js xs) = set xs"
  by (cases xs) (simp_all add: random_shuffle_def set_shuffle_from)

lemma find_None_set: "find P xs = None \<longleftrightarrow> (\<forall>x\<in>set xs. \<not> P x)"
  by (auto simp: find_None_iff)

lemma find_Some_set: "find P xs = Some x \<Longrightarrow> x \<in> set xs \<and> P x"
  by (auto simp: find_Some_iff)

lemma random_name_pool:
  "replica_name_of (random_choice i VERBS, random_choice j ANIMALS) \<in> set all_names"
proof -
  have "VERBS \<noteq> []" "ANIMALS \<noteq> []" using VERBS_facts(2) ANIMALS_facts(2) by force+
  then show ?thesis unfolding all_names_def by (simp add: random_choice_in)
qed

lemma generate_replica_name_Inr:
  assumes "generate_replica_name d names k = Inr n"
  shows "n \<in> set all_names \<and> n \<notin> set names"
  using assms unfolding generate_replica_name_def Let_def
  by (auto split: option.splits dest!: find_Some_set simp: random_name_pool set_random_shuffle)

lemma generate_replica_name_Inl:
  "generate_replica_name d names k = Inl e \<Longrightarrow> set all_names \<subseteq> set names \<and> e = RuntimeError ''replica names''"
  unfolding generate_replica_name_def Let_def
  by (auto split: option.splits simp: find_None_set set_random_shuffle)

lemma generate_replica_name_total:
  assumes "length names < POOL_SIZE"
  shows "\<exists>n. generate_replica_name d names k = Inr n \<and> n \<in> set all_names \<and> n \<notin> set names"
proof (cases "generate_replica_name d names k")
  case (Inl e)
  then have "set all_names \<subseteq> set names" using generate_replica_name_Inl by blast
  then have "card (set all_names) \<le> card (set names)" by (simp add: card_mono)
  moreover have "card (set all_names) = POOL_SIZE"
    by (simp add: distinct_card [OF distinct_all_names] length_all_names)
  moreover have "card (set names) \<le> length names" by (rule card_length)
  ultimately show ?thesis using assms by linarith
next
  case (Inr n)
  then show ?thesis using generate_replica_name_Inr by blast
qed

end
