(* ===== verification/Json_Text.thy ===== *)
theory Json_Text
  imports Py_Text
begin

text \<open>
  \<open>json.dumps\<close> with its default settings and \<open>json.loads\<close>, on the values the model has: no floats,
  and strings of code points below 256. The reader follows the scanner of the standard library (the
  digits of a number, escapes, white space between items, a repeated key keeps its last value) and
  answers \<open>None\<close> for a text that is not the text of such a value. Its recursion is bounded by the
  length of the text, which is enough because every call consumes a character. Reading what was written
  gives the value back.
\<close>

fun json_dumps :: "json \<Rightarrow> string" where
  "json_dumps JNull = ''null''"
| "json_dumps (JBool b) = (if b then ''true'' else ''false'')"
| "json_dumps (JInt i) = int_str i"
| "json_dumps (JStr s) = json_str s"
| "json_dumps (JArr xs) = ''['' @ py_join '', '' (map json_dumps xs) @ '']''"
| "json_dumps (JObj kvs) =
     ''{'' @ py_join '', '' (map (\<lambda>(k, v). json_str k @ '': '' @ json_dumps v) kvs) @ ''}''"

section \<open>The reader\<close>

definition json_ws :: "char \<Rightarrow> bool" where
  "json_ws c = (c = CHR '' '' \<or> c = CHR 0x09 \<or> c = CHR 0x0A \<or> c = CHR 0x0D)"

definition skip_ws :: "string \<Rightarrow> string" where
  "skip_ws s = dropWhile json_ws s"

definition digit_value :: "char \<Rightarrow> nat" where
  "digit_value c = of_char c - 48"

definition hex_value :: "char \<Rightarrow> nat option" where
  "hex_value c =
     (let n = of_char c :: nat
      in if is_dig c then Some (n - 48)
         else if 97 \<le> n \<and> n \<le> 102 then Some (n - 87)
         else if 65 \<le> n \<and> n \<le> 70 then Some (n - 55) else None)"

definition unescape :: "char \<Rightarrow> char option" where
  "unescape c =
     map_of [(CHR 0x22, CHR 0x22), (CHR 0x5C, CHR 0x5C), (CHR ''/'', CHR ''/''), (CHR ''b'', CHR 0x08),
             (CHR ''f'', CHR 0x0C), (CHR ''n'', CHR 0x0A), (CHR ''r'', CHR 0x0D), (CHR ''t'', CHR 0x09)] c"

definition unicode_char :: "char \<Rightarrow> char \<Rightarrow> char \<Rightarrow> char \<Rightarrow> char option" where
  "unicode_char a b c d =
     (case (hex_value a, hex_value b, hex_value c, hex_value d) of
        (Some 0, Some 0, Some m, Some n) \<Rightarrow> Some (char_of (16 * m + n))
      | _ \<Rightarrow> None)"

definition push :: "char \<Rightarrow> (string \<times> string) option \<Rightarrow> (string \<times> string) option" where
  "push c r = (case r of None \<Rightarrow> None | Some (s, rest) \<Rightarrow> Some (c # s, rest))"

fun scan_str :: "string \<Rightarrow> (string \<times> string) option" where
  "scan_str [] = None"
| "scan_str (c # r) =
     (if c = CHR 0x22 then Some ([], r)
      else if c \<noteq> CHR 0x5C then (if (of_char c :: nat) < 32 then None else push c (scan_str r))
      else case r of
        [] \<Rightarrow> None
      | e # r1 \<Rightarrow>
          if e = CHR ''u'' then
            (case r1 of
               h1 # h2 # h3 # h4 # r2 \<Rightarrow>
                 (case unicode_char h1 h2 h3 h4 of None \<Rightarrow> None | Some ch \<Rightarrow> push ch (scan_str r2))
             | _ \<Rightarrow> None)
          else (case unescape e of None \<Rightarrow> None | Some ch \<Rightarrow> push ch (scan_str r1)))"

definition dec_value :: "string \<Rightarrow> nat" where
  "dec_value ds = foldl (\<lambda>n c. 10 * n + digit_value c) 0 ds"

definition int_digits :: "string \<Rightarrow> string" where
  "int_digits r =
     (let ds = takeWhile is_dig r in if ds \<noteq> [] \<and> hd ds = CHR ''0'' then [hd ds] else ds)"

definition scan_int :: "string \<Rightarrow> (json \<times> string) option" where
  "scan_int s =
     (let neg = (s \<noteq> [] \<and> hd s = CHR ''-'');
          r = (if neg then tl s else s);
          ds = int_digits r;
          rest = drop (length ds) r
      in if ds = [] \<or> (rest \<noteq> [] \<and> (hd rest = CHR ''.'' \<or> hd rest = CHR ''e'' \<or> hd rest = CHR ''E'')) then None
         else Some (JInt ((if neg then - 1 else 1) * int (dec_value ds)), rest))"

definition is_head :: "char \<Rightarrow> string \<Rightarrow> bool" where
  "is_head c s = (s \<noteq> [] \<and> hd s = c)"

fun scan_value :: "nat \<Rightarrow> string \<Rightarrow> (json \<times> string) option"
  and scan_items :: "nat \<Rightarrow> string \<Rightarrow> (json list \<times> string) option"
  and scan_members :: "nat \<Rightarrow> string \<Rightarrow> (jdict \<times> string) option" where
  "scan_value 0 s = None"
| "scan_value (Suc n) s =
     (if is_head (CHR 0x22) s then map_option (\<lambda>(t, r). (JStr t, r)) (scan_str (tl s))
      else if is_head (CHR ''{'') s then
        (let r = skip_ws (tl s)
         in if is_head (CHR ''}'') r then Some (JObj [], tl r)
            else map_option (\<lambda>(kvs, q). (JObj (foldl (\<lambda>d (k, v). AList.update k v d) [] kvs), q)) (scan_members n r))
      else if is_head (CHR ''['') s then
        (let r = skip_ws (tl s)
         in if is_head (CHR '']'') r then Some (JArr [], tl r)
            else map_option (\<lambda>(xs, q). (JArr xs, q)) (scan_items n r))
      else if prefix ''null'' s then Some (JNull, drop 4 s)
      else if prefix ''true'' s then Some (JBool True, drop 4 s)
      else if prefix ''false'' s then Some (JBool False, drop 5 s)
      else scan_int s)"
| "scan_items 0 s = None"
| "scan_items (Suc n) s =
     (case scan_value n s of
        None \<Rightarrow> None
      | Some (v, r) \<Rightarrow>
          let q = skip_ws r
          in if is_head (CHR '']'') q then Some ([v], tl q)
             else if is_head (CHR '','') q then map_option (\<lambda>(vs, t). (v # vs, t)) (scan_items n (skip_ws (tl q)))
             else None)"
| "scan_members 0 s = None"
| "scan_members (Suc n) s =
     (if \<not> is_head (CHR 0x22) s then None
      else case scan_str (tl s) of
        None \<Rightarrow> None
      | Some (k, r) \<Rightarrow>
          let r1 = skip_ws r
          in if \<not> is_head (CHR '':'') r1 then None
             else case scan_value n (skip_ws (tl r1)) of
               None \<Rightarrow> None
             | Some (v, r2) \<Rightarrow>
                 let q = skip_ws r2
                 in if is_head (CHR ''}'') q then Some ([(k, v)], tl q)
                    else if is_head (CHR '','') q
                    then map_option (\<lambda>(kvs, t). ((k, v) # kvs, t)) (scan_members n (skip_ws (tl q)))
                    else None)"

definition json_loads :: "string \<Rightarrow> json option" where
  "json_loads s =
     (case scan_value (Suc (length s)) (skip_ws s) of
        Some (v, rest) \<Rightarrow> if skip_ws rest = [] then Some v else None
      | None \<Rightarrow> None)"

text \<open>A Python dict has no repeated key.\<close>

fun json_wf :: "json \<Rightarrow> bool" where
  "json_wf (JArr xs) = list_all json_wf xs"
| "json_wf (JObj kvs) = (distinct (map fst kvs) \<and> list_all (\<lambda>kv. json_wf (snd kv)) kvs)"
| "json_wf _ = True"


section \<open>Strings\<close>

lemma hex_value_digit: "m < 16 \<Longrightarrow> hex_value (digit_char m) = Some m"
  by (auto simp: hex_value_def digit_char_def is_dig_def Let_def)

lemma unicode_char_hex2:
  "unicode_char (CHR ''0'') (CHR ''0'') (digit_char ((of_char c :: nat) div 16)) (digit_char ((of_char c :: nat) mod 16)) = Some c"
proof -
  have "(of_char c :: nat) < 256" by (rule nat_of_char_less_256)
  then have "(of_char c :: nat) div 16 < 16" by (simp add: less_mult_imp_div_less)
  moreover have "hex_value (CHR ''0'') = Some 0" by (simp add: hex_value_def is_dig_def)
  moreover have "char_of (16 * ((of_char c :: nat) div 16) + of_char c mod 16) = c" by simp
  ultimately show ?thesis unfolding unicode_char_def by (simp add: hex_value_digit)
qed

lemma scan_str_char: "scan_str (json_char c @ t) = push c (scan_str t)"
proof (cases "c \<in> {CHR 0x22, CHR 0x5C, CHR 0x0A, CHR 0x0D, CHR 0x09, CHR 0x08, CHR 0x0C}")
  case True
  then show ?thesis by (elim insertE emptyE) (simp_all add: json_char_def unescape_def)
next
  case False
  then have n: "c \<noteq> CHR 0x22" "c \<noteq> CHR 0x5C" "c \<noteq> CHR 0x0A" "c \<noteq> CHR 0x0D" "c \<noteq> CHR 0x09" "c \<noteq> CHR 0x08" "c \<noteq> CHR 0x0C"
    by simp_all
  show ?thesis
  proof (cases "32 \<le> (of_char c :: nat) \<and> (of_char c :: nat) < 127")
    case True
    then have "json_char c = [c]" using n by (simp add: json_char_def Let_def)
    then show ?thesis using n True by simp
  next
    case False
    then have "json_char c = CHR 0x5C # CHR ''u'' # CHR ''0'' # CHR ''0'' # hex2 c"
      unfolding json_char_def Let_def using n by (simp only: if_False simp_thms)
    then show ?thesis by (simp add: hex2_def Let_def unicode_char_hex2)
  qed
qed

lemma scan_str_body: "scan_str (json_body s @ CHR 0x22 # rest) = Some (s, rest)"
proof (induction s)
  case (Cons c s)
  have "scan_str (json_body (c # s) @ CHR 0x22 # rest) = scan_str (json_char c @ (json_body s @ CHR 0x22 # rest))"
    by (simp add: json_body_def)
  also have "\<dots> = Some (c # s, rest)" unfolding scan_str_char Cons.IH by (simp add: push_def)
  finally show ?case .
qed (simp add: json_body_def)

section \<open>Numbers\<close>

lemma digit_char_facts:
  assumes "m < 10"
  shows "is_dig (digit_char m)" "digit_value (digit_char m) = m" "digit_char m = CHR ''0'' \<longleftrightarrow> m = 0"
proof -
  have c: "(of_char (digit_char m) :: nat) = 48 + m" using assms by (simp add: digit_char_def)
  show "is_dig (digit_char m)" "digit_value (digit_char m) = m"
    using c assms by (simp_all add: is_dig_def digit_value_def)
  have "digit_char m = CHR ''0'' \<longleftrightarrow> (of_char (digit_char m) :: nat) = of_char (CHR ''0'')"
    using of_char_eq_iff by blast
  then show "digit_char m = CHR ''0'' \<longleftrightarrow> m = 0" unfolding c by simp
qed

lemma nat_str_facts:
  "nat_str n \<noteq> [] \<and> list_all is_dig (nat_str n) \<and> dec_value (nat_str n) = n
   \<and> (hd (nat_str n) = CHR ''0'' \<longrightarrow> n = 0)"
proof (induction n rule: nat_str.induct)
  case (1 n)
  show ?case
  proof (cases "n < 10")
    case True
    then show ?thesis using digit_char_facts [OF True] by (subst (1 2 3 4) nat_str.simps) (simp add: dec_value_def)
  next
    case False
    note ih = "1.IH" [OF False]
    have "n mod 10 < 10" by simp
    note d = digit_char_facts [OF this]
    have e: "nat_str n = nat_str (n div 10) @ [digit_char (n mod 10)]" using False by (subst nat_str.simps) simp
    have "dec_value (nat_str n) = 10 * dec_value (nat_str (n div 10)) + n mod 10"
      unfolding e using d by (simp add: dec_value_def)
    moreover have "n div 10 \<noteq> 0" using False by simp
    ultimately show ?thesis using ih d unfolding e by simp
  qed
qed

definition ends_value :: "string \<Rightarrow> bool" where
  "ends_value rest = (rest = [] \<or> hd rest \<in> {CHR '','', CHR '']'', CHR ''}''})"

lemma takeWhile_digits: "list_all is_dig ds \<Longrightarrow> ends_value rest \<Longrightarrow> takeWhile is_dig (ds @ rest) = ds"
proof -
  assume d: "list_all is_dig ds" and r: "ends_value rest"
  have "takeWhile is_dig rest = []"
    using r by (cases rest) (auto simp: ends_value_def is_dig_def)
  then show ?thesis using d by (simp add: takeWhile_append list_all_iff)
qed

lemma scan_int_str:
  assumes "ends_value rest"
  shows "scan_int (int_str i @ rest) = Some (JInt i, rest)"
proof -
  have r: "\<not> (rest \<noteq> [] \<and> (hd rest = CHR ''.'' \<or> hd rest = CHR ''e'' \<or> hd rest = CHR ''E''))"
    using assms by (auto simp: ends_value_def)
  have *: "int_digits (nat_str n @ rest) = nat_str n" for n
  proof -
    have t: "takeWhile is_dig (nat_str n @ rest) = nat_str n"
      using nat_str_facts [of n] assms takeWhile_digits by blast
    show ?thesis
    proof (cases "hd (nat_str n) = CHR ''0''")
      case True
      then have "n = 0" using nat_str_facts [of n] by simp
      then have "nat_str n = [digit_char 0]" by (simp add: nat_str.simps)
      then show ?thesis using t by (simp add: int_digits_def Let_def)
    qed (simp add: int_digits_def t)
  qed
  have n: "nat_str n \<noteq> []" "hd (nat_str n) \<noteq> CHR ''-''" for n
    using nat_str_facts [of n] by (cases "nat_str n"; auto simp: is_dig_def)+
  show ?thesis
    using r n unfolding scan_int_def int_str_def Let_def by (cases "i < 0") (simp_all add: * nat_str_facts)
qed

section \<open>Reading what was written\<close>

lemma skip_ws_head [simp]: "skip_ws (c # s) = (if json_ws c then skip_ws s else c # s)"
  by (simp add: skip_ws_def)

lemma skip_ws_Nil [simp]: "skip_ws [] = []"
  by (simp add: skip_ws_def)

lemma is_head_simps [simp]: "is_head c [] = False" "is_head c (d # s) = (d = c)"
  by (auto simp: is_head_def)

lemma int_str_head: "\<exists>c t. int_str i = c # t \<and> (c = CHR ''-'' \<or> is_dig c)"
proof (cases "i < 0")
  case False
  then show ?thesis using nat_str_facts [of "nat i"] by (cases "nat_str (nat i)") (auto simp: int_str_def)
qed (simp add: int_str_def)

lemma dumps_head: "\<exists>c t. json_dumps v = c # t \<and> \<not> json_ws c \<and> c \<noteq> CHR '']'' \<and> c \<noteq> CHR ''}''"
proof (cases v)
  case (JInt i)
  obtain c t where "int_str i = c # t" "c = CHR ''-'' \<or> is_dig c" using int_str_head by blast
  then show ?thesis using JInt by (auto simp: json_ws_def is_dig_def)
qed (auto simp: json_ws_def json_str_def)

lemma skip_ws_dumps [simp]: "skip_ws (json_dumps v @ t) = json_dumps v @ t"
  using dumps_head [of v] by auto

lemma int_not_word:
  "\<not> is_head (CHR 0x22) (int_str i @ r)" "\<not> is_head (CHR ''{'') (int_str i @ r)" "\<not> is_head (CHR ''['') (int_str i @ r)"
  "\<not> prefix ''null'' (int_str i @ r)" "\<not> prefix ''true'' (int_str i @ r)" "\<not> prefix ''false'' (int_str i @ r)"
proof -
  obtain c t where "int_str i = c # t" "c = CHR ''-'' \<or> is_dig c" using int_str_head by blast
  then show "\<not> is_head (CHR 0x22) (int_str i @ r)" "\<not> is_head (CHR ''{'') (int_str i @ r)" "\<not> is_head (CHR ''['') (int_str i @ r)"
  "\<not> prefix ''null'' (int_str i @ r)" "\<not> prefix ''true'' (int_str i @ r)" "\<not> prefix ''false'' (int_str i @ r)"
    by (auto simp: is_dig_def)
qed

lemma ends_value_simps [simp]:
  "ends_value []" "ends_value (CHR '','' # t)" "ends_value (CHR '']'' # t)" "ends_value (CHR ''}'' # t)"
  by (simp_all add: ends_value_def)

lemma json_ws_simps [simp]:
  "json_ws (CHR '' '')" "\<not> json_ws (CHR '','')" "\<not> json_ws (CHR '']'')" "\<not> json_ws (CHR ''}'')"
  "\<not> json_ws (CHR '':'')" "\<not> json_ws (CHR 0x22)"
  by (simp_all add: json_ws_def)

definition reads :: "json \<Rightarrow> bool" where
  "reads v \<longleftrightarrow> (\<forall>n rest. length (json_dumps v) < n \<longrightarrow> ends_value rest \<longrightarrow>
                          scan_value n (json_dumps v @ rest) = Some (v, rest))"

lemma reads_D: "reads v \<Longrightarrow> length (json_dumps v) < n \<Longrightarrow> ends_value rest \<Longrightarrow> scan_value n (json_dumps v @ rest) = Some (v, rest)"
  by (simp add: reads_def)

lemma scan_items_dumps:
  "xs \<noteq> [] \<Longrightarrow> list_all reads xs \<Longrightarrow> length (py_join '', '' (map json_dumps xs)) + 1 < n \<Longrightarrow>
     scan_items n (py_join '', '' (map json_dumps xs) @ CHR '']'' # rest) = Some (xs, rest)"
proof (induction xs arbitrary: n)
  case (Cons x xs)
  then obtain k where n: "n = Suc k" by (cases n) auto
  have x: "reads x" using Cons.prems by simp
  show ?case
  proof (cases "xs = []")
    case True
    then show ?thesis using Cons.prems n by (simp add: reads_D [OF x])
  next
    case False
    have j: "py_join '', '' (json_dumps x # map json_dumps xs) = json_dumps x @ '', '' @ py_join '', '' (map json_dumps xs)"
      using False by (simp add: py_join_Cons)
    obtain c t where h: "py_join '', '' (map json_dumps xs) = c # t" "\<not> json_ws c"
    proof -
      obtain y ys where xs: "xs = y # ys" using False by (cases xs) auto
      obtain c t where "json_dumps y = c # t" "\<not> json_ws c" using dumps_head by blast
      then show thesis using that xs by (cases ys) auto
    qed
    have "scan_items k (py_join '', '' (map json_dumps xs) @ CHR '']'' # rest) = Some (xs, rest)"
      using Cons.prems n False by (intro Cons.IH) (simp_all add: j)
    then show ?thesis using Cons.prems n unfolding list.map j by (simp add: reads_D [OF x] h)
  qed
qed simp

definition member_text :: "string \<times> json \<Rightarrow> string" where
  "member_text kv = json_str (fst kv) @ '': '' @ json_dumps (snd kv)"

lemma scan_members_dumps:
  "kvs \<noteq> [] \<Longrightarrow> list_all (\<lambda>kv. reads (snd kv)) kvs \<Longrightarrow> length (py_join '', '' (map member_text kvs)) + 1 < n \<Longrightarrow>
     scan_members n (py_join '', '' (map member_text kvs) @ CHR ''}'' # rest) = Some (kvs, rest)"
proof (induction kvs arbitrary: n)
  case (Cons kv kvs)
  obtain a v where kv: "kv = (a, v)" by force
  obtain k where n: "n = Suc k" using Cons.prems by (cases n) auto
  have x: "reads v" using Cons.prems kv by simp
  have one: "member_text kv @ t = CHR 0x22 # json_body a @ CHR 0x22 # CHR '':'' # CHR '' '' # json_dumps v @ t" for t
    by (simp add: kv member_text_def json_str_def)
  have len: "length (json_dumps v) < length (member_text kv)" by (simp add: kv member_text_def)
  show ?case
  proof (cases "kvs = []")
    case True
    then have "length (json_dumps v) < k" using Cons.prems n len by simp
    then show ?thesis using True n by (simp add: one scan_str_body reads_D [OF x]) (simp add: kv)
  next
    case False
    have j: "py_join '', '' (member_text kv # map member_text kvs) = member_text kv @ '', '' @ py_join '', '' (map member_text kvs)"
      using False by (simp add: py_join_Cons)
    obtain t where h: "py_join '', '' (map member_text kvs) = CHR 0x22 # t"
    proof -
      obtain y ys where xs: "kvs = y # ys" using False by (cases kvs) auto
      then show thesis using that by (cases ys) (auto simp: member_text_def json_str_def)
    qed
    have "scan_members k (py_join '', '' (map member_text kvs) @ CHR ''}'' # rest) = Some (kvs, rest)"
      using Cons.prems n False by (intro Cons.IH) (simp_all add: j)
    moreover have "length (json_dumps v) < k" using Cons.prems n len by (simp add: j)
    ultimately show ?thesis unfolding list.map j n append_assoc one by (simp add: scan_str_body reads_D [OF x] h) (simp add: kv)
  qed
qed simp

lemma update_append: "k \<notin> fst ` set d \<Longrightarrow> AList.update k v d = d @ [(k, v)]"
  by (induction d) auto

lemma foldl_update_distinct:
  "distinct (map fst (d @ kvs)) \<Longrightarrow> foldl (\<lambda>d (k, v). AList.update k v d) d kvs = d @ kvs"
proof (induction kvs arbitrary: d)
  case (Cons kv kvs)
  obtain k v where kv: "kv = (k, v)" by force
  have "AList.update k v d = d @ [(k, v)]" using Cons.prems kv by (simp add: update_append)
  then show ?case using Cons.IH [of "d @ [(k, v)]"] Cons.prems kv by simp
qed simp

lemma readsI:
  assumes "\<And>k rest. length (json_dumps v) \<le> k \<Longrightarrow> ends_value rest \<Longrightarrow> scan_value (Suc k) (json_dumps v @ rest) = Some (v, rest)"
  shows "reads v"
  unfolding reads_def
proof (intro allI impI)
  fix n rest assume "length (json_dumps v) < n" "ends_value rest"
  then show "scan_value n (json_dumps v @ rest) = Some (v, rest)" using assms by (cases n) simp_all
qed

lemma reads_array:
  assumes r: "list_all reads xs"
  shows "reads (JArr xs)"
proof (rule readsI)
  fix k rest assume k: "length (json_dumps (JArr xs)) \<le> k"
  show "scan_value (Suc k) (json_dumps (JArr xs) @ rest) = Some (JArr xs, rest)"
  proof (cases xs)
    case (Cons y ys)
    let ?t = "py_join '', '' (map json_dumps xs) @ CHR '']'' # rest"
    obtain c t where h: "json_dumps y = c # t" "\<not> json_ws c" "c \<noteq> CHR '']''" using dumps_head by blast
    have "skip_ws ?t = ?t" "\<not> is_head (CHR '']'') ?t" using h Cons by (cases ys; simp)+
    moreover have "scan_items k ?t = Some (xs, rest)"
      using k Cons by (intro scan_items_dumps [OF _ r]) simp_all
    ultimately show ?thesis by simp
  qed simp
qed

lemma reads_object:
  assumes r: "list_all (\<lambda>kv. reads (snd kv)) kvs" and d: "distinct (map fst kvs)"
  shows "reads (JObj kvs)"
proof (rule readsI)
  fix k rest assume k: "length (json_dumps (JObj kvs)) \<le> k"
  have t: "json_dumps (JObj kvs) = ''{'' @ py_join '', '' (map member_text kvs) @ ''}''"
    by (simp add: member_text_def [abs_def] case_prod_unfold)
  show "scan_value (Suc k) (json_dumps (JObj kvs) @ rest) = Some (JObj kvs, rest)"
  proof (cases kvs)
    case (Cons y ys)
    obtain h where "py_join '', '' (map member_text kvs) = CHR 0x22 # h"
      using Cons by (cases ys) (auto simp: member_text_def json_str_def)
    moreover have "scan_members k (py_join '', '' (map member_text kvs) @ CHR ''}'' # rest) = Some (kvs, rest)"
      using k Cons unfolding t by (intro scan_members_dumps [OF _ r]) simp_all
    moreover have "foldl (\<lambda>d (k, v). AList.update k v d) [] kvs = kvs"
      using d foldl_update_distinct [of "[]" kvs] by simp
    ultimately show ?thesis unfolding t by simp
  qed simp
qed

lemma json_wf_reads: "json_wf v \<Longrightarrow> reads v"
proof (induction v)
  case (JInt i)
  show ?case by (rule readsI) (simp add: int_not_word scan_int_str)
next
  case (JStr s)
  show ?case by (rule readsI) (simp add: json_str_def scan_str_body)
next
  case (JArr xs)
  then show ?case by (intro reads_array) (auto simp: list_all_iff)
next
  case (JObj kvs)
  then show ?case by (intro reads_object) (auto simp: list_all_iff)
qed (rule readsI; simp)+

lemma json_loads_dumps: "json_wf v \<Longrightarrow> json_loads (json_dumps v) = Some v"
proof -
  assume "json_wf v"
  then have "scan_value (Suc (length (json_dumps v))) (json_dumps v @ []) = Some (v, [])"
    by (intro reads_D json_wf_reads) simp_all
  moreover have "skip_ws (json_dumps v) = json_dumps v" using skip_ws_dumps [of v "[]"] by simp
  ultimately show ?thesis by (simp add: json_loads_def)
qed

end
