(* ===== verification/Encryption.thy ===== *)
theory Encryption
  imports Json_Text Exceptions
begin

text \<open>
  Envelope encryption (\<open>core/encryption.py\<close>). Bytes are strings of code points below 256. The cipher
  AES-GCM comes from a library and is the argument \<open>aead\<close>; what the code relies on is named
  \<open>aead_correct\<close>: decryption with the key and nonce of an encryption gives the plaintext. The bytes
  \<open>os.urandom\<close> returns are read from an argument, one stream per call. The key encryption key is
  the decoded setting, and the module variable that caches it is a state.
\<close>

record aead =
  ae_encrypt :: "string \<Rightarrow> string \<Rightarrow> string \<Rightarrow> string"
  ae_decrypt :: "string \<Rightarrow> string \<Rightarrow> string \<Rightarrow> string option"

definition aes_key :: "string \<Rightarrow> bool" where
  "aes_key k = (length k \<in> {16, 24, 32})"

definition aead_correct :: "aead \<Rightarrow> bool" where
  "aead_correct A \<longleftrightarrow> (\<forall>k n p. aes_key k \<longrightarrow> ae_decrypt A k n (ae_encrypt A k n p) = Some p)"

definition aesgcm_encrypt :: "aead \<Rightarrow> string \<Rightarrow> string \<Rightarrow> string \<Rightarrow> string res" where
  "aesgcm_encrypt A k n p = (if aes_key k then Inr (ae_encrypt A k n p) else Inl (ValueError ''key size''))"

definition aesgcm_decrypt :: "aead \<Rightarrow> string \<Rightarrow> string \<Rightarrow> string \<Rightarrow> string res" where
  "aesgcm_decrypt A k n c =
     (if aes_key k then (case ae_decrypt A k n c of None \<Rightarrow> Inl (RuntimeError ''InvalidTag'') | Some p \<Rightarrow> Inr p)
      else Inl (ValueError ''key size''))"

definition urandom :: "nat \<Rightarrow> (nat \<Rightarrow> char) \<Rightarrow> string" where
  "urandom n stream = map stream [0..<n]"

text \<open>
  \<open>_get_kek\<close> with the cache \<open>_kek\<close>: the new value of the cache and the result. The variable is assigned
  before the length is tested.
\<close>

definition get_kek :: "string option \<Rightarrow> string option \<Rightarrow> string option \<times> string res" where
  "get_kek cache setting =
     (case cache of
        Some k \<Rightarrow> (cache, Inr k)
      | None \<Rightarrow>
          (case setting of
             None \<Rightarrow> (None, Inl (RuntimeError ''kek''))
           | Some k \<Rightarrow> (Some k, if length k = 32 then Inr k else Inl (RuntimeError ''kek size''))))"

definition generate_dek :: "(nat \<Rightarrow> char) \<Rightarrow> string" where
  "generate_dek stream = urandom 32 stream"

definition encrypt_dek :: "aead \<Rightarrow> (nat \<Rightarrow> char) \<Rightarrow> string \<Rightarrow> string \<Rightarrow> string res" where
  "encrypt_dek A stream dek kek =
     (let nonce = urandom 12 stream
      in res_bind (aesgcm_encrypt A kek nonce dek) (\<lambda>ct. Inr (nonce @ ct)))"

definition decrypt_dek :: "aead \<Rightarrow> string \<Rightarrow> string \<Rightarrow> string res" where
  "decrypt_dek A encrypted_dek kek = aesgcm_decrypt A kek (take 12 encrypted_dek) (drop 12 encrypted_dek)"

definition encrypt_string ::
  "aead \<Rightarrow> (nat \<Rightarrow> nat \<Rightarrow> char) \<Rightarrow> string \<Rightarrow> string \<Rightarrow> (string \<times> string) res" where
  "encrypt_string A streams kek plaintext =
     (let dek = generate_dek (streams 0);
          nonce = urandom 12 (streams 1)
      in res_bind (aesgcm_encrypt A dek nonce plaintext)
         (\<lambda>ct. res_bind (encrypt_dek A (streams 2) dek kek)
         (\<lambda>encrypted_dek. Inr (nonce @ ct, encrypted_dek))))"

definition decrypt_string :: "aead \<Rightarrow> string \<Rightarrow> string \<times> string \<Rightarrow> string res" where
  "decrypt_string A kek stored =
     res_bind (decrypt_dek A (snd stored) kek)
     (\<lambda>dek. aesgcm_decrypt A dek (take 12 (fst stored)) (drop 12 (fst stored)))"

definition encrypt_value ::
  "aead \<Rightarrow> (nat \<Rightarrow> nat \<Rightarrow> char) \<Rightarrow> string \<Rightarrow> json \<Rightarrow> (string \<times> string) res" where
  "encrypt_value A streams kek plaintext = encrypt_string A streams kek (json_dumps plaintext)"

definition decrypt_value :: "aead \<Rightarrow> string \<Rightarrow> string \<times> string \<Rightarrow> json res" where
  "decrypt_value A kek stored =
     res_bind (decrypt_string A kek stored)
     (\<lambda>s. case json_loads s of None \<Rightarrow> Inl (ValueError ''json'') | Some v \<Rightarrow> Inr v)"

section \<open>Round trips\<close>

lemma length_urandom [simp]: "length (urandom n s) = n"
  by (simp add: urandom_def)

lemma encrypt_string_total:
  assumes "aes_key kek"
  shows "\<exists>c d. encrypt_string A st kek p = Inr (urandom 12 (st 1) @ c, urandom 12 (st 2) @ d)
           \<and> c = ae_encrypt A (urandom 32 (st 0)) (urandom 12 (st 1)) p
           \<and> d = ae_encrypt A kek (urandom 12 (st 2)) (urandom 32 (st 0))"
  using assms by (simp add: encrypt_string_def encrypt_dek_def generate_dek_def aesgcm_encrypt_def aes_key_def Let_def)

lemma decrypt_encrypt_string:
  assumes "aead_correct A" and "encrypt_string A st kek p = Inr stored"
  shows "decrypt_string A kek stored = Inr p"
proof -
  have k: "aes_key kek"
    using assms(2) by (auto simp: encrypt_string_def encrypt_dek_def aesgcm_encrypt_def Let_def split: if_splits)
  obtain c d where s: "stored = (urandom 12 (st 1) @ c, urandom 12 (st 2) @ d)"
    and cd: "c = ae_encrypt A (urandom 32 (st 0)) (urandom 12 (st 1)) p"
      "d = ae_encrypt A kek (urandom 12 (st 2)) (urandom 32 (st 0))"
    using encrypt_string_total [OF k, of A st p] assms(2) by auto
  have "ae_decrypt A kek (urandom 12 (st 2)) d = Some (urandom 32 (st 0))"
    using assms(1) k unfolding cd by (simp add: aead_correct_def)
  moreover have "ae_decrypt A (urandom 32 (st 0)) (urandom 12 (st 1)) c = Some p"
    using assms(1) unfolding cd by (simp add: aead_correct_def aes_key_def)
  ultimately show ?thesis
    using k by (simp add: s decrypt_string_def decrypt_dek_def aesgcm_decrypt_def aes_key_def)
qed

lemma decrypt_encrypt_value:
  assumes "aead_correct A" and "json_wf v" and "encrypt_value A st kek v = Inr stored"
  shows "decrypt_value A kek stored = Inr v"
  using decrypt_encrypt_string [OF assms(1)] assms(2,3)
  by (simp add: encrypt_value_def decrypt_value_def json_loads_dumps)

text \<open>
  A setting of a wrong length is refused only once: the second call finds it in the cache, and a
  length of 16 or 24 bytes is a key that the cipher accepts.
\<close>

lemma bad_kek_cached:
  assumes "length k \<noteq> 32" and "get_kek None (Some k) = (cache, r)"
  shows "r = Inl (RuntimeError ''kek size'') \<and> get_kek cache (Some k) = (cache, Inr k)"
  using assms by (auto simp: get_kek_def)

end
