(* ===== verification/AgentRows.thy ===== *)
theory AgentRows
  imports Procedures ReplicaNames Encryption
begin

text \<open>
  The tables of the agents (\<open>models/agent.py\<close>, \<open>models/schedule_fire.py\<close>), the limits of the agent tiers
  (\<open>models/subscription.py\<close>) and the world an agent operation runs in. \<open>agent_db\<close> holds the tables of
  the platform and those of the agents; identifiers are drawn from the same source.

  The world of one operation is a \<open>host\<close>: the time of the transaction, the answers of the container
  daemon, the random draws, the cipher with its key, the random bytes, the answers of the key validation
  endpoints, SHA-256 and croniter. Nothing is assumed about it. A call to the daemon carries the identifier of
  the row it is about, so that the calls of one operation are different and each may be answered in its own way.
\<close>

definition AGENT_STATUSES :: "string list" where
  "AGENT_STATUSES = [''creating'', ''running'', ''stopped'', ''error'', ''destroying'', ''degraded'']"

definition REPLICA_STATUSES :: "string list" where
  "REPLICA_STATUSES = [''creating'', ''running'', ''stopped'', ''error'']"

definition JOB_STATUSES :: "string list" where
  "JOB_STATUSES = [''pending'', ''claimed'', ''running'', ''complete'', ''failed'']"

definition CHANNEL_TYPES :: "string list" where
  "CHANNEL_TYPES = [''discord'', ''slack'', ''whatsapp'', ''email'']"

definition ORCHESTRATION_MODES :: "string list" where
  "ORCHESTRATION_MODES = [''direct'', ''reason_first'', ''run_then_reason'', ''procedure'']"

record agent_row =
  ag_id :: nat
  ag_account_id :: nat
  ag_namespace_id :: nat
  ag_name :: string
  ag_display_name :: "string option"
  ag_container_id :: "string option"
  ag_status :: string
  ag_ai_engine :: "string option"
  ag_ai_model :: "string option"
  ag_ai_api_key :: "(string \<times> string) option"
  ag_system_prompt :: "string option"
  ag_memory_limit_mb :: int
  ag_cpu_limit_percent :: int
  ag_enabled :: bool
  ag_auto_channel :: "string option"
  ag_mcp_servers :: "jdict option"
  ag_heartbeat_interval :: "int option"
  ag_heartbeat_enabled :: bool
  ag_heartbeat_next_at :: "int option"
  ag_cloned_from_id :: "nat option"
  ag_target_replicas :: int
  ag_chat_token :: "string option"

record replica_row =
  rp_id :: nat
  rp_agent_id :: nat
  rp_name :: string
  rp_container_id :: "string option"
  rp_status :: string
  rp_last_heartbeat :: "int option"
  rp_created_at :: int

record schedule_row =
  sc_id :: nat
  sc_agent_id :: nat
  sc_function_name :: string
  sc_cron_expression :: string
  sc_timezone :: string
  sc_failure_policy :: json
  sc_enabled :: bool
  sc_mode :: string
  sc_orchestration_mode :: string
  sc_procedure_name :: "string option"
  sc_consecutive_failures :: int
  sc_last_run_at :: "int option"
  sc_next_run_at :: "int option"

record webhook_row =
  wh_id :: nat
  wh_agent_id :: nat
  wh_path :: string
  wh_handler_function_name :: string
  wh_secret_hash :: "string option"
  wh_orchestration_mode :: string
  wh_enabled :: bool

record state_row =
  st_id :: nat
  st_agent_id :: nat
  st_key :: string
  st_value :: "string \<times> string"
  st_size_bytes :: int
  st_updated_at :: int

record channel_row =
  ch_id :: nat
  ch_agent_id :: nat
  ch_channel_type :: string
  ch_config :: "string \<times> string"
  ch_enabled :: bool

record run_row =
  rn_id :: nat
  rn_agent_id :: nat
  rn_function_name :: "string option"
  rn_status :: string
  rn_error :: "string option"
  rn_created_at :: int

record job_row =
  jb_id :: nat
  jb_agent_id :: nat
  jb_schedule_id :: nat
  jb_replica_id :: "nat option"
  jb_fire_time :: int
  jb_status :: string
  jb_claimed_by :: "nat option"
  jb_claimed_at :: "int option"
  jb_completed_at :: "int option"
  jb_error :: "string option"
  jb_created_at :: int

record fire_row =
  fr_id :: nat
  fr_schedule_id :: nat
  fr_agent_id :: nat
  fr_status :: string
  fr_error_detail :: "string option"

record agent_db =
  plat :: platform_db
  agents :: "agent_row list"
  replicas :: "replica_row list"
  schedules :: "schedule_row list"
  webhooks :: "webhook_row list"
  state_entries :: "state_row list"
  channels :: "channel_row list"
  agent_runs :: "run_row list"
  jobs :: "job_row list"
  fires :: "fire_row list"

definition empty_agent_db :: "platform_db \<Rightarrow> agent_db" where
  "empty_agent_db db = \<lparr>plat = db, agents = [], replicas = [], schedules = [], webhooks = [], state_entries = [],
     channels = [], agent_runs = [], jobs = [], fires = []\<rparr>"

abbreviation new_id :: "agent_db \<Rightarrow> nat" where
  "new_id d \<equiv> next_id (plat d)"

definition bump :: "agent_db \<Rightarrow> agent_db" where
  "bump d = d\<lparr>plat := (plat d)\<lparr>next_id := Suc (next_id (plat d))\<rparr>\<rparr>"

section \<open>The tiers\<close>

record tier_config =
  max_agents :: int
  memory_limit_mb :: int
  cpu_limit_percent :: int
  min_schedule_seconds :: int
  max_state_bytes :: int
  run_retention_days :: int
  max_webhook_payload_bytes :: int

definition AGENT_TIER_CONFIG :: "(string \<times> tier_config) list" where
  "AGENT_TIER_CONFIG =
     [(''trial-agent'', \<lparr>max_agents = 5, memory_limit_mb = 512, cpu_limit_percent = 50,
         min_schedule_seconds = 30, max_state_bytes = 100 * 1024 * 1024, run_retention_days = 14,
         max_webhook_payload_bytes = 1 * 1024 * 1024\<rparr>),
      (''pro-agent'', \<lparr>max_agents = 5, memory_limit_mb = 512, cpu_limit_percent = 50,
         min_schedule_seconds = 30, max_state_bytes = 100 * 1024 * 1024, run_retention_days = 30,
         max_webhook_payload_bytes = 1 * 1024 * 1024\<rparr>),
      (''enterprise-agent'', \<lparr>max_agents = 20, memory_limit_mb = 1024, cpu_limit_percent = 100,
         min_schedule_seconds = 15, max_state_bytes = 1024 * 1024 * 1024, run_retention_days = 90,
         max_webhook_payload_bytes = 5 * 1024 * 1024\<rparr>),
      (''dedicated-agent'', \<lparr>max_agents = - 1, memory_limit_mb = 2048, cpu_limit_percent = 200,
         min_schedule_seconds = 15, max_state_bytes = - 1, run_retention_days = 365,
         max_webhook_payload_bytes = 10 * 1024 * 1024\<rparr>)]"

definition get_tier_config :: "string \<Rightarrow> tier_config res" where
  "get_tier_config tier =
     (case map_of AGENT_TIER_CONFIG tier of None \<Rightarrow> Inl (ForbiddenError ''tier'') | Some c \<Rightarrow> Inr c)"

section \<open>The world of an operation\<close>

datatype docker_call =
    NetworkGet nat
  | NetworkCreate nat
  | StaleRemove nat string
  | ContainerRun nat string
  | ContainerStart nat string
  | ContainerStop nat string
  | ContainerRestart nat string
  | ContainerRemove nat string

text \<open>\<open>NotFound\<close> is a subclass of \<open>APIError\<close>; an error of the connection is neither.\<close>

datatype docker_reply = DOk string | DNotFound | DApiError | DConnection

record host =
  h_now :: int
  h_docker :: "docker_call \<Rightarrow> docker_reply"
  h_draws :: "nat \<Rightarrow> draws"
  h_aead :: aead
  h_kek :: string
  h_bytes :: "nat \<Rightarrow> nat \<Rightarrow> char"
  h_key_check :: "string \<Rightarrow> string \<Rightarrow> nat option"
  h_sha256 :: "string \<Rightarrow> string"
  h_croniter :: "string \<Rightarrow> string \<Rightarrow> int option"

abbreviation connection_error :: exc where
  "connection_error \<equiv> RuntimeError ''docker''"

section \<open>Loops\<close>

text \<open>A loop that may raise: the first exception ends it.\<close>

fun map_res :: "('a \<Rightarrow> 'b res) \<Rightarrow> 'a list \<Rightarrow> 'b list res" where
  "map_res f [] = Inr []"
| "map_res f (x # xs) = res_bind (f x) (\<lambda>y. res_bind (map_res f xs) (\<lambda>ys. Inr (y # ys)))"

fun iter_res :: "nat \<Rightarrow> ('s \<Rightarrow> 's res) \<Rightarrow> 's \<Rightarrow> 's res" where
  "iter_res 0 f s = Inr s"
| "iter_res (Suc n) f s = res_bind (f s) (iter_res n f)"

lemma map_res_Inr: "map_res f xs = Inr ys \<Longrightarrow> list_all2 (\<lambda>x y. f x = Inr y) xs ys"
  by (induction xs arbitrary: ys) auto

lemma map_res_map:
  "map_res f xs = Inr ys \<Longrightarrow> (\<And>x y. x \<in> set xs \<Longrightarrow> f x = Inr y \<Longrightarrow> g y = k x) \<Longrightarrow> map g ys = map k xs"
  by (induction xs arbitrary: ys) auto

lemma map_res_set: "map_res f xs = Inr ys \<Longrightarrow> y \<in> set ys \<Longrightarrow> \<exists>x\<in>set xs. f x = Inr y"
  by (induction xs arbitrary: ys) auto

lemma iter_res_inv:
  "iter_res n f s = Inr t \<Longrightarrow> P s \<Longrightarrow> (\<And>a b. P a \<Longrightarrow> f a = Inr b \<Longrightarrow> P b) \<Longrightarrow> P t"
  by (induction n arbitrary: s) auto

end
