(* ===== verification/AgentService.thy ===== *)
theory AgentService
  imports AgentRows
begin

text \<open>
  The agent service (\<open>services/agent_service.py\<close>), one definition per method, in the order of the source:
  replicas and their containers, scaling, starting and stopping, destruction, schedules, webhooks, encrypted
  state, the configuration of the model, channels, servers and clones. An operation takes the world of the
  call and the database, and returns an exception or the new database with its result. A relationship such as
  \<open>agent.replicas\<close> is read as the rows of its table at that moment; that the object mapper may refuse to load it
  in an asynchronous session is not modelled.
\<close>

section \<open>Queries\<close>

definition get_agent_count :: "agent_db \<Rightarrow> nat \<Rightarrow> int" where
  "get_agent_count d account_id = int (length (filter (\<lambda>a. ag_account_id a = account_id) (agents d)))"

definition owned_by :: "agent_db \<Rightarrow> nat \<Rightarrow> replica_row \<Rightarrow> bool" where
  "owned_by d account_id r =
     list_ex (\<lambda>a. ag_id a = rp_agent_id r \<and> ag_account_id a = account_id) (agents d)"

definition get_total_replica_count :: "agent_db \<Rightarrow> nat \<Rightarrow> int" where
  "get_total_replica_count d account_id = int (length (filter (owned_by d account_id) (replicas d)))"

definition get_replicas :: "agent_db \<Rightarrow> nat \<Rightarrow> replica_row list" where
  "get_replicas d agent_id = sort_key rp_created_at (filter (\<lambda>r. rp_agent_id r = agent_id) (replicas d))"

definition get_agent :: "agent_db \<Rightarrow> nat \<Rightarrow> string \<Rightarrow> agent_row res" where
  "get_agent d account_id agent_name =
     fetch (NotFoundError ''Agent'') (\<lambda>a. ag_account_id a = account_id \<and> ag_name a = agent_name) (agents d)"

definition get_agent_by_id :: "agent_db \<Rightarrow> nat \<Rightarrow> nat \<Rightarrow> agent_row res" where
  "get_agent_by_id d account_id agent_id =
     fetch (NotFoundError ''Agent'') (\<lambda>a. ag_account_id a = account_id \<and> ag_id a = agent_id) (agents d)"

definition list_agents :: "agent_db \<Rightarrow> nat \<Rightarrow> agent_row list" where
  "list_agents d account_id = rev (filter (\<lambda>a. ag_account_id a = account_id) (agents d))"

record slots = slots_used :: int slots_total :: int slots_available :: int

definition get_agent_slots :: "agent_db \<Rightarrow> nat \<Rightarrow> string \<Rightarrow> slots res" where
  "get_agent_slots d account_id tier =
     res_bind (get_tier_config tier)
     (\<lambda>c. let used = get_agent_count d account_id
          in Inr \<lparr>slots_used = used, slots_total = max_agents c, slots_available = max_agents c - used\<rparr>)"

section \<open>Replicas and their containers\<close>

definition set_agent :: "nat \<Rightarrow> (agent_row \<Rightarrow> agent_row) \<Rightarrow> agent_db \<Rightarrow> agent_db" where
  "set_agent i f d = d\<lparr>agents := update_row ag_id i f (agents d)\<rparr>"

definition derive_agent_status :: "string \<Rightarrow> replica_row list \<Rightarrow> string" where
  "derive_agent_status status rs =
     (if rs = [] then (if status \<in> {''creating'', ''destroying''} then status else ''stopped'')
      else if list_all (\<lambda>r. rp_status r = ''running'') rs then ''running''
      else if list_all (\<lambda>r. rp_status r = ''stopped'') rs then ''stopped''
      else if list_ex (\<lambda>r. rp_status r = ''running'') rs then ''degraded''
      else if list_ex (\<lambda>r. rp_status r = ''error'') rs then ''error''
      else ''creating'')"

definition restatus :: "nat \<Rightarrow> agent_db \<Rightarrow> agent_db" where
  "restatus i d = set_agent i (\<lambda>a. a\<lparr>ag_status := derive_agent_status (ag_status a) (get_replicas d i)\<rparr>) d"

definition ensure_network :: "host \<Rightarrow> nat \<Rightarrow> docker_reply" where
  "ensure_network h i =
     (case h_docker h (NetworkGet i) of DNotFound \<Rightarrow> h_docker h (NetworkCreate i) | r \<Rightarrow> r)"

definition container_name :: "agent_row \<Rightarrow> replica_row \<Rightarrow> string" where
  "container_name ag r = ''agent-'' @ ag_name ag @ ''-'' @ rp_name r"

text \<open>The three calls of the body of \<open>try\<close>; an API error of any of them sets the status to error.\<close>

definition launch :: "host \<Rightarrow> nat \<Rightarrow> string \<Rightarrow> docker_reply" where
  "launch h i name =
     (case ensure_network h i of
        DOk _ \<Rightarrow> (case h_docker h (StaleRemove i name) of
                    DApiError \<Rightarrow> DApiError
                  | DConnection \<Rightarrow> DConnection
                  | _ \<Rightarrow> h_docker h (ContainerRun i name))
      | r \<Rightarrow> r)"

definition run_replica_container :: "host \<Rightarrow> agent_row \<Rightarrow> replica_row \<Rightarrow> replica_row res" where
  "run_replica_container h ag r =
     (case launch h (rp_id r) (container_name ag r) of
        DOk cid \<Rightarrow> Inr (r\<lparr>rp_container_id := Some cid, rp_status := ''running''\<rparr>)
      | DConnection \<Rightarrow> Inl connection_error
      | _ \<Rightarrow> Inr (r\<lparr>rp_status := ''error''\<rparr>))"

definition create_replica :: "host \<Rightarrow> agent_row \<Rightarrow> agent_db \<Rightarrow> agent_db res" where
  "create_replica h ag d =
     res_bind (generate_replica_name (h_draws h (new_id d)) (map rp_name (get_replicas d (ag_id ag))) 10)
     (\<lambda>name. res_bind (run_replica_container h ag
                \<lparr>rp_id = new_id d, rp_agent_id = ag_id ag, rp_name = name, rp_container_id = None,
                 rp_status = ''creating'', rp_last_heartbeat = None, rp_created_at = h_now h\<rparr>)
     (\<lambda>r. Inr ((bump d)\<lparr>replicas := replicas d @ [r]\<rparr>)))"

definition live_container :: "string option \<Rightarrow> string option" where
  "live_container c = (if c = Some [] then None else c)"

definition container_call :: "host \<Rightarrow> (string \<Rightarrow> docker_call) \<Rightarrow> string option \<Rightarrow> unit res" where
  "container_call h call c =
     (case live_container c of
        None \<Rightarrow> Inr ()
      | Some cid \<Rightarrow> if h_docker h (call cid) = DConnection then Inl connection_error else Inr ())"

definition stop_replica_container :: "host \<Rightarrow> replica_row \<Rightarrow> unit res" where
  "stop_replica_container h r = container_call h (ContainerStop (rp_id r)) (rp_container_id r)"

definition remove_replica_container :: "host \<Rightarrow> replica_row \<Rightarrow> unit res" where
  "remove_replica_container h r = container_call h (ContainerRemove (rp_id r)) (rp_container_id r)"

definition start_replica_container :: "host \<Rightarrow> agent_row \<Rightarrow> replica_row \<Rightarrow> replica_row res" where
  "start_replica_container h ag r =
     (case live_container (rp_container_id r) of
        None \<Rightarrow> run_replica_container h ag r
      | Some cid \<Rightarrow>
          (case h_docker h (ContainerStart (rp_id r) cid) of
             DOk _ \<Rightarrow> Inr (r\<lparr>rp_status := ''running''\<rparr>)
           | DNotFound \<Rightarrow> run_replica_container h ag (r\<lparr>rp_container_id := None\<rparr>)
           | DApiError \<Rightarrow> Inr (r\<lparr>rp_status := ''error''\<rparr>)
           | DConnection \<Rightarrow> Inl connection_error))"

definition restart_replica :: "host \<Rightarrow> replica_row \<Rightarrow> replica_row res" where
  "restart_replica h r =
     (case live_container (rp_container_id r) of
        None \<Rightarrow> Inr r
      | Some cid \<Rightarrow>
          (case h_docker h (ContainerRestart (rp_id r) cid) of
             DOk _ \<Rightarrow> Inr (r\<lparr>rp_status := ''running''\<rparr>)
           | DConnection \<Rightarrow> Inl connection_error
           | _ \<Rightarrow> Inr (r\<lparr>rp_status := ''error''\<rparr>)))"

text \<open>The loops over the replicas of an agent: those that satisfy \<open>P\<close> are replaced.\<close>

definition each_replica ::
  "(replica_row \<Rightarrow> bool) \<Rightarrow> (replica_row \<Rightarrow> replica_row res) \<Rightarrow> agent_db \<Rightarrow> agent_db res" where
  "each_replica P f d =
     res_bind (map_res (\<lambda>r. if P r then f r else Inr r) (replicas d)) (\<lambda>rs. Inr (d\<lparr>replicas := rs\<rparr>))"

definition rolling_restart :: "host \<Rightarrow> agent_row \<Rightarrow> agent_db \<Rightarrow> agent_db res" where
  "rolling_restart h ag d =
     each_replica (\<lambda>r. rp_agent_id r = ag_id ag \<and> rp_status r = ''running'') (restart_replica h) d"

definition trigger_rolling_restart_if_clustered :: "host \<Rightarrow> agent_row \<Rightarrow> agent_db \<Rightarrow> agent_db res" where
  "trigger_rolling_restart_if_clustered h ag d =
     (if 1 < ag_target_replicas ag then rolling_restart h ag d else Inr d)"

text \<open>
  Deleting replicas: the jobs that refer to them keep their rows, with the reference set to null.
\<close>

definition forget :: "nat list \<Rightarrow> nat option \<Rightarrow> nat option" where
  "forget gone x = (case x of Some i \<Rightarrow> if i \<in> set gone then None else Some i | None \<Rightarrow> None)"

definition delete_replicas :: "nat list \<Rightarrow> agent_db \<Rightarrow> agent_db" where
  "delete_replicas gone d =
     d\<lparr>replicas := filter (\<lambda>r. rp_id r \<notin> set gone) (replicas d),
       jobs := map (\<lambda>j. j\<lparr>jb_replica_id := forget gone (jb_replica_id j),
                          jb_claimed_by := forget gone (jb_claimed_by j)\<rparr>) (jobs d)\<rparr>"

section \<open>Life cycle of an agent\<close>

definition new_agent_row ::
  "tier_config \<Rightarrow> nat \<Rightarrow> nat \<Rightarrow> nat \<Rightarrow> string \<Rightarrow> string option \<Rightarrow> agent_row" where
  "new_agent_row c i account_id namespace_id name display_name =
     \<lparr>ag_id = i, ag_account_id = account_id, ag_namespace_id = namespace_id,
      ag_name = name, ag_display_name = display_name, ag_container_id = None,
      ag_status = ''creating'', ag_ai_engine = None, ag_ai_model = None, ag_ai_api_key = None,
      ag_system_prompt = None, ag_memory_limit_mb = memory_limit_mb c,
      ag_cpu_limit_percent = cpu_limit_percent c, ag_enabled = True, ag_auto_channel = None,
      ag_mcp_servers = None, ag_heartbeat_interval = None, ag_heartbeat_enabled = False,
      ag_heartbeat_next_at = None, ag_cloned_from_id = None, ag_target_replicas = 1, ag_chat_token = None\<rparr>"

definition create_agent ::
  "host \<Rightarrow> agent_db \<Rightarrow> nat \<Rightarrow> string \<Rightarrow> string \<Rightarrow> string option \<Rightarrow> agent_db res" where
  "create_agent h d account_id tier name display_name =
     res_bind (get_tier_config tier)
     (\<lambda>c. if max_agents c \<le> get_agent_count d account_id then Inl (ConflictError ''slots'')
          else res_bind (one_or_none (\<lambda>a. ag_account_id a = account_id \<and> ag_name a = name) (agents d))
     (\<lambda>existing. if existing \<noteq> None then Inl (ConflictError ''Agent'')
          else res_bind (ns_create (plat d) account_id name None None)
     (\<lambda>(db, namespace).
          if \<not> slug_match False name then Inl (ValueError ''agent name'')
          else let ag = new_agent_row c (next_id db) account_id (ns_id namespace) name display_name
               in res_bind (create_replica h ag (bump (d\<lparr>plat := db, agents := agents d @ [ag]\<rparr>)))
                  (\<lambda>d'. Inr (restatus (ag_id ag) d')))))"

definition scale_agent :: "host \<Rightarrow> agent_db \<Rightarrow> nat \<Rightarrow> string \<Rightarrow> int \<Rightarrow> string \<Rightarrow> agent_db res" where
  "scale_agent h d account_id agent_name target_replicas tier =
     res_bind (get_agent d account_id agent_name)
     (\<lambda>ag. res_bind (get_tier_config tier)
     (\<lambda>c. let current_replicas = get_replicas d (ag_id ag);
              current_count = int (length current_replicas);
              total_after = get_total_replica_count d account_id - current_count + target_replicas;
              d1 = set_agent (ag_id ag) (\<lambda>a. a\<lparr>ag_target_replicas := target_replicas\<rparr>) d
          in if max_agents c < total_after then Inl (ConflictError ''slots'')
             else res_bind
               (if current_count < target_replicas
                then iter_res (nat (target_replicas - current_count)) (create_replica h ag) d1
                else if target_replicas < current_count
                then let gone = take (nat (current_count - target_replicas))
                                  (sort_key (\<lambda>r. - rp_created_at r) current_replicas)
                     in res_bind (map_res (\<lambda>r. res_bind (stop_replica_container h r)
                                                    (\<lambda>_. remove_replica_container h r)) gone)
                        (\<lambda>_. Inr (delete_replicas (map rp_id gone) d1))
                else Inr d1)
               (\<lambda>d2. Inr (restatus (ag_id ag) d2))))"

definition named_replica :: "agent_db \<Rightarrow> agent_row \<Rightarrow> string \<Rightarrow> replica_row res" where
  "named_replica d ag name =
     (case find (\<lambda>r. rp_name r = name) (get_replicas d (ag_id ag)) of
        None \<Rightarrow> Inl (NotFoundError ''Replica'') | Some r \<Rightarrow> Inr r)"

definition startable :: "replica_row \<Rightarrow> bool" where
  "startable r = (rp_status r \<in> {''stopped'', ''error''})"

definition start_agent :: "host \<Rightarrow> agent_db \<Rightarrow> nat \<Rightarrow> string \<Rightarrow> string \<Rightarrow> agent_db res" where
  "start_agent h d account_id agent_name replica_name =
     res_bind (get_agent d account_id agent_name)
     (\<lambda>ag. res_bind
        (if replica_name \<noteq> [] then
           res_bind (named_replica d ag replica_name)
           (\<lambda>r. if \<not> startable r then Inl (ConflictError ''Replica'')
                else each_replica (\<lambda>x. rp_id x = rp_id r) (start_replica_container h ag) d)
         else each_replica (\<lambda>r. rp_agent_id r = ag_id ag \<and> startable r) (start_replica_container h ag) d)
        (\<lambda>d'. Inr (restatus (ag_id ag) d')))"

definition stop_replica :: "host \<Rightarrow> replica_row \<Rightarrow> replica_row res" where
  "stop_replica h r = res_bind (stop_replica_container h r) (\<lambda>_. Inr (r\<lparr>rp_status := ''stopped''\<rparr>))"

definition stop_agent :: "host \<Rightarrow> agent_db \<Rightarrow> nat \<Rightarrow> string \<Rightarrow> string \<Rightarrow> agent_db res" where
  "stop_agent h d account_id agent_name replica_name =
     res_bind (get_agent d account_id agent_name)
     (\<lambda>ag. res_bind
        (if replica_name \<noteq> [] then
           res_bind (named_replica d ag replica_name)
           (\<lambda>r. if rp_status r \<noteq> ''running'' then Inl (ConflictError ''Replica'')
                else each_replica (\<lambda>x. rp_id x = rp_id r) (stop_replica h) d)
         else each_replica (\<lambda>r. rp_agent_id r = ag_id ag \<and> rp_status r = ''running'') (stop_replica h) d)
        (\<lambda>d'. Inr (restatus (ag_id ag) d')))"

text \<open>Deleting agents removes, by the cascades, every row that refers to them.\<close>

definition delete_agents :: "nat list \<Rightarrow> agent_db \<Rightarrow> agent_db" where
  "delete_agents gone d =
     (let keep = (\<lambda>i. i \<notin> set gone);
          gone_sc = map sc_id (filter (\<lambda>s. \<not> keep (sc_agent_id s)) (schedules d))
      in d\<lparr>agents := map (\<lambda>a. a\<lparr>ag_cloned_from_id := forget gone (ag_cloned_from_id a)\<rparr>)
                       (filter (\<lambda>a. keep (ag_id a)) (agents d)),
           replicas := filter (\<lambda>r. keep (rp_agent_id r)) (replicas d),
           schedules := filter (\<lambda>s. keep (sc_agent_id s)) (schedules d),
           webhooks := filter (\<lambda>w. keep (wh_agent_id w)) (webhooks d),
           state_entries := filter (\<lambda>s. keep (st_agent_id s)) (state_entries d),
           channels := filter (\<lambda>c. keep (ch_agent_id c)) (channels d),
           agent_runs := filter (\<lambda>r. keep (rn_agent_id r)) (agent_runs d),
           jobs := filter (\<lambda>j. keep (jb_agent_id j) \<and> jb_schedule_id j \<notin> set gone_sc) (jobs d),
           fires := filter (\<lambda>f. keep (fr_agent_id f) \<and> fr_schedule_id f \<notin> set gone_sc) (fires d)\<rparr>)"

text \<open>
  Deleting a namespace removes its services with all that is in them, its shares, and the agents that live in it.
\<close>

definition ns_cascade :: "nat \<Rightarrow> platform_db \<Rightarrow> platform_db" where
  "ns_cascade n db =
     (let db1 = foldl (\<lambda>db i. svc_cascade i db) db
                  (map svc_id (filter (\<lambda>s. svc_namespace_id s = n) (services db)))
      in db1\<lparr>shares := filter (\<lambda>s. sh_namespace_id s \<noteq> n) (shares db1),
             namespaces := filter (\<lambda>x. ns_id x \<noteq> n) (namespaces db1)\<rparr>)"

definition delete_namespace :: "nat \<Rightarrow> agent_db \<Rightarrow> agent_db" where
  "delete_namespace n d =
     (let d1 = delete_agents (map ag_id (filter (\<lambda>a. ag_namespace_id a = n) (agents d))) d
      in d1\<lparr>plat := ns_cascade n (plat d1)\<rparr>)"

definition destroy_agent :: "host \<Rightarrow> agent_db \<Rightarrow> nat \<Rightarrow> string \<Rightarrow> agent_db res" where
  "destroy_agent h d account_id agent_name =
     res_bind (get_agent d account_id agent_name)
     (\<lambda>ag. res_bind (map_res (remove_replica_container h) (get_replicas d (ag_id ag)))
     (\<lambda>_. res_bind (container_call h (ContainerRemove (ag_id ag)) (ag_container_id ag))
     (\<lambda>_. res_bind (one_or_none (\<lambda>n. ns_id n = ag_namespace_id ag) (namespaces (plat d)))
     (\<lambda>namespace.
        let d1 = delete_agents [ag_id ag] d
        in Inr (case namespace of None \<Rightarrow> d1 | Some n \<Rightarrow> delete_namespace (ns_id n) d1)))))"

definition force_restart_agent :: "host \<Rightarrow> agent_db \<Rightarrow> agent_row \<Rightarrow> agent_db res" where
  "force_restart_agent h d ag =
     (case live_container (ag_container_id ag) of
        None \<Rightarrow> Inr (set_agent (ag_id ag) (\<lambda>a. a\<lparr>ag_status := ''error''\<rparr>) d)
      | Some cid \<Rightarrow>
          (case h_docker h (ContainerRestart (ag_id ag) cid) of
             DOk _ \<Rightarrow> Inr (set_agent (ag_id ag) (\<lambda>a. a\<lparr>ag_status := ''running''\<rparr>) d)
           | DConnection \<Rightarrow> Inl connection_error
           | _ \<Rightarrow> Inr (set_agent (ag_id ag) (\<lambda>a. a\<lparr>ag_status := ''error''\<rparr>) d)))"

section \<open>Schedules\<close>

text \<open>\<open>s.split()\<close> and \<open>int(s)\<close> of Python.\<close>

function split_ws :: "string \<Rightarrow> string list" where
  "split_ws s =
     (let t = py_lstrip s
      in if t = [] then [] else takeWhile (\<lambda>c. \<not> py_isspace c) t # split_ws (dropWhile (\<lambda>c. \<not> py_isspace c) t))"
  by pat_completeness auto
termination
proof (relation "measure length")
  fix s t :: string assume t: "t = py_lstrip s" "t \<noteq> []"
  have "\<not> py_isspace (hd t)" using hd_dropWhile [of py_isspace s] t by (simp add: py_lstrip_def)
  then have "dropWhile (\<lambda>c. \<not> py_isspace c) t = dropWhile (\<lambda>c. \<not> py_isspace c) (tl t)"
    using t(2) by (cases t) auto
  then have "length (dropWhile (\<lambda>c. \<not> py_isspace c) t) \<le> length (tl t)"
    using length_dropWhile_le [of "\<lambda>c. \<not> py_isspace c" "tl t"] by simp
  also have "\<dots> < length t" using t(2) by (cases t) auto
  also have "\<dots> \<le> length s" by (simp add: t(1) py_lstrip_def length_dropWhile_le)
  finally show "(dropWhile (\<lambda>c. \<not> py_isspace c) t, s) \<in> measure length" by simp
qed simp

declare split_ws.simps [simp del]

definition py_int :: "string \<Rightarrow> int option" where
  "py_int s =
     (let t = py_strip s;
          neg = is_head (CHR ''-'') t;
          ds = (if neg \<or> is_head (CHR ''+'') t then tl t else t);
          groups = py_split ''_'' ds
      in if list_all (\<lambda>g. g \<noteq> [] \<and> list_all is_dig g) groups
         then Some ((if neg then - 1 else 1) * int (dec_value (concat groups))) else None)"

definition cron_min_interval_seconds :: "string \<Rightarrow> int" where
  "cron_min_interval_seconds cron_expression =
     (let parts = split_ws cron_expression
      in if length parts < 5 then 60
         else if parts ! 0 = ''*'' then 60
         else if py_startswith (parts ! 0) ''*/''
         then (case py_int (drop 2 (parts ! 0)) of Some step \<Rightarrow> step * 60 | None \<Rightarrow> 60)
         else if parts ! 1 = ''*'' then 60
         else if py_startswith (parts ! 1) ''*/''
         then (case py_int (drop 2 (parts ! 1)) of Some step \<Rightarrow> step * 3600 | None \<Rightarrow> 3600)
         else 3600)"

definition compute_next_run :: "host \<Rightarrow> string \<Rightarrow> string \<Rightarrow> int res" where
  "compute_next_run h cron tz =
     (case h_croniter h cron tz of None \<Rightarrow> Inl (ValueError ''cron'') | Some t \<Rightarrow> Inr t)"

definition add_schedule ::
  "host \<Rightarrow> agent_db \<Rightarrow> nat \<Rightarrow> string \<Rightarrow> string \<Rightarrow> string \<Rightarrow> string \<Rightarrow> json \<Rightarrow> string \<Rightarrow> string \<Rightarrow> string
     \<Rightarrow> (agent_db \<times> schedule_row) res" where
  "add_schedule h d account_id agent_name function_name cron tz failure_policy tier orchestration_mode mode =
     res_bind (get_agent d account_id agent_name)
     (\<lambda>ag. res_bind (get_tier_config tier)
     (\<lambda>c. if cron_min_interval_seconds cron < min_schedule_seconds c then Inl (ForbiddenError ''interval'')
          else res_bind (compute_next_run h cron tz)
     (\<lambda>next. if orchestration_mode \<notin> set ORCHESTRATION_MODES then Inl (ValueError ''orchestration mode'')
          else let s = \<lparr>sc_id = new_id d, sc_agent_id = ag_id ag, sc_function_name = function_name,
                   sc_cron_expression = cron, sc_timezone = tz, sc_failure_policy = failure_policy,
                   sc_enabled = True, sc_mode = mode, sc_orchestration_mode = orchestration_mode,
                   sc_procedure_name = None, sc_consecutive_failures = 0, sc_last_run_at = None,
                   sc_next_run_at = Some next\<rparr>
               in Inr ((bump d)\<lparr>schedules := schedules d @ [s]\<rparr>, s))))"

definition remove_schedule :: "agent_db \<Rightarrow> nat \<Rightarrow> string \<Rightarrow> nat \<Rightarrow> agent_db res" where
  "remove_schedule d account_id agent_name schedule_id =
     res_bind (get_agent d account_id agent_name)
     (\<lambda>ag. res_bind (fetch (NotFoundError ''Schedule'')
                      (\<lambda>s. sc_id s = schedule_id \<and> sc_agent_id s = ag_id ag) (schedules d))
     (\<lambda>s. Inr (d\<lparr>schedules := filter (\<lambda>x. sc_id x \<noteq> sc_id s) (schedules d),
                 jobs := filter (\<lambda>j. jb_schedule_id j \<noteq> sc_id s) (jobs d),
                 fires := filter (\<lambda>f. fr_schedule_id f \<noteq> sc_id s) (fires d)\<rparr>)))"

definition list_schedules :: "agent_db \<Rightarrow> nat \<Rightarrow> string \<Rightarrow> schedule_row list res" where
  "list_schedules d account_id agent_name =
     res_bind (get_agent d account_id agent_name)
     (\<lambda>ag. Inr (filter (\<lambda>s. sc_agent_id s = ag_id ag) (schedules d)))"

definition list_runs :: "agent_db \<Rightarrow> nat \<Rightarrow> nat \<Rightarrow> nat \<Rightarrow> nat \<Rightarrow> (run_row list \<times> nat) res" where
  "list_runs d account_id agent_id limit offset =
     res_bind (get_agent_by_id d account_id agent_id)
     (\<lambda>ag. let rs = filter (\<lambda>r. rn_agent_id r = ag_id ag) (agent_runs d)
           in Inr (take limit (drop offset (sort_key (\<lambda>r. - rn_created_at r) rs)), length rs))"

section \<open>Webhooks\<close>

definition add_webhook ::
  "host \<Rightarrow> agent_db \<Rightarrow> nat \<Rightarrow> string \<Rightarrow> string \<Rightarrow> string \<Rightarrow> string option \<Rightarrow> string \<Rightarrow> (agent_db \<times> webhook_row) res" where
  "add_webhook h d account_id agent_name path handler secret orchestration_mode =
     res_bind (get_agent d account_id agent_name)
     (\<lambda>ag. res_bind (one_or_none (\<lambda>w. wh_agent_id w = ag_id ag \<and> wh_path w = path) (webhooks d))
     (\<lambda>existing.
        if existing \<noteq> None then Inl (ConflictError ''Webhook'')
        else if orchestration_mode \<notin> set ORCHESTRATION_MODES then Inl (ValueError ''orchestration mode'')
        else let w = \<lparr>wh_id = new_id d, wh_agent_id = ag_id ag, wh_path = path, wh_handler_function_name = handler,
                      wh_secret_hash = (case secret of None \<Rightarrow> None
                                        | Some s \<Rightarrow> if s = [] then None else Some (h_sha256 h s)),
                      wh_orchestration_mode = orchestration_mode, wh_enabled = True\<rparr>
             in Inr ((bump d)\<lparr>webhooks := webhooks d @ [w]\<rparr>, w)))"

definition remove_webhook :: "agent_db \<Rightarrow> nat \<Rightarrow> string \<Rightarrow> nat \<Rightarrow> agent_db res" where
  "remove_webhook d account_id agent_name webhook_id =
     res_bind (get_agent d account_id agent_name)
     (\<lambda>ag. res_bind (fetch (NotFoundError ''Webhook'')
                      (\<lambda>w. wh_id w = webhook_id \<and> wh_agent_id w = ag_id ag) (webhooks d))
     (\<lambda>w. Inr (d\<lparr>webhooks := filter (\<lambda>x. wh_id x \<noteq> wh_id w) (webhooks d)\<rparr>)))"

definition list_webhooks :: "agent_db \<Rightarrow> nat \<Rightarrow> string \<Rightarrow> webhook_row list res" where
  "list_webhooks d account_id agent_name =
     res_bind (get_agent d account_id agent_name)
     (\<lambda>ag. Inr (filter (\<lambda>w. wh_agent_id w = ag_id ag) (webhooks d)))"

definition resolve_webhook :: "agent_db \<Rightarrow> string \<Rightarrow> string \<Rightarrow> webhook_row option res" where
  "resolve_webhook d agent_name path =
     one_or_none (\<lambda>w. list_ex (\<lambda>a. ag_id a = wh_agent_id w \<and> ag_name a = agent_name) (agents d)
                   \<and> wh_path w = path \<and> wh_enabled w) (webhooks d)"

section \<open>State\<close>

definition state_entry :: "agent_db \<Rightarrow> nat \<Rightarrow> string \<Rightarrow> state_row option res" where
  "state_entry d agent_id key =
     one_or_none (\<lambda>s. st_agent_id s = agent_id \<and> st_key s = key) (state_entries d)"

definition total_state :: "agent_db \<Rightarrow> nat \<Rightarrow> int" where
  "total_state d agent_id = sum_list (map st_size_bytes (filter (\<lambda>s. st_agent_id s = agent_id) (state_entries d)))"

definition set_state ::
  "host \<Rightarrow> agent_db \<Rightarrow> nat \<Rightarrow> string \<Rightarrow> string \<Rightarrow> json \<Rightarrow> string \<Rightarrow> agent_db res" where
  "set_state h d account_id agent_name key val tier =
     res_bind (get_agent d account_id agent_name)
     (\<lambda>ag. res_bind (get_tier_config tier)
     (\<lambda>c. res_bind (state_entry d (ag_id ag) key)
     (\<lambda>existing.
        let size = int (length (json_dumps val));
            existing_size = (case existing of None \<Rightarrow> 0 | Some e \<Rightarrow> st_size_bytes e);
            projected = total_state d (ag_id ag) - existing_size + size
        in if max_state_bytes c < projected then Inl (ForbiddenError ''state size'')
           else res_bind (encrypt_value (h_aead h) (h_bytes h) (h_kek h) val)
           (\<lambda>enc. case existing of
              Some e \<Rightarrow> Inr (d\<lparr>state_entries := update_row st_id (st_id e)
                                (\<lambda>s. s\<lparr>st_value := enc, st_size_bytes := size, st_updated_at := h_now h\<rparr>)
                                (state_entries d)\<rparr>)
            | None \<Rightarrow>
                if 255 < length key then Inl DBAPIError
                else Inr ((bump d)\<lparr>state_entries := state_entries d @
                       [\<lparr>st_id = new_id d, st_agent_id = ag_id ag, st_key = key, st_value = enc,
                         st_size_bytes = size, st_updated_at = h_now h\<rparr>]\<rparr>)))))"

definition get_state :: "host \<Rightarrow> agent_db \<Rightarrow> nat \<Rightarrow> string \<Rightarrow> string \<Rightarrow> (json \<times> state_row) res" where
  "get_state h d account_id agent_name key =
     res_bind (get_agent d account_id agent_name)
     (\<lambda>ag. res_bind (fetch (NotFoundError ''State key'') (\<lambda>s. st_agent_id s = ag_id ag \<and> st_key s = key) (state_entries d))
     (\<lambda>e. res_bind (decrypt_value (h_aead h) (h_kek h) (st_value e)) (\<lambda>v. Inr (v, e))))"

definition delete_state :: "agent_db \<Rightarrow> nat \<Rightarrow> string \<Rightarrow> string \<Rightarrow> agent_db res" where
  "delete_state d account_id agent_name key =
     res_bind (get_agent d account_id agent_name)
     (\<lambda>ag. res_bind (fetch (NotFoundError ''State key'') (\<lambda>s. st_agent_id s = ag_id ag \<and> st_key s = key) (state_entries d))
     (\<lambda>e. Inr (d\<lparr>state_entries := filter (\<lambda>s. st_id s \<noteq> st_id e) (state_entries d)\<rparr>)))"

record state_keys = sk_keys :: "string list" sk_total :: int sk_max :: int

definition list_state_keys ::
  "(string \<Rightarrow> int) \<Rightarrow> agent_db \<Rightarrow> nat \<Rightarrow> string \<Rightarrow> string \<Rightarrow> state_keys res" where
  "list_state_keys collation d account_id agent_name tier =
     res_bind (get_agent d account_id agent_name)
     (\<lambda>ag. res_bind (get_tier_config tier)
     (\<lambda>c. let rows = sort_key (collation \<circ> st_key) (filter (\<lambda>s. st_agent_id s = ag_id ag) (state_entries d))
          in Inr \<lparr>sk_keys = map st_key rows, sk_total = sum_list (map st_size_bytes rows), sk_max = max_state_bytes c\<rparr>))"

definition get_all_state :: "host \<Rightarrow> agent_db \<Rightarrow> nat \<Rightarrow> jdict" where
  "get_all_state h d agent_id =
     foldl (\<lambda>state e. case decrypt_value (h_aead h) (h_kek h) (st_value e) of
                       Inl _ \<Rightarrow> state | Inr v \<Rightarrow> AList.update (st_key e) v state)
       [] (filter (\<lambda>s. st_agent_id s = agent_id) (state_entries d))"

section \<open>Configuration\<close>

definition validate_api_key :: "host \<Rightarrow> string \<Rightarrow> string \<Rightarrow> unit res" where
  "validate_api_key h engine api_key =
     (if engine \<notin> {''openrouter'', ''openai'', ''anthropic''} then Inr ()
      else case h_key_check h engine api_key of
        Some s \<Rightarrow> if s = 401 then Inl (ValueError ''unauthorized'')
                 else if s = 403 then Inl (ValueError ''forbidden'') else Inr ()
      | None \<Rightarrow> Inr ())"

text \<open>An argument left at \<open>_UNSET\<close> is \<open>None\<close>; the inner option is the value that is passed.\<close>

definition configure_ai ::
  "host \<Rightarrow> agent_db \<Rightarrow> nat \<Rightarrow> string \<Rightarrow> string \<Rightarrow> string \<Rightarrow> string option \<Rightarrow> string option option \<Rightarrow> string option option
     \<Rightarrow> agent_db res" where
  "configure_ai h d account_id agent_name engine model api_key system_prompt auto_channel =
     res_bind (get_agent d account_id agent_name)
     (\<lambda>ag. res_bind
        (case api_key of
           None \<Rightarrow> Inr (ag_ai_api_key ag)
         | Some k \<Rightarrow> if k = [] then Inr (ag_ai_api_key ag)
                     else res_bind (validate_api_key h engine k)
                          (\<lambda>_. res_bind (encrypt_value (h_aead h) (h_bytes h) (h_kek h) (JStr k)) (\<lambda>e. Inr (Some e))))
     (\<lambda>key. if (\<exists>c \<in> set_option (case auto_channel of None \<Rightarrow> None | Some c \<Rightarrow> c). c \<notin> set CHANNEL_TYPES)
        then Inl (ValueError ''auto_channel'')
        else let ag' = ag\<lparr>ag_ai_engine := Some engine, ag_ai_model := Some model, ag_ai_api_key := key,
                    ag_system_prompt := (case system_prompt of None \<Rightarrow> ag_system_prompt ag | Some p \<Rightarrow> p),
                    ag_auto_channel := (case auto_channel of None \<Rightarrow> ag_auto_channel ag | Some c \<Rightarrow> c)\<rparr>
             in trigger_rolling_restart_if_clustered h ag' (set_agent (ag_id ag) (\<lambda>_. ag') d)))"

definition remove_ai :: "agent_db \<Rightarrow> nat \<Rightarrow> string \<Rightarrow> agent_db res" where
  "remove_ai d account_id agent_name =
     res_bind (get_agent d account_id agent_name)
     (\<lambda>ag. Inr (set_agent (ag_id ag)
        (\<lambda>a. a\<lparr>ag_ai_engine := None, ag_ai_model := None, ag_ai_api_key := None, ag_system_prompt := None\<rparr>) d))"

definition generate_chat_token :: "agent_db \<Rightarrow> nat \<Rightarrow> string \<Rightarrow> string \<Rightarrow> agent_db res" where
  "generate_chat_token d account_id agent_name token =
     res_bind (get_agent d account_id agent_name)
     (\<lambda>ag. if list_ex (\<lambda>a. ag_chat_token a = Some token \<and> ag_id a \<noteq> ag_id ag) (agents d) then Inl IntegrityError
           else Inr (set_agent (ag_id ag) (\<lambda>a. a\<lparr>ag_chat_token := Some token\<rparr>) d))"

definition revoke_chat_token :: "agent_db \<Rightarrow> nat \<Rightarrow> string \<Rightarrow> agent_db res" where
  "revoke_chat_token d account_id agent_name =
     res_bind (get_agent d account_id agent_name)
     (\<lambda>ag. Inr (set_agent (ag_id ag) (\<lambda>a. a\<lparr>ag_chat_token := None\<rparr>) d))"

definition resolve_agent_by_chat_token :: "agent_db \<Rightarrow> string \<Rightarrow> agent_row option res" where
  "resolve_agent_by_chat_token d token = one_or_none (\<lambda>a. ag_chat_token a = Some token) (agents d)"

definition add_channel :: "host \<Rightarrow> agent_db \<Rightarrow> nat \<Rightarrow> string \<Rightarrow> string \<Rightarrow> json \<Rightarrow> agent_db res" where
  "add_channel h d account_id agent_name channel_type config =
     res_bind (get_agent d account_id agent_name)
     (\<lambda>ag. res_bind (one_or_none (\<lambda>c. ch_agent_id c = ag_id ag \<and> ch_channel_type c = channel_type) (channels d))
     (\<lambda>existing. if existing \<noteq> None then Inl (ConflictError ''Channel'')
        else res_bind (encrypt_value (h_aead h) (h_bytes h) (h_kek h) config)
     (\<lambda>enc. if channel_type \<notin> set CHANNEL_TYPES then Inl (ValueError ''channel type'')
        else Inr ((bump d)\<lparr>channels := channels d @
               [\<lparr>ch_id = new_id d, ch_agent_id = ag_id ag, ch_channel_type = channel_type, ch_config = enc,
                 ch_enabled = True\<rparr>]\<rparr>))))"

definition remove_channel :: "agent_db \<Rightarrow> nat \<Rightarrow> string \<Rightarrow> string \<Rightarrow> agent_db res" where
  "remove_channel d account_id agent_name channel_type =
     res_bind (get_agent d account_id agent_name)
     (\<lambda>ag. res_bind (fetch (NotFoundError ''Channel'')
                      (\<lambda>c. ch_agent_id c = ag_id ag \<and> ch_channel_type c = channel_type) (channels d))
     (\<lambda>c. Inr (d\<lparr>channels := filter (\<lambda>x. ch_id x \<noteq> ch_id c) (channels d)\<rparr>)))"

definition configure_mcp_servers :: "agent_db \<Rightarrow> nat \<Rightarrow> string \<Rightarrow> jdict \<Rightarrow> agent_db res" where
  "configure_mcp_servers d account_id agent_name servers =
     res_bind (get_agent d account_id agent_name)
     (\<lambda>ag. Inr (set_agent (ag_id ag) (\<lambda>a. a\<lparr>ag_mcp_servers := (if servers = [] then None else Some servers)\<rparr>) d))"

definition get_mcp_servers :: "agent_db \<Rightarrow> nat \<Rightarrow> string \<Rightarrow> jdict option res" where
  "get_mcp_servers d account_id agent_name =
     res_bind (get_agent d account_id agent_name) (\<lambda>ag. Inr (ag_mcp_servers ag))"

definition remove_mcp_servers :: "agent_db \<Rightarrow> nat \<Rightarrow> string \<Rightarrow> agent_db res" where
  "remove_mcp_servers d account_id agent_name =
     res_bind (get_agent d account_id agent_name)
     (\<lambda>ag. Inr (set_agent (ag_id ag) (\<lambda>a. a\<lparr>ag_mcp_servers := None\<rparr>) d))"

section \<open>Clones\<close>

text \<open>The rows copied for a clone: each gets a fresh identifier and the new agent.\<close>

definition copy_rows :: "(nat \<Rightarrow> 'r \<Rightarrow> 'r) \<Rightarrow> nat \<Rightarrow> 'r list \<Rightarrow> 'r list" where
  "copy_rows f start rows = map (\<lambda>(i, r). f (start + i) r) (enumerate 0 rows)"

definition clone_row :: "tier_config \<Rightarrow> nat \<Rightarrow> nat \<Rightarrow> nat \<Rightarrow> string \<Rightarrow> agent_row \<Rightarrow> agent_row" where
  "clone_row c i account_id namespace_id new_name src =
     (new_agent_row c i account_id namespace_id new_name (ag_display_name src))
       \<lparr>ag_ai_engine := ag_ai_engine src, ag_ai_model := ag_ai_model src, ag_ai_api_key := ag_ai_api_key src,
        ag_system_prompt := ag_system_prompt src, ag_auto_channel := ag_auto_channel src,
        ag_mcp_servers := ag_mcp_servers src, ag_cloned_from_id := Some (ag_id src)\<rparr>"

definition clone_container :: "host \<Rightarrow> agent_row \<Rightarrow> agent_row res" where
  "clone_container h ag =
     (case (case ensure_network h (ag_id ag) of
              DOk _ \<Rightarrow> h_docker h (ContainerRun (ag_id ag) (''agent-'' @ ag_name ag)) | r \<Rightarrow> r) of
        DOk cid \<Rightarrow> Inr (ag\<lparr>ag_container_id := Some cid, ag_status := ''running''\<rparr>)
      | DConnection \<Rightarrow> Inl connection_error
      | _ \<Rightarrow> Inr (ag\<lparr>ag_status := ''error''\<rparr>))"

definition clone_state :: "host \<Rightarrow> nat \<Rightarrow> nat \<Rightarrow> state_row \<Rightarrow> state_row" where
  "clone_state h n i s = s\<lparr>st_id := i, st_agent_id := n, st_updated_at := h_now h\<rparr>"

definition clone_schedule :: "nat \<Rightarrow> nat \<Rightarrow> schedule_row \<Rightarrow> schedule_row" where
  "clone_schedule n i s =
     s\<lparr>sc_id := i, sc_agent_id := n, sc_enabled := False, sc_mode := ''single'', sc_procedure_name := None,
       sc_consecutive_failures := 0, sc_last_run_at := None, sc_next_run_at := None\<rparr>"

definition clone_channel :: "nat \<Rightarrow> nat \<Rightarrow> channel_row \<Rightarrow> channel_row" where
  "clone_channel n i c = c\<lparr>ch_id := i, ch_agent_id := n\<rparr>"

definition clone_agent ::
  "host \<Rightarrow> agent_db \<Rightarrow> nat \<Rightarrow> string \<Rightarrow> string \<Rightarrow> string \<Rightarrow> agent_db res" where
  "clone_agent h d account_id source_agent_name new_name tier =
     res_bind (get_tier_config tier)
     (\<lambda>c. if max_agents c \<le> get_agent_count d account_id then Inl (ConflictError ''slots'')
          else res_bind (one_or_none (\<lambda>a. ag_account_id a = account_id \<and> ag_name a = new_name) (agents d))
     (\<lambda>existing. if existing \<noteq> None then Inl (ConflictError ''Agent'')
          else res_bind (get_agent d account_id source_agent_name)
     (\<lambda>src. res_bind (ns_create (plat d) account_id new_name None None)
     (\<lambda>(db, namespace).
          if \<not> slug_match False new_name then Inl (ValueError ''agent name'')
          else let n = next_id db;
                   st = filter (\<lambda>s. st_agent_id s = ag_id src) (state_entries d);
                   sc = filter (\<lambda>s. sc_agent_id s = ag_id src) (schedules d);
                   ch = filter (\<lambda>s. ch_agent_id s = ag_id src) (channels d);
                   n1 = Suc n; n2 = n1 + length st; n3 = n2 + length sc; n4 = n3 + length ch
               in res_bind (clone_container h (clone_row c n account_id (ns_id namespace) new_name src))
                  (\<lambda>ag. Inr (d\<lparr>plat := db\<lparr>next_id := n4\<rparr>, agents := agents d @ [ag],
                     state_entries := state_entries d @ copy_rows (clone_state h n) n1 st,
                     schedules := schedules d @ copy_rows (clone_schedule n) n2 sc,
                     channels := channels d @ copy_rows (clone_channel n) n3 ch\<rparr>))))))"

end
