(* ===== verification/AgentInv.thy ===== *)
theory AgentInv
  imports AgentService
begin

text \<open>
  The invariant of the agent tables and the machine of all requests on the database: an agent lives in the
  namespace of its own name and account, identifiers and the unique keys of every table are unique, and
  every row belongs to an agent that exists. Since namespace names are unique across accounts, so are the
  names of agents, which is what makes a webhook address (an agent name and a path) unambiguous.
\<close>

section \<open>Tables owned by agents\<close>

definition rows_ok ::
  "nat \<Rightarrow> nat set \<Rightarrow> ('r \<Rightarrow> nat) \<Rightarrow> ('r \<Rightarrow> nat) \<Rightarrow> ('r \<Rightarrow> 'k) \<Rightarrow> 'r list \<Rightarrow> bool" where
  "rows_ok n owners rid fk key rows \<longleftrightarrow>
     distinct (map rid rows) \<and> distinct (map (\<lambda>r. (fk r, key r)) rows)
     \<and> list_all (\<lambda>r. rid r < n \<and> fk r \<in> owners) rows"

lemma rows_ok_mono:
  "rows_ok n ow rid fk key rows \<Longrightarrow> n \<le> n' \<Longrightarrow> ow \<subseteq> ow' \<Longrightarrow> rows_ok n' ow' rid fk key rows"
  by (auto simp: rows_ok_def list_all_iff)

lemma rows_ok_same:
  assumes "map (\<lambda>r. (rid r, fk r, key r)) rows' = map (\<lambda>r. (rid r, fk r, key r)) rows"
  shows "rows_ok n ow rid fk key rows' = rows_ok n ow rid fk key rows"
proof -
  have m: "map rid rows' = map rid rows" "map (\<lambda>r. (fk r, key r)) rows' = map (\<lambda>r. (fk r, key r)) rows"
    "map (\<lambda>r. rid r < n \<and> fk r \<in> ow) rows' = map (\<lambda>r. rid r < n \<and> fk r \<in> ow) rows"
    using arg_cong [OF assms, of "map fst"] arg_cong [OF assms, of "map snd"]
      arg_cong [OF assms, of "map (\<lambda>t. fst t < n \<and> fst (snd t) \<in> ow)"] by (simp_all add: comp_def)
  have l: "list_all (\<lambda>r. rid r < n \<and> fk r \<in> ow) xs = list_all (\<lambda>b. b) (map (\<lambda>r. rid r < n \<and> fk r \<in> ow) xs)" for xs
    by (simp add: list_all_iff)
  show ?thesis unfolding rows_ok_def l m ..
qed

lemma rows_ok_snoc:
  assumes "rows_ok n ow rid fk key rows" and "rid r = n" and "fk r \<in> ow"
    and "\<And>x. x \<in> set rows \<Longrightarrow> fk x = fk r \<Longrightarrow> key x \<noteq> key r"
  shows "rows_ok (Suc n) ow rid fk key (rows @ [r])"
proof -
  have "(fk r, key r) \<notin> (\<lambda>r. (fk r, key r)) ` set rows"
  proof
    assume "(fk r, key r) \<in> (\<lambda>r. (fk r, key r)) ` set rows"
    then obtain x where "x \<in> set rows" "fk x = fk r" "key x = key r" by (elim imageE) simp
    then show False using assms(4) by blast
  qed
  then show ?thesis using assms(1-3) unfolding rows_ok_def by (auto simp: list_all_iff)
qed

lemma rows_ok_filter:
  assumes "rows_ok n ow rid fk key rows" and "\<And>r. r \<in> set rows \<Longrightarrow> P r \<Longrightarrow> fk r \<in> ow \<Longrightarrow> fk r \<in> ow'"
  shows "rows_ok n ow' rid fk key (filter P rows)"
  using assms unfolding rows_ok_def by (auto simp: list_all_iff distinct_map_filter)

lemma rows_ok_unique:
  "rows_ok n ow rid fk key rows \<Longrightarrow> x \<in> set rows \<Longrightarrow> y \<in> set rows \<Longrightarrow> fk x = fk y \<Longrightarrow> key x = key y \<Longrightarrow> x = y"
  unfolding rows_ok_def by (rule distinct_key_unique [of "\<lambda>r. (fk r, key r)"]) simp_all

lemma rows_ok_update:
  assumes "rows_ok n ow rid fk key rows" and "\<And>r. rid (f r) = rid r \<and> fk (f r) = fk r \<and> key (f r) = key r"
  shows "rows_ok n ow rid fk key (update_row rid i f rows)"
proof -
  have "map (\<lambda>r. (rid r, fk r, key r)) (update_row rid i f rows) = map (\<lambda>r. (rid r, fk r, key r)) rows"
    using assms(2) by (intro map_update_row) simp
  from rows_ok_same [OF this] assms(1) show ?thesis by blast
qed

lemma copy_rows_nth: "i < length rows \<Longrightarrow> copy_rows f s rows ! i = f (s + i) (rows ! i)"
  by (simp add: copy_rows_def nth_enumerate_eq)

lemma length_copy_rows [simp]: "length (copy_rows f s rows) = length rows"
  by (simp add: copy_rows_def)

lemma in_copy_rows: "x \<in> set (copy_rows f s rows) \<Longrightarrow> \<exists>i<length rows. x = f (s + i) (rows ! i)"
  by (metis copy_rows_nth in_set_conv_nth length_copy_rows)

lemma map_copy_rows: "map g (copy_rows f s rows) = map (\<lambda>i. g (f (s + i) (rows ! i))) [0..<length rows]"
  by (rule nth_equalityI) (simp_all add: copy_rows_nth)

lemma rows_ok_copy:
  assumes ok: "rows_ok n ow rid fk key rows" and n: "n \<le> s" and a: "a \<notin> ow" "ow \<subseteq> ow'" "a \<in> ow'"
    and src: "distinct (map key (copy_rows f s old))" and f: "\<And>i r. rid (f i r) = i \<and> fk (f i r) = a"
    and m: "s + length old \<le> m"
  shows "rows_ok m ow' rid fk key (rows @ copy_rows f s old)"
proof -
  have ids: "map rid (copy_rows f s old) = map (\<lambda>i. s + i) [0..<length old]"
    unfolding map_copy_rows using f by simp
  have d1: "distinct (map rid (copy_rows f s old))" unfolding ids by (simp add: distinct_map)
  have "map (\<lambda>r. (fk r, key r)) (copy_rows f s old) = map (\<lambda>k. (a, k)) (map key (copy_rows f s old))"
    unfolding map_copy_rows map_map using f by simp
  then have d2: "distinct (map (\<lambda>r. (fk r, key r)) (copy_rows f s old))"
    using src by (simp add: distinct_map inj_on_def)
  have new: "fk x = a \<and> n \<le> rid x \<and> rid x < m" if x: "x \<in> set (copy_rows f s old)" for x
  proof -
    obtain i where i: "i < length old" "x = f (s + i) (old ! i)" using in_copy_rows [OF x] by blast
    then show ?thesis using f [of "s + i" "old ! i"] m n by simp
  qed
  have o: "rid x < n \<and> fk x \<in> ow" if "x \<in> set rows" for x
    using ok that by (simp add: rows_ok_def list_all_iff)
  have x1: "rid ` set rows \<inter> rid ` set (copy_rows f s old) = {}" using new o by fastforce
  have x2: "(\<lambda>r. (fk r, key r)) ` set rows \<inter> (\<lambda>r. (fk r, key r)) ` set (copy_rows f s old) = {}"
    using new o a(1) by fastforce
  have x3: "list_all (\<lambda>r. rid r < m \<and> fk r \<in> ow') (rows @ copy_rows f s old)"
    unfolding list_all_iff using new o a m n by fastforce
  show ?thesis using ok d1 d2 x1 x2 x3 unfolding rows_ok_def map_append distinct_append set_map by blast
qed

section \<open>The invariant\<close>

definition agents_ok :: "platform_db \<Rightarrow> agent_row list \<Rightarrow> bool" where
  "agents_ok db as \<longleftrightarrow>
     distinct (map ag_id as) \<and> distinct (map ag_namespace_id as)
     \<and> list_all (\<lambda>a. ag_id a < next_id db \<and> ag_status a \<in> set AGENT_STATUSES
          \<and> (ag_namespace_id a, ag_name a, ag_account_id a)
            \<in> set (map (\<lambda>n. (ns_id n, ns_name n, ns_account_id n)) (namespaces db))) as"

abbreviation agent_ids :: "agent_db \<Rightarrow> nat set" where
  "agent_ids d \<equiv> set (map ag_id (agents d))"

definition agent_inv :: "agent_db \<Rightarrow> bool" where
  "agent_inv d \<longleftrightarrow>
     ws_inv (plat d) \<and> agents_ok (plat d) (agents d)
     \<and> rows_ok (new_id d) (agent_ids d) rp_id rp_agent_id rp_name (replicas d)
     \<and> list_all (\<lambda>r. rp_status r \<in> set REPLICA_STATUSES) (replicas d)
     \<and> rows_ok (new_id d) (agent_ids d) sc_id sc_agent_id sc_id (schedules d)
     \<and> rows_ok (new_id d) (agent_ids d) wh_id wh_agent_id wh_path (webhooks d)
     \<and> rows_ok (new_id d) (agent_ids d) st_id st_agent_id st_key (state_entries d)
     \<and> list_all (\<lambda>s. 0 \<le> st_size_bytes s) (state_entries d)
     \<and> rows_ok (new_id d) (agent_ids d) ch_id ch_agent_id ch_channel_type (channels d)
     \<and> rows_ok (new_id d) (agent_ids d) jb_id jb_agent_id jb_id (jobs d)
     \<and> list_all (\<lambda>j. jb_status j \<in> set JOB_STATUSES \<and> jb_schedule_id j \<in> set (map sc_id (schedules d))) (jobs d)"

lemma ws_inv_next: "ws_inv db \<Longrightarrow> next_id db \<le> n \<Longrightarrow> ws_inv (db\<lparr>next_id := n\<rparr>)"
proof -
  assume i: "ws_inv db" and n: "next_id db \<le> n"
  have p: "ns_inv db" "svc_inv db" "shr_inv db" "fn_inv db" using i by (simp_all add: ws_inv_def platform_inv_def)
  have "ns_inv (db\<lparr>next_id := n\<rparr>)" by (rule ns_inv_frame [OF p(1)]) (use n in simp_all)
  moreover have "svc_inv (db\<lparr>next_id := n\<rparr>)" by (rule svc_inv_frame [OF p(2)]) (use n in simp_all)
  moreover have "shr_inv (db\<lparr>next_id := n\<rparr>)" by (rule shr_inv_frame [OF p(3)]) (use n in simp_all)
  moreover have "fn_inv (db\<lparr>next_id := n\<rparr>)" by (rule fn_inv_frame [OF p(4)]) (use n in simp_all)
  moreover have "proc_inv (db\<lparr>next_id := n\<rparr>)"
    by (rule proc_inv_frame [of db]) (use i n in \<open>simp_all add: ws_inv_def\<close>)
  ultimately show ?thesis using i by (simp add: ws_inv_def platform_inv_def)
qed

text \<open>Only the keys of the namespaces and the supply of identifiers matter to the agent tables.\<close>

abbreviation ns_keys :: "platform_db \<Rightarrow> (nat \<times> string \<times> nat) set" where
  "ns_keys db \<equiv> set (map (\<lambda>n. (ns_id n, ns_name n, ns_account_id n)) (namespaces db))"

lemma agents_ok_mono:
  "agents_ok db as \<Longrightarrow> ns_keys db \<subseteq> ns_keys db' \<Longrightarrow> next_id db \<le> next_id db' \<Longrightarrow> agents_ok db' as"
  unfolding agents_ok_def list_all_iff by fastforce

lemma agent_inv_plat:
  assumes "agent_inv d" and "ws_inv db" and "ns_keys (plat d) \<subseteq> ns_keys db" and "next_id (plat d) \<le> next_id db"
  shows "agent_inv (d\<lparr>plat := db\<rparr>)"
proof -
  note r = rows_ok_mono [OF _ assms(4) subset_refl]
  show ?thesis using assms(1,2) agents_ok_mono [OF _ assms(3,4)] unfolding agent_inv_def by (simp add: r)
qed

lemma agent_inv_bump: "agent_inv d \<Longrightarrow> agent_inv (bump d)"
  unfolding bump_def by (rule agent_inv_plat) (simp_all add: agent_inv_def ws_inv_next)

lemma bump_simps [simp]:
  "plat (bump d) = (plat d)\<lparr>next_id := Suc (new_id d)\<rparr>" "agents (bump d) = agents d" "replicas (bump d) = replicas d"
  "schedules (bump d) = schedules d" "webhooks (bump d) = webhooks d" "state_entries (bump d) = state_entries d"
  "channels (bump d) = channels d" "agent_runs (bump d) = agent_runs d" "jobs (bump d) = jobs d" "fires (bump d) = fires d"
  by (simp_all add: bump_def)

section \<open>Changes of one table\<close>

lemma inv_set_agent:
  assumes i: "agent_inv d"
    and f: "\<And>a. a \<in> set (agents d) \<Longrightarrow> ag_id a = i \<Longrightarrow>
       ag_id (f a) = ag_id a \<and> ag_namespace_id (f a) = ag_namespace_id a \<and> ag_name (f a) = ag_name a
       \<and> ag_account_id (f a) = ag_account_id a \<and> ag_status (f a) \<in> set AGENT_STATUSES"
  shows "agent_inv (set_agent i f d)"
proof -
  have m: "map g (update_row ag_id i f (agents d)) = map g (agents d)"
    if "\<And>a. a \<in> set (agents d) \<Longrightarrow> ag_id a = i \<Longrightarrow> g (f a) = g a" for g :: "agent_row \<Rightarrow> 'b"
    unfolding update_row_def map_map by (rule map_cong [OF refl]) (use that in auto)
  have ids: "map ag_id (agents (set_agent i f d)) = map ag_id (agents d)"
    "map ag_namespace_id (agents (set_agent i f d)) = map ag_namespace_id (agents d)"
    unfolding set_agent_def by (simp_all, (intro m, use f in blast)+)
  have "agents_ok (plat d) (agents (set_agent i f d))"
    using i f unfolding agents_ok_def ids agent_inv_def list_all_iff
    by (auto simp: set_agent_def in_update_row)
  then show ?thesis using i unfolding agent_inv_def ids by (simp add: set_agent_def)
qed

lemma inv_replicas:
  assumes i: "agent_inv d" and k: "map (\<lambda>r. (rp_id r, rp_agent_id r, rp_name r)) rs
      = map (\<lambda>r. (rp_id r, rp_agent_id r, rp_name r)) (replicas d)"
    and s: "list_all (\<lambda>r. rp_status r \<in> set REPLICA_STATUSES) rs"
  shows "agent_inv (d\<lparr>replicas := rs\<rparr>)"
  using i s unfolding agent_inv_def by (simp add: rows_ok_same [OF k])

lemmas rows_ok_bump = rows_ok_mono [OF _ le_SucI [OF le_refl] subset_refl]

lemma inv_snoc_replica:
  assumes i: "agent_inv d" and r: "rp_id r = new_id d" "rp_agent_id r \<in> agent_ids d" "rp_status r \<in> set REPLICA_STATUSES"
    and k: "\<And>x. x \<in> set (replicas d) \<Longrightarrow> rp_agent_id x = rp_agent_id r \<Longrightarrow> rp_name x \<noteq> rp_name r"
  shows "agent_inv ((bump d)\<lparr>replicas := replicas d @ [r]\<rparr>)"
proof -
  have "rows_ok (Suc (new_id d)) (agent_ids d) rp_id rp_agent_id rp_name (replicas d @ [r])"
    by (rule rows_ok_snoc) (use i r k in \<open>auto simp: agent_inv_def\<close>)
  then show ?thesis using agent_inv_bump [OF i] r(3) unfolding agent_inv_def by simp
qed

lemma inv_snoc_schedule:
  assumes i: "agent_inv d" and r: "sc_id r = new_id d" "sc_agent_id r \<in> agent_ids d"
  shows "agent_inv ((bump d)\<lparr>schedules := schedules d @ [r]\<rparr>)"
proof -
  have o: "rows_ok (new_id d) (agent_ids d) sc_id sc_agent_id sc_id (schedules d)" using i by (simp add: agent_inv_def)
  have "rows_ok (Suc (new_id d)) (agent_ids d) sc_id sc_agent_id sc_id (schedules d @ [r])"
    by (rule rows_ok_snoc [OF o]) (use o r in \<open>auto simp: rows_ok_def list_all_iff\<close>)
  then show ?thesis using agent_inv_bump [OF i] unfolding agent_inv_def by (simp add: list_all_iff)
qed

lemma inv_snoc_webhook:
  assumes i: "agent_inv d" and r: "wh_id r = new_id d" "wh_agent_id r \<in> agent_ids d"
    and k: "\<And>x. x \<in> set (webhooks d) \<Longrightarrow> wh_agent_id x = wh_agent_id r \<Longrightarrow> wh_path x \<noteq> wh_path r"
  shows "agent_inv ((bump d)\<lparr>webhooks := webhooks d @ [r]\<rparr>)"
proof -
  have "rows_ok (Suc (new_id d)) (agent_ids d) wh_id wh_agent_id wh_path (webhooks d @ [r])"
    by (rule rows_ok_snoc) (use i r k in \<open>auto simp: agent_inv_def\<close>)
  then show ?thesis using agent_inv_bump [OF i] unfolding agent_inv_def by simp
qed

lemma inv_snoc_state:
  assumes i: "agent_inv d" and r: "st_id r = new_id d" "st_agent_id r \<in> agent_ids d" "0 \<le> st_size_bytes r"
    and k: "\<And>x. x \<in> set (state_entries d) \<Longrightarrow> st_agent_id x = st_agent_id r \<Longrightarrow> st_key x \<noteq> st_key r"
  shows "agent_inv ((bump d)\<lparr>state_entries := state_entries d @ [r]\<rparr>)"
proof -
  have "rows_ok (Suc (new_id d)) (agent_ids d) st_id st_agent_id st_key (state_entries d @ [r])"
    by (rule rows_ok_snoc) (use i r k in \<open>auto simp: agent_inv_def\<close>)
  then show ?thesis using agent_inv_bump [OF i] r(3) unfolding agent_inv_def by simp
qed

lemma inv_snoc_channel:
  assumes i: "agent_inv d" and r: "ch_id r = new_id d" "ch_agent_id r \<in> agent_ids d"
    and k: "\<And>x. x \<in> set (channels d) \<Longrightarrow> ch_agent_id x = ch_agent_id r \<Longrightarrow> ch_channel_type x \<noteq> ch_channel_type r"
  shows "agent_inv ((bump d)\<lparr>channels := channels d @ [r]\<rparr>)"
proof -
  have "rows_ok (Suc (new_id d)) (agent_ids d) ch_id ch_agent_id ch_channel_type (channels d @ [r])"
    by (rule rows_ok_snoc) (use i r k in \<open>auto simp: agent_inv_def\<close>)
  then show ?thesis using agent_inv_bump [OF i] unfolding agent_inv_def by simp
qed

section \<open>Operations on replicas\<close>

lemma get_agent_Inr: "get_agent d acc name = Inr ag \<Longrightarrow> ag \<in> set (agents d) \<and> ag_account_id ag = acc \<and> ag_name ag = name"
  by (auto simp: get_agent_def dest: fetch_Inr)

lemma inv_agent_facts:
  assumes "agent_inv d" and "a \<in> set (agents d)"
  shows "ag_id a < new_id d" "ag_status a \<in> set AGENT_STATUSES"
    "(ag_namespace_id a, ag_name a, ag_account_id a) \<in> ns_keys (plat d)"
  using assms by (auto simp: agent_inv_def agents_ok_def list_all_iff)

lemma agent_id_unique: "agent_inv d \<Longrightarrow> a \<in> set (agents d) \<Longrightarrow> b \<in> set (agents d) \<Longrightarrow> ag_id a = ag_id b \<Longrightarrow> a = b"
  by (rule distinct_key_unique [of ag_id]) (simp_all add: agent_inv_def agents_ok_def)

lemma derive_status_valid:
  "status \<in> set AGENT_STATUSES \<Longrightarrow> derive_agent_status status rs \<in> set AGENT_STATUSES"
  by (auto simp: derive_agent_status_def AGENT_STATUSES_def)

lemma inv_restatus: "agent_inv d \<Longrightarrow> agent_inv (restatus i d)"
  unfolding restatus_def by (rule inv_set_agent) (simp_all add: inv_agent_facts(2) derive_status_valid)

definition same_replica :: "replica_row \<Rightarrow> replica_row \<Rightarrow> bool" where
  "same_replica r r' \<longleftrightarrow> rp_id r' = rp_id r \<and> rp_agent_id r' = rp_agent_id r \<and> rp_name r' = rp_name r
     \<and> rp_created_at r' = rp_created_at r"

lemma run_replica_container_Inr:
  "run_replica_container h ag r = Inr r' \<Longrightarrow> same_replica r r' \<and> rp_status r' \<in> {''running'', ''error''}"
  by (auto simp: run_replica_container_def same_replica_def split: docker_reply.splits)

lemma start_replica_container_Inr:
  "start_replica_container h ag r = Inr r' \<Longrightarrow> same_replica r r' \<and> rp_status r' \<in> {''running'', ''error''}"
  by (auto simp: start_replica_container_def same_replica_def split: option.splits docker_reply.splits
      dest: run_replica_container_Inr)

lemma restart_replica_Inr:
  "restart_replica h r = Inr r' \<Longrightarrow> same_replica r r' \<and> rp_status r' \<in> {''running'', ''error'', rp_status r}"
  by (auto simp: restart_replica_def same_replica_def split: option.splits docker_reply.splits)

lemma stop_replica_Inr: "stop_replica h r = Inr r' \<Longrightarrow> r' = r\<lparr>rp_status := ''stopped''\<rparr>"
  by (auto simp: stop_replica_def)

lemma each_replica_Inr:
  assumes "each_replica P f d = Inr d'" and "\<And>r r'. P r \<Longrightarrow> f r = Inr r' \<Longrightarrow> same_replica r r'"
  obtains rs where "d' = d\<lparr>replicas := rs\<rparr>" "list_all2 same_replica (replicas d) rs"
    "list_all2 (\<lambda>r r'. if P r then f r = Inr r' else r' = r) (replicas d) rs"
proof -
  obtain rs where rs: "map_res (\<lambda>r. if P r then f r else Inr r) (replicas d) = Inr rs" "d' = d\<lparr>replicas := rs\<rparr>"
    using assms(1) by (auto simp: each_replica_def)
  have l: "list_all2 (\<lambda>r r'. if P r then f r = Inr r' else r' = r) (replicas d) rs"
    by (rule list_all2_mono [OF map_res_Inr [OF rs(1)]]) (auto split: if_splits)
  have "list_all2 same_replica (replicas d) rs"
    by (rule list_all2_mono [OF l]) (auto simp: same_replica_def dest: assms(2) split: if_splits)
  then show thesis using that rs(2) l by blast
qed

lemma list_all2_map_eq: "list_all2 R xs ys \<Longrightarrow> (\<And>x y. R x y \<Longrightarrow> g y = g x) \<Longrightarrow> map g ys = map g xs"
  by (induction xs ys rule: list_all2_induct) auto

lemma list_all2_set2: "list_all2 R xs ys \<Longrightarrow> y \<in> set ys \<Longrightarrow> \<exists>x\<in>set xs. R x y"
  by (induction xs ys rule: list_all2_induct) auto

lemma inv_each_replica:
  assumes i: "agent_inv d" and e: "each_replica P f d = Inr d'"
    and f: "\<And>r r'. P r \<Longrightarrow> f r = Inr r' \<Longrightarrow> same_replica r r' \<and> rp_status r' \<in> set (rp_status r # REPLICA_STATUSES)"
  shows "agent_inv d'"
proof -
  obtain rs where d': "d' = d\<lparr>replicas := rs\<rparr>" and s: "list_all2 same_replica (replicas d) rs"
    and l: "list_all2 (\<lambda>r r'. if P r then f r = Inr r' else r' = r) (replicas d) rs"
    using each_replica_Inr [OF e] f by blast
  have k: "map (\<lambda>r. (rp_id r, rp_agent_id r, rp_name r)) rs = map (\<lambda>r. (rp_id r, rp_agent_id r, rp_name r)) (replicas d)"
    by (rule list_all2_map_eq [OF s]) (simp add: same_replica_def)
  have "rp_status y \<in> set REPLICA_STATUSES" if y: "y \<in> set rs" for y
  proof -
    obtain x where x: "x \<in> set (replicas d)" "if P x then f x = Inr y else y = x" using list_all2_set2 [OF l y] by blast
    have "rp_status x \<in> set REPLICA_STATUSES" using i x(1) by (simp add: agent_inv_def list_all_iff)
    then show ?thesis using x(2) f [of x y] by (auto split: if_splits)
  qed
  then show ?thesis unfolding d' by (intro inv_replicas [OF i k]) (simp add: list_all_iff)
qed

lemma running_error_valid: "s \<in> {''running'', ''error''} \<Longrightarrow> s \<in> set (t # REPLICA_STATUSES)"
  by (auto simp: REPLICA_STATUSES_def)

lemma set_get_replicas [simp]: "set (get_replicas d i) = {r \<in> set (replicas d). rp_agent_id r = i}"
  by (auto simp: get_replicas_def)

lemma create_replica_Inr:
  assumes "create_replica h ag d = Inr d'"
  obtains r where "d' = (bump d)\<lparr>replicas := replicas d @ [r]\<rparr>" "rp_id r = new_id d" "rp_agent_id r = ag_id ag"
    "rp_created_at r = h_now h" "rp_status r \<in> {''running'', ''error''}" "rp_name r \<in> set all_names"
    "\<And>x. x \<in> set (replicas d) \<Longrightarrow> rp_agent_id x = ag_id ag \<Longrightarrow> rp_name x \<noteq> rp_name r"
proof -
  obtain name r where n: "generate_replica_name (h_draws h (new_id d)) (map rp_name (get_replicas d (ag_id ag))) 10 = Inr name"
    and r: "run_replica_container h ag \<lparr>rp_id = new_id d, rp_agent_id = ag_id ag, rp_name = name, rp_container_id = None,
                 rp_status = ''creating'', rp_last_heartbeat = None, rp_created_at = h_now h\<rparr> = Inr r"
    and d': "d' = (bump d)\<lparr>replicas := replicas d @ [r]\<rparr>"
    using assms by (auto simp: create_replica_def)
  note g = generate_replica_name_Inr [OF n]
  note s = run_replica_container_Inr [OF r]
  have rn: "rp_name r = name" using s by (simp add: same_replica_def)
  have f: "rp_name x \<noteq> rp_name r" if "x \<in> set (replicas d)" "rp_agent_id x = ag_id ag" for x
    using g that unfolding rn by auto
  show thesis
    by (rule that [OF d']) (use s g f rn in \<open>simp_all add: same_replica_def\<close>)
qed

lemma inv_create_replica:
  assumes i: "agent_inv d" and a: "ag_id ag \<in> agent_ids d" and c: "create_replica h ag d = Inr d'"
  shows "agent_inv d' \<and> agents d' = agents d"
proof -
  obtain r where r: "d' = (bump d)\<lparr>replicas := replicas d @ [r]\<rparr>" "rp_id r = new_id d" "rp_agent_id r = ag_id ag"
    "rp_created_at r = h_now h" "rp_status r \<in> {''running'', ''error''}"
    "\<And>x. x \<in> set (replicas d) \<Longrightarrow> rp_agent_id x = ag_id ag \<Longrightarrow> rp_name x \<noteq> rp_name r"
    using create_replica_Inr [OF c] by metis
  have "agent_inv ((bump d)\<lparr>replicas := replicas d @ [r]\<rparr>)"
    by (rule inv_snoc_replica [OF i r(2)]) (use r a in \<open>auto simp: REPLICA_STATUSES_def\<close>)
  then show ?thesis by (simp add: r(1))
qed

lemma inv_create_replicas:
  assumes "agent_inv d" and "ag_id ag \<in> agent_ids d" and "iter_res n (create_replica h ag) d = Inr d'"
  shows "agent_inv d' \<and> agents d' = agents d"
proof -
  have step: "agent_inv b \<and> agents b = agents d"
    if a: "agent_inv a \<and> agents a = agents d" and c: "create_replica h ag a = Inr b" for a b
    using inv_create_replica [OF _ _ c] a assms(2) by simp
  show ?thesis
    by (rule iter_res_inv [OF assms(3), where P = "\<lambda>x. agent_inv x \<and> agents x = agents d"])
      (simp add: assms(1), rule step)
qed

lemma inv_delete_replicas:
  assumes i: "agent_inv d"
  shows "agent_inv (delete_replicas gone d)"
proof -
  have "rows_ok (new_id d) (agent_ids d) rp_id rp_agent_id rp_name (filter (\<lambda>r. rp_id r \<notin> set gone) (replicas d))"
    by (rule rows_ok_filter) (use i in \<open>auto simp: agent_inv_def\<close>)
  moreover have "rows_ok (new_id d) (agent_ids d) jb_id jb_agent_id jb_id
      (map (\<lambda>j. j\<lparr>jb_replica_id := forget gone (jb_replica_id j), jb_claimed_by := forget gone (jb_claimed_by j)\<rparr>) (jobs d))"
    using i by (subst rows_ok_same [where rows = "jobs d"]) (simp_all add: agent_inv_def)
  ultimately show ?thesis using i unfolding agent_inv_def delete_replicas_def
    by (simp add: list_all_iff)
qed

section \<open>New agents\<close>

lemma slug_last: "slug us s \<Longrightarrow> last s \<noteq> CHR 0x0A"
  by (auto simp: slug_def alnum_lower_def is_lower_az_def is_dig_def)

lemma ns_create_Inr:
  assumes "ns_create db acc name de al = Inr (db', n)"
  shows "db' = db\<lparr>namespaces := namespaces db @ [n], next_id := Suc (next_id db)\<rparr>" "ns_id n = next_id db"
    "ns_account_id n = acc" "ns_name n = py_lower name" "slug False (ns_name n)" "ns_deleted_at n = None"
proof -
  obtain r where r: "one_or_none (\<lambda>n. ns_name n = py_lower name) (namespaces db) = Inr r"
    using assms by (auto simp: ns_create_def split: if_splits)
  have none: "one_or_none (\<lambda>n. ns_name n = py_lower name) (namespaces db) = Inr None"
    using assms r by (cases r) (auto simp: ns_create_def split: if_splits)
  from assms obtain nm where nm: "validate_name False (py_lower name) = Inr nm" "slug False nm"
    and n: "ns_id n = next_id db" "ns_account_id n = acc" "ns_name n = nm" "ns_deleted_at n = None"
    and db': "db' = db\<lparr>namespaces := namespaces db @ [n], next_id := Suc (next_id db)\<rparr>"
    by (auto simp: ns_create_def Let_def none split: if_splits)
  have low: "py_lower (py_lower s) = py_lower s" for s
    by (auto simp: py_lower_def py_lower_char_def Let_def)
  have "nm = py_lower name" using nm(1) low by (auto simp: validate_name_def split: if_splits)
  then show "db' = db\<lparr>namespaces := namespaces db @ [n], next_id := Suc (next_id db)\<rparr>" "ns_id n = next_id db"
    "ns_account_id n = acc" "ns_name n = py_lower name" "slug False (ns_name n)" "ns_deleted_at n = None"
    using n nm(2) db' by simp_all
qed

lemma ws_inv_ns_create:
  assumes "ws_inv db" and "ns_create db acc name de al = Inr (db', n)"
  shows "ws_inv db'"
proof -
  have "platform_inv db'" using inv_ns_create [OF _ assms(2)] assms(1) by (simp add: ws_inv_def)
  moreover have "proc_inv db'"
    by (rule proc_inv_frame [of db]) (use assms(1) ns_create_Inr(1) [OF assms(2)] in \<open>simp_all add: ws_inv_def\<close>)
  ultimately show ?thesis by (simp add: ws_inv_def)
qed

lemma agent_name_slug:
  assumes "ns_create db acc name de al = Inr (db', n)" and "slug_match False name"
  shows "slug False name \<and> ns_name n = name"
proof -
  have "slug False name"
  proof (rule ccontr)
    assume "\<not> slug False name"
    then have l: "name \<noteq> []" "last name = CHR 0x0A" using assms(2) by (auto simp: slug_match_def)
    then have "last (py_lower name) = CHR 0x0A" by (simp add: py_lower_def last_map py_lower_char_def)
    then show False using slug_last ns_create_Inr(4,5) [OF assms(1)] by metis
  qed
  then show ?thesis using ns_create_Inr(4) [OF assms(1)] by (simp add: py_lower_slug)
qed

lemma namespace_ids_bound: "agent_inv d \<Longrightarrow> a \<in> set (agents d) \<Longrightarrow> ag_namespace_id a < new_id d"
proof -
  assume i: "agent_inv d" and a: "a \<in> set (agents d)"
  obtain n where "n \<in> set (namespaces (plat d))" "ns_id n = ag_namespace_id a"
    using inv_agent_facts(3) [OF i a] by auto
  then show ?thesis using i by (auto simp: agent_inv_def ws_inv_def platform_inv_def ns_inv_def list_all_iff)
qed

lemma inv_add_agent:
  assumes i: "agent_inv d" and n: "ns_create (plat d) acc name None None = Inr (db, n)" and s: "slug_match False name"
    and a: "ag_id ag = next_id db" "ag_namespace_id ag = ns_id n" "ag_name ag = name" "ag_account_id ag = acc"
      "ag_status ag \<in> set AGENT_STATUSES"
    and m: "Suc (next_id db) \<le> m"
  shows "agent_inv (d\<lparr>plat := db\<lparr>next_id := m\<rparr>, agents := agents d @ [ag]\<rparr>)"
proof -
  note c = ns_create_Inr [OF n]
  have w: "ws_inv (db\<lparr>next_id := m\<rparr>)"
    by (rule ws_inv_next) (use i ws_inv_ns_create [OF _ n] m in \<open>simp_all add: agent_inv_def\<close>)
  have old: "agents_ok (db\<lparr>next_id := m\<rparr>) (agents d)"
    by (rule agents_ok_mono [of "plat d"]) (use i c m in \<open>auto simp: agent_inv_def\<close>)
  have ne: "ag_id x \<noteq> ag_id ag \<and> ag_namespace_id x \<noteq> ag_namespace_id ag" if "x \<in> set (agents d)" for x
    using inv_agent_facts(1) [OF i that] namespace_ids_bound [OF i that] a c by simp
  have "ag_id ag \<notin> ag_id ` set (agents d)" "ag_namespace_id ag \<notin> ag_namespace_id ` set (agents d)"
    using ne by (metis imageE)+
  then have new: "agents_ok (db\<lparr>next_id := m\<rparr>) (agents d @ [ag])"
    using old a m agent_name_slug [OF n s] c unfolding agents_ok_def by (auto simp: list_all_iff)
  have le: "new_id d \<le> m" "agent_ids d \<subseteq> set (map ag_id (agents d @ [ag]))" using c(1) m by auto
  note r = rows_ok_mono [OF _ le]
  show ?thesis using i w new unfolding agent_inv_def by (simp add: r [simplified])
qed

lemma inv_create_agent:
  assumes i: "agent_inv d" and c: "create_agent h d acc tier name disp = Inr d'"
  shows "agent_inv d'"
proof -
  obtain cfg db n d2 where n: "ns_create (plat d) acc name None None = Inr (db, n)" "slug_match False name"
    and r: "create_replica h (new_agent_row cfg (next_id db) acc (ns_id n) name disp)
        (bump (d\<lparr>plat := db, agents := agents d @ [new_agent_row cfg (next_id db) acc (ns_id n) name disp]\<rparr>)) = Inr d2"
    and d': "d' = restatus (ag_id (new_agent_row cfg (next_id db) acc (ns_id n) name disp)) d2"
    using c unfolding create_agent_def Let_def by (auto split: if_splits)
  define ag where "ag = new_agent_row cfg (next_id db) acc (ns_id n) name disp"
  note r = r [folded ag_def] and d' = d' [folded ag_def]
  have a: "ag_id ag = next_id db" "ag_namespace_id ag = ns_id n" "ag_name ag = name" "ag_account_id ag = acc"
      "ag_status ag = ''creating''" by (simp_all add: ag_def new_agent_row_def)
  have e: "bump (d\<lparr>plat := db, agents := agents d @ [ag]\<rparr>)
      = d\<lparr>plat := db\<lparr>next_id := Suc (next_id db)\<rparr>, agents := agents d @ [ag]\<rparr>"
    by (simp add: bump_def)
  have "agent_inv (bump (d\<lparr>plat := db, agents := agents d @ [ag]\<rparr>))"
    unfolding e by (rule inv_add_agent [OF i n]) (use a in \<open>simp_all add: AGENT_STATUSES_def\<close>)
  then have "agent_inv d2" using inv_create_replica [OF _ _ r] by simp
  then show ?thesis unfolding d' by (rule inv_restatus)
qed

lemma clone_container_Inr:
  "clone_container h ag = Inr ag' \<Longrightarrow> ag_id ag' = ag_id ag \<and> ag_namespace_id ag' = ag_namespace_id ag
     \<and> ag_name ag' = ag_name ag \<and> ag_account_id ag' = ag_account_id ag \<and> ag_status ag' \<in> {''running'', ''error''}
     \<and> ag_chat_token ag' = ag_chat_token ag \<and> ag_target_replicas ag' = ag_target_replicas ag"
  by (auto simp: clone_container_def split: docker_reply.splits)

lemma copied_keys:
  assumes "\<And>i r. key (f i r) = key r" and "distinct (map key old)"
  shows "distinct (map key (copy_rows f s old))"
proof -
  have "map key (copy_rows f s old) = map key old"
    unfolding map_copy_rows using assms(1) by (intro nth_equalityI) simp_all
  then show ?thesis using assms(2) by simp
qed

lemma distinct_keys_of:
  assumes "rows_ok n ow rid fk key rows"
  shows "distinct (map key (filter (\<lambda>r. fk r = a) rows))"
proof -
  have "distinct (map (\<lambda>r. (fk r, key r)) (filter (\<lambda>r. fk r = a) rows))"
    using assms by (simp add: rows_ok_def distinct_map_filter)
  moreover have "map (\<lambda>r. (fk r, key r)) (filter (\<lambda>r. fk r = a) rows) = map (\<lambda>k. (a, k)) (map key (filter (\<lambda>r. fk r = a) rows))"
    by (auto intro: map_cong)
  ultimately show ?thesis by (metis distinct_map)
qed


definition cloned :: "host \<Rightarrow> agent_db \<Rightarrow> platform_db \<Rightarrow> agent_row \<Rightarrow> agent_row \<Rightarrow> agent_db" where
  "cloned h d db src ag =
     (let m = next_id db; st = filter (\<lambda>s. st_agent_id s = ag_id src) (state_entries d);
          sc = filter (\<lambda>s. sc_agent_id s = ag_id src) (schedules d); ch = filter (\<lambda>s. ch_agent_id s = ag_id src) (channels d);
          n1 = Suc m; n2 = n1 + length st; n3 = n2 + length sc; n4 = n3 + length ch
      in d\<lparr>plat := db\<lparr>next_id := n4\<rparr>, agents := agents d @ [ag],
           state_entries := state_entries d @ copy_rows (clone_state h m) n1 st,
           schedules := schedules d @ copy_rows (clone_schedule m) n2 sc,
           channels := channels d @ copy_rows (clone_channel m) n3 ch\<rparr>)"

lemma clone_agent_Inr:
  assumes "clone_agent h d acc source name tier = Inr d'"
  obtains cfg src db n ag where "get_agent d acc source = Inr src"
    "ns_create (plat d) acc name None None = Inr (db, n)" "slug_match False name"
    "clone_container h (clone_row cfg (next_id db) acc (ns_id n) name src) = Inr ag" "d' = cloned h d db src ag"
  using assms unfolding clone_agent_def cloned_def Let_def by (auto split: if_splits)

lemma inv_clone_agent:
  assumes i: "agent_inv d" and c: "clone_agent h d acc source name tier = Inr d'"
  shows "agent_inv d'"
proof -
  obtain cfg src db n ag where n: "ns_create (plat d) acc name None None = Inr (db, n)" "slug_match False name"
    and k: "clone_container h (clone_row cfg (next_id db) acc (ns_id n) name src) = Inr ag"
    and d': "d' = cloned h d db src ag"
    using clone_agent_Inr [OF c] by metis
  define m where "m = next_id db"
  define st where "st = filter (\<lambda>s. st_agent_id s = ag_id src) (state_entries d)"
  define sc where "sc = filter (\<lambda>s. sc_agent_id s = ag_id src) (schedules d)"
  define ch where "ch = filter (\<lambda>s. ch_agent_id s = ag_id src) (channels d)"
  define n4 where "n4 = Suc m + length st + length sc + length ch"
  note cf = clone_container_Inr [OF k]
  have ag: "ag_id ag = m" "ag_namespace_id ag = ns_id n" "ag_name ag = name" "ag_account_id ag = acc"
    "ag_status ag \<in> set AGENT_STATUSES"
    using cf by (auto simp: clone_row_def new_agent_row_def m_def AGENT_STATUSES_def)
  have base: "agent_inv (d\<lparr>plat := db\<lparr>next_id := n4\<rparr>, agents := agents d @ [ag]\<rparr>)"
    by (rule inv_add_agent [OF i n]) (use ag in \<open>simp_all add: n4_def m_def\<close>)
  have N: "new_id d \<le> m" using ns_create_Inr(1) [OF n(1)] by (simp add: m_def)
  have new: "m \<notin> agent_ids d" using inv_agent_facts(1) [OF i] N by force
  let ?ow = "set (map ag_id (agents d @ [ag]))"
  have ow: "agent_ids d \<subseteq> ?ow" "m \<in> ?ow" using ag(1) by auto
  have o: "rows_ok (new_id d) (agent_ids d) st_id st_agent_id st_key (state_entries d)"
    "rows_ok (new_id d) (agent_ids d) sc_id sc_agent_id sc_id (schedules d)"
    "rows_ok (new_id d) (agent_ids d) ch_id ch_agent_id ch_channel_type (channels d)"
    using i by (simp_all add: agent_inv_def)
  have t1: "rows_ok n4 ?ow st_id st_agent_id st_key (state_entries d @ copy_rows (clone_state h m) (Suc m) st)"
    by (rule rows_ok_copy [OF o(1) _ new ow])
      (use N distinct_keys_of [OF o(1), of "ag_id src"] in \<open>auto simp: n4_def st_def clone_state_def intro!: copied_keys\<close>)
  have t2: "rows_ok n4 ?ow sc_id sc_agent_id sc_id (schedules d @ copy_rows (clone_schedule m) (Suc m + length st) sc)"
    by (rule rows_ok_copy [OF o(2) _ new ow])
      (use N in \<open>auto simp: n4_def clone_schedule_def map_copy_rows distinct_map inj_on_def\<close>)
  have t3: "rows_ok n4 ?ow ch_id ch_agent_id ch_channel_type
      (channels d @ copy_rows (clone_channel m) (Suc m + length st + length sc) ch)"
    by (rule rows_ok_copy [OF o(3) _ new ow])
      (use N distinct_keys_of [OF o(3), of "ag_id src"] in \<open>auto simp: n4_def ch_def clone_channel_def intro!: copied_keys\<close>)
  have sz: "list_all (\<lambda>s. 0 \<le> st_size_bytes s) (copy_rows (clone_state h m) (Suc m) st)"
    unfolding list_all_iff
  proof
    fix x assume "x \<in> set (copy_rows (clone_state h m) (Suc m) st)"
    then obtain j where j: "j < length st" "x = clone_state h m (Suc m + j) (st ! j)" using in_copy_rows by metis
    have "st ! j \<in> set (state_entries d)" using nth_mem [OF j(1)] by (simp add: st_def)
    then show "0 \<le> st_size_bytes x" using i j(2) by (simp add: agent_inv_def list_all_iff clone_state_def)
  qed
  have "d' = d\<lparr>plat := db\<lparr>next_id := n4\<rparr>, agents := agents d @ [ag],
           state_entries := state_entries d @ copy_rows (clone_state h m) (Suc m) st,
           schedules := schedules d @ copy_rows (clone_schedule m) (Suc m + length st) sc,
           channels := channels d @ copy_rows (clone_channel m) (Suc m + length st + length sc) ch\<rparr>"
    unfolding d' cloned_def Let_def m_def st_def sc_def ch_def n4_def by simp
  then show ?thesis using base t1 t2 t3 sz unfolding agent_inv_def by (simp add: list_all_iff ball_Un)
qed

section \<open>Destruction\<close>

lemma platform_inv_cascade: "platform_inv db \<Longrightarrow> platform_inv (svc_cascade i db)"
proof -
  assume p: "platform_inv db"
  have "svc_inv (svc_cascade i db)" using p
    by (auto simp: platform_inv_def svc_inv_def list_all_iff distinct_map_filter)
  then show ?thesis using p
    by (rule_tac platform_inv_frame [OF p])
      (auto simp: platform_inv_def intro: ns_inv_frame [of db] shr_inv_frame [of db] fn_inv_cascade)
qed

lemma ws_inv_cascade: "ws_inv db \<Longrightarrow> ws_inv (svc_cascade i db)"
  by (simp add: ws_inv_def platform_inv_cascade proc_inv_cascade)

lemma cascades_facts:
  "services (foldl (\<lambda>db i. svc_cascade i db) db is) = filter (\<lambda>s. svc_id s \<notin> set is) (services db)
   \<and> namespaces (foldl (\<lambda>db i. svc_cascade i db) db is) = namespaces db
   \<and> shares (foldl (\<lambda>db i. svc_cascade i db) db is) = shares db
   \<and> accounts (foldl (\<lambda>db i. svc_cascade i db) db is) = accounts db
   \<and> next_id (foldl (\<lambda>db i. svc_cascade i db) db is) = next_id db
   \<and> (ws_inv db \<longrightarrow> ws_inv (foldl (\<lambda>db i. svc_cascade i db) db is))"
proof (induction "is" arbitrary: db)
  case (Cons i js)
  show ?case using Cons.IH [of "svc_cascade i db"]
    by (simp add: ws_inv_cascade)
qed simp

lemma ws_inv_ns_cascade:
  assumes w: "ws_inv db"
  shows "ws_inv (ns_cascade n db) \<and> next_id (ns_cascade n db) = next_id db
     \<and> namespaces (ns_cascade n db) = filter (\<lambda>x. ns_id x \<noteq> n) (namespaces db)"
proof -
  define js where "js = map svc_id (filter (\<lambda>s. svc_namespace_id s = n) (services db))"
  define db1 where "db1 = foldl (\<lambda>db i. svc_cascade i db) db js"
  note c = cascades_facts [of db js, folded db1_def]
  have ns: "ns_cascade n db = db1\<lparr>shares := filter (\<lambda>s. sh_namespace_id s \<noteq> n) (shares db1),
             namespaces := filter (\<lambda>x. ns_id x \<noteq> n) (namespaces db1)\<rparr>"
    by (simp add: ns_cascade_def js_def db1_def Let_def)
  have w1: "ws_inv db1" using c w by blast
  have left: "svc_namespace_id s \<noteq> n" if "s \<in> set (services db1)" for s
    using that c by (auto simp: js_def)
  have p: "ns_inv db1" "svc_inv db1" "shr_inv db1" "fn_inv db1" "proc_inv db1"
    using w1 by (simp_all add: ws_inv_def platform_inv_def)
  have "ns_inv (ns_cascade n db)" using p(1) unfolding ns ns_inv_def by (simp add: list_all_iff distinct_map_filter)
  moreover have "svc_inv (ns_cascade n db)" using p(2) left unfolding ns svc_inv_def by (auto simp: list_all_iff)
  moreover have "shr_inv (ns_cascade n db)" using p(3) unfolding ns shr_inv_def
    by (auto simp: list_all_iff distinct_map_filter)
  moreover have "fn_inv (ns_cascade n db)" by (rule fn_inv_frame [OF p(4)]) (simp_all add: ns)
  moreover have "proc_inv (ns_cascade n db)" by (rule proc_inv_frame [OF p(5)]) (simp_all add: ns)
  ultimately have "ws_inv (ns_cascade n db)" using w1 by (simp add: ws_inv_def platform_inv_def ns)
  then show ?thesis using c by (simp add: ns)
qed

text \<open>The rows that are left belong to the agents that are left.\<close>

lemma rows_ok_survivors:
  assumes "rows_ok n ow rid fk key rows"
  shows "rows_ok n {a \<in> ow. a \<notin> set gone} rid fk key (filter (\<lambda>r. fk r \<notin> set gone) rows)"
    "rows_ok n {a \<in> ow. a \<notin> set gone} rid fk key (filter (\<lambda>r. fk r \<notin> set gone \<and> Q r) rows)"
  by (rule rows_ok_filter [OF assms]; simp)+

lemma inv_delete_agents:
  assumes i: "agent_inv d"
  shows "agent_inv (delete_agents gone d)"
proof -
  let ?d = "delete_agents gone d"
  have ids: "agent_ids ?d = {a \<in> agent_ids d. a \<notin> set gone}"
    by (auto simp: delete_agents_def Let_def)
  have ok: "agents_ok (plat d) (agents ?d)"
    using i unfolding agent_inv_def agents_ok_def delete_agents_def Let_def
    by (auto simp: list_all_iff comp_def distinct_map_filter)
  have sc: "jb_schedule_id j \<in> set (map sc_id (schedules ?d))" if j: "j \<in> set (jobs ?d)" for j
  proof -
    have "jb_schedule_id j \<in> set (map sc_id (schedules d))"
      using i j by (simp add: agent_inv_def list_all_iff delete_agents_def Let_def)
    then show ?thesis using j by (auto simp: delete_agents_def Let_def)
  qed
  have t: "plat ?d = plat d"
    "replicas ?d = filter (\<lambda>r. rp_agent_id r \<notin> set gone) (replicas d)"
    "schedules ?d = filter (\<lambda>r. sc_agent_id r \<notin> set gone) (schedules d)"
    "webhooks ?d = filter (\<lambda>r. wh_agent_id r \<notin> set gone) (webhooks d)"
    "state_entries ?d = filter (\<lambda>r. st_agent_id r \<notin> set gone) (state_entries d)"
    "channels ?d = filter (\<lambda>r. ch_agent_id r \<notin> set gone) (channels d)"
    "\<exists>Q. jobs ?d = filter (\<lambda>r. jb_agent_id r \<notin> set gone \<and> Q r) (jobs d)"
    by (auto simp: delete_agents_def Let_def)
  have jobs: "rows_ok (new_id d) {a \<in> agent_ids d. a \<notin> set gone} jb_id jb_agent_id jb_id (jobs ?d)"
    "list_all (\<lambda>j. jb_status j \<in> set JOB_STATUSES \<and> jb_schedule_id j \<in> set (map sc_id (schedules ?d))) (jobs ?d)"
    using t(7) i sc by (auto simp: agent_inv_def list_all_iff rows_ok_survivors(2))
  have "list_all (\<lambda>r. rp_status r \<in> set REPLICA_STATUSES) (replicas ?d)" "list_all (\<lambda>s. 0 \<le> st_size_bytes s) (state_entries ?d)"
    using i unfolding t by (auto simp: agent_inv_def list_all_iff)
  then show ?thesis using i ok jobs unfolding agent_inv_def ids t(1-6)
    by (simp only: rows_ok_survivors(1) simp_thms)
qed

lemma agents_delete_agents: "a \<in> set (agents (delete_agents gone d)) \<Longrightarrow>
   \<exists>b\<in>set (agents d). a = b\<lparr>ag_cloned_from_id := forget gone (ag_cloned_from_id b)\<rparr> \<and> ag_id b \<notin> set gone"
  by (auto simp: delete_agents_def Let_def)

lemma inv_delete_namespace:
  assumes i: "agent_inv d"
  shows "agent_inv (delete_namespace n d)"
proof -
  define gone where "gone = map ag_id (filter (\<lambda>a. ag_namespace_id a = n) (agents d))"
  define d1 where "d1 = delete_agents gone d"
  have i1: "agent_inv d1" using inv_delete_agents [OF i] by (simp add: d1_def)
  have e: "delete_namespace n d = d1\<lparr>plat := ns_cascade n (plat d1)\<rparr>"
    by (simp add: delete_namespace_def gone_def d1_def Let_def)
  have w: "ws_inv (ns_cascade n (plat d1))" "next_id (ns_cascade n (plat d1)) = new_id d1"
    "namespaces (ns_cascade n (plat d1)) = filter (\<lambda>x. ns_id x \<noteq> n) (namespaces (plat d1))"
    using ws_inv_ns_cascade [of "plat d1" n] i1 by (simp_all add: agent_inv_def)
  have left: "ag_namespace_id a \<noteq> n" if "a \<in> set (agents d1)" for a
    using agents_delete_agents [OF that [unfolded d1_def]] by (auto simp: gone_def)
  have "agents_ok (plat d1) (agents d1)" using i1 by (simp add: agent_inv_def)
  then have "agents_ok (ns_cascade n (plat d1)) (agents d1)"
    using left unfolding agents_ok_def w(2,3) list_all_iff by fastforce
  then show ?thesis using i1 w(1,2) unfolding e agent_inv_def by simp
qed

lemma inv_destroy_agent: "agent_inv d \<Longrightarrow> destroy_agent h d acc name = Inr d' \<Longrightarrow> agent_inv d'"
  by (auto simp: destroy_agent_def Let_def inv_delete_agents inv_delete_namespace split: option.splits)

section \<open>All requests on the database\<close>

datatype agent_op =
    APlatform ws_op
  | ACreate host nat string string "string option"
  | AScale host nat string int string
  | AStart host nat string string
  | AStop host nat string string
  | ADestroy host nat string
  | AForceRestart host nat nat
  | AAddSchedule host nat string string string string json string string string
  | ARemoveSchedule nat string nat
  | AAddWebhook host nat string string string "string option" string
  | ARemoveWebhook nat string nat
  | ASetState host nat string string json string
  | ADeleteState nat string string
  | AConfigureAi host nat string string string "string option" "string option option" "string option option"
  | ARemoveAi nat string
  | AChatToken nat string string
  | ARevokeToken nat string
  | AAddChannel host nat string string json
  | ARemoveChannel nat string string
  | AServers nat string jdict
  | ARemoveServers nat string
  | AClone host nat string string string

fun agent_exec :: "agent_op \<Rightarrow> agent_db \<Rightarrow> agent_db res" where
  "agent_exec (APlatform r) d = res_bind (ws_exec r (plat d)) (\<lambda>db. Inr (d\<lparr>plat := db\<rparr>))"
| "agent_exec (ACreate h acc tier name disp) d = create_agent h d acc tier name disp"
| "agent_exec (AScale h acc name n tier) d = scale_agent h d acc name n tier"
| "agent_exec (AStart h acc name r) d = start_agent h d acc name r"
| "agent_exec (AStop h acc name r) d = stop_agent h d acc name r"
| "agent_exec (ADestroy h acc name) d = destroy_agent h d acc name"
| "agent_exec (AForceRestart h acc i) d = res_bind (get_agent_by_id d acc i) (force_restart_agent h d)"
| "agent_exec (AAddSchedule h acc name fn cron tz fp tier om m) d =
     res_bind (add_schedule h d acc name fn cron tz fp tier om m) (\<lambda>p. Inr (fst p))"
| "agent_exec (ARemoveSchedule acc name i) d = remove_schedule d acc name i"
| "agent_exec (AAddWebhook h acc name path handler secret om) d =
     res_bind (add_webhook h d acc name path handler secret om) (\<lambda>p. Inr (fst p))"
| "agent_exec (ARemoveWebhook acc name i) d = remove_webhook d acc name i"
| "agent_exec (ASetState h acc name key v tier) d = set_state h d acc name key v tier"
| "agent_exec (ADeleteState acc name key) d = delete_state d acc name key"
| "agent_exec (AConfigureAi h acc name e m k p c) d = configure_ai h d acc name e m k p c"
| "agent_exec (ARemoveAi acc name) d = remove_ai d acc name"
| "agent_exec (AChatToken acc name t) d = generate_chat_token d acc name t"
| "agent_exec (ARevokeToken acc name) d = revoke_chat_token d acc name"
| "agent_exec (AAddChannel h acc name t c) d = add_channel h d acc name t c"
| "agent_exec (ARemoveChannel acc name t) d = remove_channel d acc name t"
| "agent_exec (AServers acc name s) d = configure_mcp_servers d acc name s"
| "agent_exec (ARemoveServers acc name) d = remove_mcp_servers d acc name"
| "agent_exec (AClone h acc src name tier) d = clone_agent h d acc src name tier"

definition agent_request :: "agent_db \<Rightarrow> agent_op \<Rightarrow> agent_db" where
  "agent_request d r = (case agent_exec r d of Inl _ \<Rightarrow> d | Inr d' \<Rightarrow> d')"

lemma ns_keys_update:
  "(\<And>n. ns_id (g n) = ns_id n \<and> ns_name (g n) = ns_name n \<and> ns_account_id (g n) = ns_account_id n) \<Longrightarrow>
     namespaces db' = update_row ns_id i g (namespaces db) \<Longrightarrow> ns_keys db' = ns_keys db"
  by (simp only: map_update_row)

lemma ns_keys_platform:
  assumes "platform_exec r db = Inr db'"
  shows "ns_keys db \<subseteq> ns_keys db' \<and> next_id db \<le> next_id db'"
proof (cases r)
  case (OFn f) then show ?thesis using assms fn_exec_frame by auto
next
  case (ONsCreate a name de al)
  then obtain n where "ns_create db a name de al = Inr (db', n)" using assms by auto
  from ns_create_Inr(1) [OF this] show ?thesis by auto
next
  case (OInvite n e ps u)
  then show ?thesis using assms create_invite_cases
    by (auto simp: create_invite_def grant_share_def reopen_share_def Let_def split: if_splits option.splits)
next
  case (ONsUpdate now i a de al)
  let ?g = "(\<lambda>n. if al = None then n else n\<lparr>ns_network_allowlist := al, ns_allowlist_updated_at := Some now,
                               ns_allowlist_changes_today := ns_allowlist_changes_today n + 1\<rparr>)
       \<circ> (\<lambda>n. n\<lparr>ns_description := (if de = None then ns_description n else de)\<rparr>)"
  have n: "namespaces db' = update_row ns_id i ?g (namespaces db)" "next_id db' = next_id db"
    using ONsUpdate assms by (auto simp: ns_update_def Let_def split: if_splits)
  have "ns_keys db' = ns_keys db" by (rule ns_keys_update [OF _ n(1)]) simp
  then show ?thesis using n(2) by simp
next
  case (ONsDelete now i a)
  then have n: "namespaces db' = update_row ns_id i (\<lambda>n. n\<lparr>ns_deleted_at := Some now\<rparr>) (namespaces db)" "next_id db' = next_id db"
    using assms by (auto simp: ns_delete_def)
  have "ns_keys db' = ns_keys db" by (rule ns_keys_update [OF _ n(1)]) simp
  then show ?thesis using n(2) by simp
qed (use assms in \<open>auto simp: svc_create_def svc_update_def svc_delete_def share_accept_def
       share_decline_def share_revoke_def Let_def split: if_splits option.splits\<close>)

lemma ns_keys_ws: "ws_exec r db = Inr db' \<Longrightarrow> ns_keys db \<subseteq> ns_keys db' \<and> next_id db \<le> next_id db'"
proof (cases r)
  case (WPlatform o')
  then show "ws_exec r db = Inr db' \<Longrightarrow> ?thesis" using ns_keys_platform by simp
next
  case (WProc o')
  assume "ws_exec r db = Inr db'"
  from proc_exec_frame [OF this [unfolded WProc ws_exec.simps]] show ?thesis by simp
qed

lemma inv_start_agent: "agent_inv d \<Longrightarrow> start_agent h d acc name r = Inr d' \<Longrightarrow> agent_inv d'"
proof -
  assume i: "agent_inv d" and s: "start_agent h d acc name r = Inr d'"
  obtain ag P d1 where "each_replica P (start_replica_container h ag) d = Inr d1" "d' = restatus (ag_id ag) d1"
    using s by (auto simp: start_agent_def split: if_splits)
  moreover have "agent_inv d1"
    by (rule inv_each_replica [OF i calculation(1)])
      (use start_replica_container_Inr running_error_valid in blast)
  ultimately show ?thesis by (simp add: inv_restatus)
qed

lemma inv_stop_agent: "agent_inv d \<Longrightarrow> stop_agent h d acc name r = Inr d' \<Longrightarrow> agent_inv d'"
proof -
  assume i: "agent_inv d" and s: "stop_agent h d acc name r = Inr d'"
  obtain i' P d1 where "each_replica P (stop_replica h) d = Inr d1" "d' = restatus i' d1"
    using s by (auto simp: stop_agent_def split: if_splits)
  moreover have "agent_inv d1"
    by (rule inv_each_replica [OF i calculation(1)])
      (auto simp: same_replica_def REPLICA_STATUSES_def dest!: stop_replica_Inr)
  ultimately show ?thesis by (simp add: inv_restatus)
qed

lemma inv_scale_agent:
  assumes i: "agent_inv d" and s: "scale_agent h d acc name n tier = Inr d'"
  shows "agent_inv d'"
proof -
  obtain ag d2 where ag: "get_agent d acc name = Inr ag" and d': "d' = restatus (ag_id ag) d2"
    and c: "(\<exists>k. iter_res k (create_replica h ag) (set_agent (ag_id ag) (\<lambda>a. a\<lparr>ag_target_replicas := n\<rparr>) d) = Inr d2)
       \<or> (\<exists>g. d2 = delete_replicas g (set_agent (ag_id ag) (\<lambda>a. a\<lparr>ag_target_replicas := n\<rparr>) d))
       \<or> d2 = set_agent (ag_id ag) (\<lambda>a. a\<lparr>ag_target_replicas := n\<rparr>) d"
    using s by (auto simp: scale_agent_def Let_def split: if_splits)
  let ?d1 = "set_agent (ag_id ag) (\<lambda>a. a\<lparr>ag_target_replicas := n\<rparr>) d"
  have i1: "agent_inv ?d1" by (rule inv_set_agent [OF i]) (simp_all add: inv_agent_facts(2) [OF i])
  have "map ag_id (agents ?d1) = map ag_id (agents d)" unfolding set_agent_def by (simp add: map_update_row)
  then have mem: "ag_id ag \<in> agent_ids ?d1" using get_agent_Inr [OF ag] by simp
  have "agent_inv d2" using c inv_create_replicas [OF i1 mem] inv_delete_replicas [OF i1] i1 by blast
  then show ?thesis unfolding d' by (rule inv_restatus)
qed

lemma set_state_step:
  assumes s: "set_state h d acc name key v tier = Inr d'"
  obtains ag c existing enc where "get_agent d acc name = Inr ag" "get_tier_config tier = Inr c"
    "state_entry d (ag_id ag) key = Inr existing"
    "total_state d (ag_id ag) - (case existing of None \<Rightarrow> 0 | Some x \<Rightarrow> st_size_bytes x) + int (length (json_dumps v))
       \<le> max_state_bytes c"
    "encrypt_value (h_aead h) (h_bytes h) (h_kek h) v = Inr enc"
    "d' = (case existing of
         Some x \<Rightarrow> d\<lparr>state_entries := update_row st_id (st_id x) (\<lambda>s. s\<lparr>st_value := enc,
                       st_size_bytes := int (length (json_dumps v)), st_updated_at := h_now h\<rparr>) (state_entries d)\<rparr>
       | None \<Rightarrow> (bump d)\<lparr>state_entries := state_entries d @ [\<lparr>st_id = new_id d, st_agent_id = ag_id ag, st_key = key,
             st_value = enc, st_size_bytes = int (length (json_dumps v)), st_updated_at = h_now h\<rparr>]\<rparr>)"
proof -
  let ?sz = "int (length (json_dumps v))"
  obtain ag c existing where ag: "get_agent d acc name = Inr ag" and c: "get_tier_config tier = Inr c"
    and e: "state_entry d (ag_id ag) key = Inr existing"
    using s unfolding set_state_def by auto
  let ?old = "case existing of None \<Rightarrow> 0 | Some x \<Rightarrow> st_size_bytes x"
  have lim: "total_state d (ag_id ag) - ?old + ?sz \<le> max_state_bytes c"
    using s unfolding set_state_def ag c e Let_def res_bind.simps by (simp split: if_splits)
  obtain enc where enc: "encrypt_value (h_aead h) (h_bytes h) (h_kek h) v = Inr enc"
    using s lim unfolding set_state_def ag c e Let_def res_bind.simps
    by (cases "encrypt_value (h_aead h) (h_bytes h) (h_kek h) v") simp_all
  show thesis
    by (rule that [OF ag c e lim enc])
      (use s lim in \<open>unfold set_state_def ag c e enc Let_def res_bind.simps; cases existing; simp split: if_splits\<close>)
qed

lemma inv_set_state:
  assumes i: "agent_inv d" and s: "set_state h d acc name key v tier = Inr d'"
  shows "agent_inv d'"
proof (rule set_state_step [OF s])
  fix ag :: agent_row and existing :: "state_row option" and enc
  assume ag: "get_agent d acc name = Inr ag" and e: "state_entry d (ag_id ag) key = Inr existing"
    and d': "d' = (case existing of
         Some x \<Rightarrow> d\<lparr>state_entries := update_row st_id (st_id x) (\<lambda>s. s\<lparr>st_value := enc,
                       st_size_bytes := int (length (json_dumps v)), st_updated_at := h_now h\<rparr>) (state_entries d)\<rparr>
       | None \<Rightarrow> (bump d)\<lparr>state_entries := state_entries d @ [\<lparr>st_id = new_id d, st_agent_id = ag_id ag, st_key = key,
             st_value = enc, st_size_bytes = int (length (json_dumps v)), st_updated_at = h_now h\<rparr>]\<rparr>)"
  show ?thesis
  proof (cases existing)
    case None
    then have n: "x \<in> set (state_entries d) \<Longrightarrow> st_agent_id x = ag_id ag \<Longrightarrow> st_key x \<noteq> key" for x
      using e by (simp add: state_entry_def one_or_none_None)
    show ?thesis unfolding d' None option.case
      by (rule inv_snoc_state [OF i]) (use get_agent_Inr [OF ag] n in auto)
  next
    case (Some x)
    let ?f = "\<lambda>s. s\<lparr>st_value := enc, st_size_bytes := int (length (json_dumps v)), st_updated_at := h_now h\<rparr>"
    have "rows_ok (new_id d) (agent_ids d) st_id st_agent_id st_key (update_row st_id (st_id x) ?f (state_entries d))"
      by (rule rows_ok_update) (use i in \<open>simp_all add: agent_inv_def\<close>)
    then show ?thesis using i unfolding d' Some option.case agent_inv_def by (auto simp: list_all_iff in_update_row)
  qed
qed

lemma inv_remove_schedule: "agent_inv d \<Longrightarrow> remove_schedule d acc name i = Inr d' \<Longrightarrow> agent_inv d'"
proof -
  assume i: "agent_inv d" and r: "remove_schedule d acc name i = Inr d'"
  obtain s :: schedule_row where d': "d' = d\<lparr>schedules := filter (\<lambda>x. sc_id x \<noteq> sc_id s) (schedules d),
                 jobs := filter (\<lambda>j. jb_schedule_id j \<noteq> sc_id s) (jobs d),
                 fires := filter (\<lambda>f. fr_schedule_id f \<noteq> sc_id s) (fires d)\<rparr>"
    using r by (auto simp: remove_schedule_def)
  have "rows_ok (new_id d) (agent_ids d) sc_id sc_agent_id sc_id (filter (\<lambda>x. sc_id x \<noteq> sc_id s) (schedules d))"
    "rows_ok (new_id d) (agent_ids d) jb_id jb_agent_id jb_id (filter (\<lambda>j. jb_schedule_id j \<noteq> sc_id s) (jobs d))"
    by (rule rows_ok_filter; use i in \<open>simp add: agent_inv_def\<close>)+
  then show ?thesis using i unfolding d' agent_inv_def by (auto simp: list_all_iff)
qed

lemma inv_filters:
  assumes i: "agent_inv d"
  shows "agent_inv (d\<lparr>webhooks := filter P (webhooks d)\<rparr>)"
    and "agent_inv (d\<lparr>state_entries := filter Q (state_entries d)\<rparr>)"
    and "agent_inv (d\<lparr>channels := filter R (channels d)\<rparr>)"
proof -
  have "rows_ok (new_id d) (agent_ids d) wh_id wh_agent_id wh_path (filter P (webhooks d))"
    "rows_ok (new_id d) (agent_ids d) st_id st_agent_id st_key (filter Q (state_entries d))"
    "rows_ok (new_id d) (agent_ids d) ch_id ch_agent_id ch_channel_type (filter R (channels d))"
    by (rule rows_ok_filter; use i in \<open>simp add: agent_inv_def\<close>)+
  then show "agent_inv (d\<lparr>webhooks := filter P (webhooks d)\<rparr>)" "agent_inv (d\<lparr>state_entries := filter Q (state_entries d)\<rparr>)"
    "agent_inv (d\<lparr>channels := filter R (channels d)\<rparr>)"
    using i unfolding agent_inv_def by (simp_all add: list_all_iff)
qed

lemma inv_configure_ai:
  assumes i: "agent_inv d" and c: "configure_ai h d acc name e m k p ch = Inr d'"
  shows "agent_inv d'"
proof -
  define upd where "upd key a = a\<lparr>ag_ai_engine := Some e, ag_ai_model := Some m, ag_ai_api_key := key,
      ag_system_prompt := (case p of None \<Rightarrow> ag_system_prompt a | Some p \<Rightarrow> p),
      ag_auto_channel := (case ch of None \<Rightarrow> ag_auto_channel a | Some c \<Rightarrow> c)\<rparr>" for key and a :: agent_row
  obtain ag key where ag: "get_agent d acc name = Inr ag"
    and "trigger_rolling_restart_if_clustered h (upd key ag) (set_agent (ag_id ag) (\<lambda>_. upd key ag) d) = Inr d'"
    using c unfolding configure_ai_def Let_def upd_def by (auto split: if_splits)
  moreover define ag' where "ag' = upd key ag"
  ultimately have t: "trigger_rolling_restart_if_clustered h ag' (set_agent (ag_id ag) (\<lambda>_. ag') d) = Inr d'" by simp
  have a: "ag_id ag' = ag_id ag" "ag_namespace_id ag' = ag_namespace_id ag" "ag_name ag' = ag_name ag"
      "ag_account_id ag' = ag_account_id ag" "ag_status ag' = ag_status ag" by (simp_all add: ag'_def upd_def)
  have u: "x = ag" if "x \<in> set (agents d)" "ag_id x = ag_id ag" for x
    using agent_id_unique [OF i that(1)] get_agent_Inr [OF ag] that(2) by blast
  have i1: "agent_inv (set_agent (ag_id ag) (\<lambda>_. ag') d)"
    by (rule inv_set_agent [OF i]) (use a u inv_agent_facts(2) [OF i] in auto)
  show ?thesis
  proof (cases "1 < ag_target_replicas ag'")
    case True
    then have "each_replica (\<lambda>r. rp_agent_id r = ag_id ag' \<and> rp_status r = ''running'') (restart_replica h)
        (set_agent (ag_id ag) (\<lambda>_. ag') d) = Inr d'"
      using t by (simp add: trigger_rolling_restart_if_clustered_def rolling_restart_def)
    then show ?thesis
      by (rule inv_each_replica [OF i1]) (auto dest!: restart_replica_Inr simp: REPLICA_STATUSES_def)
  next
    case False
    then show ?thesis using t i1 by (simp add: trigger_rolling_restart_if_clustered_def)
  qed
qed

lemma force_restart_Inr:
  assumes "force_restart_agent h d ag = Inr d'"
  shows "d' = set_agent (ag_id ag) (\<lambda>a. a\<lparr>ag_status := ''running''\<rparr>) d
    \<or> d' = set_agent (ag_id ag) (\<lambda>a. a\<lparr>ag_status := ''error''\<rparr>) d"
proof (cases "live_container (ag_container_id ag)")
  case (Some c)
  then show ?thesis using assms
    by (cases "h_docker h (ContainerRestart (ag_id ag) c)") (simp_all add: force_restart_agent_def)
qed (use assms in \<open>simp add: force_restart_agent_def\<close>)

lemma agent_inv_exec:
  assumes i: "agent_inv d" and e: "agent_exec r d = Inr d'"
  shows "agent_inv d'"
proof (cases r)
  case (APlatform o')
  then obtain db where db: "ws_exec o' (plat d) = Inr db" "d' = d\<lparr>plat := db\<rparr>" using e by auto
  have "ws_inv db" using ws_inv_exec [OF _ db(1)] i by (simp add: agent_inv_def)
  then show ?thesis unfolding db(2) using ns_keys_ws [OF db(1)] by (intro agent_inv_plat [OF i]) simp_all
next
  case (AAddSchedule h acc name fn cron tz fp tier om m)
  then show ?thesis using e
    by (auto simp: add_schedule_def Let_def split: if_splits dest!: get_agent_Inr intro!: inv_snoc_schedule [OF i])
next
  case (AAddWebhook h acc name path handler secret om)
  then show ?thesis using e
    by (auto simp: add_webhook_def Let_def one_or_none_None split: if_splits dest!: get_agent_Inr intro!: inv_snoc_webhook [OF i])
next
  case (AAddChannel h acc name t c)
  then show ?thesis using e
    by (auto simp: add_channel_def one_or_none_None split: if_splits dest!: get_agent_Inr intro!: inv_snoc_channel [OF i])
next
  case (AForceRestart h acc j)
  then obtain x where "force_restart_agent h d x = Inr d'" using e by auto
  from force_restart_Inr [OF this] show ?thesis by (auto simp: AGENT_STATUSES_def intro!: inv_set_agent [OF i])
next
  case (ACreate h acc tier name disp)
  then show ?thesis using e inv_create_agent [OF i] by simp
next
  case (AScale h acc name n tier)
  then show ?thesis using e inv_scale_agent [OF i] by simp
next
  case (AStart h acc name rn)
  then show ?thesis using e inv_start_agent [OF i] by simp
next
  case (AStop h acc name rn)
  then show ?thesis using e inv_stop_agent [OF i] by simp
next
  case (ADestroy h acc name)
  then show ?thesis using e inv_destroy_agent [OF i] by simp
next
  case (ARemoveSchedule acc name j)
  then show ?thesis using e inv_remove_schedule [OF i] by simp
next
  case (ASetState h acc name key v tier)
  then show ?thesis using e inv_set_state [OF i] by simp
next
  case (AConfigureAi h acc name e' m k p c)
  then show ?thesis using e inv_configure_ai [OF i] by simp
next
  case (AClone h acc src name tier)
  then show ?thesis using e inv_clone_agent [OF i] by simp
next
  case (ARemoveWebhook acc name j)
  then show ?thesis using e inv_filters [OF i] by (auto simp: remove_webhook_def)
next
  case (ADeleteState acc name key)
  then show ?thesis using e inv_filters [OF i] by (auto simp: delete_state_def)
next
  case (ARemoveChannel acc name t)
  then show ?thesis using e inv_filters [OF i] by (auto simp: remove_channel_def)
next
  case (ARemoveAi acc name)
  then show ?thesis using e by (auto simp: remove_ai_def inv_agent_facts(2) [OF i] split: if_splits intro!: inv_set_agent [OF i])
next
  case (AChatToken acc name t)
  then show ?thesis using e by (auto simp: generate_chat_token_def inv_agent_facts(2) [OF i] split: if_splits intro!: inv_set_agent [OF i])
next
  case (ARevokeToken acc name)
  then show ?thesis using e by (auto simp: revoke_chat_token_def inv_agent_facts(2) [OF i] split: if_splits intro!: inv_set_agent [OF i])
next
  case (AServers acc name sv)
  then show ?thesis using e by (auto simp: configure_mcp_servers_def inv_agent_facts(2) [OF i] split: if_splits intro!: inv_set_agent [OF i])
next
  case (ARemoveServers acc name)
  then show ?thesis using e by (auto simp: remove_mcp_servers_def inv_agent_facts(2) [OF i] split: if_splits intro!: inv_set_agent [OF i])
qed

interpretation agent_machine: request_machine agent_request agent_inv "\<lambda>_. True"
  by unfold_locales (auto simp: agent_request_def intro: agent_inv_exec split: sum.splits)

end
