(* ===== verification/KeyedStore.thy ===== *)
theory KeyedStore
  imports Main
begin

text \<open>
  The interface of a store of values under keys: a write may be refused, a refused write changes nothing, and an
  accepted one changes the value under its key and no other. \<open>run_writes\<close> performs a sequence of writes and
  returns those that were accepted; a client of the interface sees a finite map.
\<close>

fun run_writes :: "('s \<Rightarrow> 'w \<Rightarrow> 's option) \<Rightarrow> 's \<Rightarrow> 'w list \<Rightarrow> 's \<times> 'w list" where
  "run_writes put s [] = (s, [])"
| "run_writes put s (w # ws) =
     (case put s w of
        None \<Rightarrow> run_writes put s ws
      | Some s' \<Rightarrow> let (t, done) = run_writes put s' ws in (t, w # done))"

locale keyed_store =
  fixes put :: "'s \<Rightarrow> 'w \<Rightarrow> 's option"
    and view :: "'s \<Rightarrow> 'k \<Rightarrow> 'v option"
    and key :: "'w \<Rightarrow> 'k"
    and val :: "'w \<Rightarrow> 'v"
    and good :: "'s \<Rightarrow> bool"
    and admissible :: "'w \<Rightarrow> bool"
  assumes put_good: "good s \<Longrightarrow> admissible w \<Longrightarrow> put s w = Some t \<Longrightarrow> good t"
    and put_view: "good s \<Longrightarrow> admissible w \<Longrightarrow> put s w = Some t \<Longrightarrow> view t = (view s)(key w \<mapsto> val w)"
begin

lemma run_writes_view:
  assumes "good s" and "list_all admissible ws"
  shows "view (fst (run_writes put s ws)) = foldl (\<lambda>m w. m(key w \<mapsto> val w)) (view s) (snd (run_writes put s ws))"
  using assms
proof (induction ws arbitrary: s)
  case (Cons w ws)
  show ?case
  proof (cases "put s w")
    case None
    then show ?thesis using Cons by simp
  next
    case (Some t)
    have "good t" "view t = (view s)(key w \<mapsto> val w)"
      using put_good [OF _ _ Some] put_view [OF _ _ Some] Cons.prems by simp_all
    then show ?thesis using Cons.IH [of t] Cons.prems Some by (simp add: case_prod_unfold Let_def)
  qed
qed simp

end

end
