(* ===== verification/AgentCluster.thy ===== *)
theory AgentCluster
  imports AgentInv KeyedStore
begin

text \<open>
  What the agent service promises: agent names are unambiguous, an address of a webhook leads to at most one
  webhook, scaling reaches its target within the slots of the tier, encrypted state is read back as it was
  written and stays within the limit of the tier.
\<close>

section \<open>Names of agents\<close>

lemma agent_namespace:
  assumes i: "agent_inv d" and a: "a \<in> set (agents d)"
  obtains n where "n \<in> set (namespaces (plat d))" "ns_id n = ag_namespace_id a" "ns_name n = ag_name a"
    "ns_account_id n = ag_account_id a"
proof -
  from inv_agent_facts(3) [OF i a] obtain n where "n \<in> set (namespaces (plat d))"
    "(ag_namespace_id a, ag_name a, ag_account_id a) = (ns_id n, ns_name n, ns_account_id n)"
    unfolding set_map by (elim imageE)
  then show thesis by (intro that [of n]) simp_all
qed

lemma agent_name_unique:
  assumes i: "agent_inv d" and a: "a \<in> set (agents d)" "b \<in> set (agents d)" "ag_name a = ag_name b"
  shows "a = b"
proof -
  obtain n m where n: "n \<in> set (namespaces (plat d))" "ns_id n = ag_namespace_id a" "ns_name n = ag_name a"
    and m: "m \<in> set (namespaces (plat d))" "ns_id m = ag_namespace_id b" "ns_name m = ag_name b"
    using agent_namespace [OF i a(1)] agent_namespace [OF i a(2)] by metis
  have "distinct (map ns_name (namespaces (plat d)))"
    using i by (simp add: agent_inv_def ws_inv_def platform_inv_def ns_inv_def)
  then have "n = m" by (rule distinct_key_unique [OF _ n(1) m(1)]) (simp add: n m a)
  then have ns: "ag_namespace_id a = ag_namespace_id b" using n(2) m(2) by simp
  have "distinct (map ag_namespace_id (agents d))" using i by (simp add: agent_inv_def agents_ok_def)
  then show ?thesis by (rule distinct_key_unique [OF _ a(1,2) ns])
qed

lemma get_agent_iff:
  assumes "agent_inv d"
  shows "get_agent d acc name = Inr ag \<longleftrightarrow> ag \<in> set (agents d) \<and> ag_account_id ag = acc \<and> ag_name ag = name"
proof -
  have "distinct (agents d)" using assms by (simp add: agent_inv_def agents_ok_def distinct_map)
  moreover have "inj_on ag_name (set (agents d))" by (rule inj_onI) (rule agent_name_unique [OF assms])
  ultimately have "distinct (map ag_name (agents d))" by (simp add: distinct_map)
  then show ?thesis unfolding get_agent_def by (rule fetch_mem [where k = name]) simp
qed

lemma webhook_unique:
  assumes i: "agent_inv d"
  shows "\<exists>r. resolve_webhook d name path = Inr r
     \<and> (\<forall>w. r = Some w \<longleftrightarrow> w \<in> set (webhooks d) \<and> wh_path w = path \<and> wh_enabled w
          \<and> (\<exists>a\<in>set (agents d). ag_id a = wh_agent_id w \<and> ag_name a = name))"
proof -
  let ?P = "\<lambda>w. list_ex (\<lambda>a. ag_id a = wh_agent_id w \<and> ag_name a = name) (agents d) \<and> wh_path w = path \<and> wh_enabled w"
  have d: "distinct (map wh_id (webhooks d))" using i by (simp add: agent_inv_def rows_ok_def)
  have ok: "rows_ok (new_id d) (agent_ids d) wh_id wh_agent_id wh_path (webhooks d)" using i by (simp add: agent_inv_def)
  have one: "v = w" if v: "v \<in> set (webhooks d)" "?P v" and w: "w \<in> set (webhooks d)" "?P w" for v w
  proof -
    obtain a b where "a \<in> set (agents d)" "ag_id a = wh_agent_id v" "ag_name a = name"
      "b \<in> set (agents d)" "ag_id b = wh_agent_id w" "ag_name b = name"
      using v(2) w(2) by (auto simp: list_ex_iff)
    then have "wh_agent_id v = wh_agent_id w" using agent_name_unique [OF i] by metis
    then show ?thesis using rows_ok_unique [OF ok v(1) w(1)] v(2) w(2) by simp
  qed
  show ?thesis
  proof (cases "\<exists>w\<in>set (webhooks d). ?P w")
    case True
    then obtain w where w: "w \<in> set (webhooks d)" "?P w" by blast
    have "one_or_none ?P (webhooks d) = Inr (Some w)"
      by (rule one_or_none_mem [OF d, where k = "wh_id w"]) (use w one in auto)
    then show ?thesis using w one unfolding resolve_webhook_def by (auto simp: list_ex_iff)
  next
    case False
    then have "one_or_none ?P (webhooks d) = Inr None" by (auto simp: one_or_none_None)
    then show ?thesis using False unfolding resolve_webhook_def by (auto simp: list_ex_iff)
  qed
qed

section \<open>Scaling\<close>

lemma create_replicas_list:
  "iter_res k (create_replica h ag) d = Inr d' \<Longrightarrow>
     \<exists>new. replicas d' = replicas d @ new \<and> length new = k \<and> agents d' = agents d
        \<and> list_all (\<lambda>r. rp_agent_id r = ag_id ag \<and> rp_created_at r = h_now h) new"
proof (induction k arbitrary: d)
  case (Suc k)
  then obtain d1 where d1: "create_replica h ag d = Inr d1" "iter_res k (create_replica h ag) d1 = Inr d'" by auto
  obtain r where r: "d1 = (bump d)\<lparr>replicas := replicas d @ [r]\<rparr>" "rp_agent_id r = ag_id ag" "rp_created_at r = h_now h"
    using create_replica_Inr [OF d1(1)] by metis
  obtain new where "replicas d' = replicas d1 @ new" "length new = k" "agents d' = agents d1"
    "list_all (\<lambda>r. rp_agent_id r = ag_id ag \<and> rp_created_at r = h_now h) new"
    using Suc.IH [OF d1(2)] by blast
  then show ?case using r by (intro exI [of _ "r # new"]) simp
qed simp

lemma length_filter_remove:
  assumes d: "distinct (map g xs)" and s: "set ys \<subseteq> set xs" "distinct ys" "list_all P ys"
  shows "length (filter (\<lambda>x. P x \<and> g x \<notin> g ` set ys) xs) + length ys = length (filter P xs)"
proof -
  have inj: "g x \<in> g ` set ys \<longleftrightarrow> x \<in> set ys" if "x \<in> set xs" for x
    using distinct_key_unique [OF d that] s(1) by blast
  have dx: "distinct xs" using d by (simp add: distinct_map)
  have "set (filter (\<lambda>x. P x \<and> g x \<in> g ` set ys) xs) = set ys"
    using s inj by (auto simp: list_all_iff)
  then have "length (filter (\<lambda>x. P x \<and> g x \<in> g ` set ys) xs) = length ys"
    using distinct_card [OF distinct_filter [OF dx]] distinct_card [OF s(2)] by metis
  moreover have "length (filter P xs) = length (filter (\<lambda>x. g x \<in> g ` set ys) (filter P xs))
      + length (filter (\<lambda>x. \<not> g x \<in> g ` set ys) (filter P xs))"
    by (rule sum_length_filter_compl [symmetric])
  ultimately show ?thesis by (simp add: conj_commute)
qed


lemma length_get_replicas: "length (get_replicas d i) = length (filter (\<lambda>r. rp_agent_id r = i) (replicas d))"
  by (simp add: get_replicas_def)

lemma restatus_replicas [simp]: "replicas (restatus i d) = replicas d"
  by (simp add: restatus_def set_agent_def)

lemma set_agent_simps [simp]:
  "replicas (set_agent i f d) = replicas d" "state_entries (set_agent i f d) = state_entries d"
  "schedules (set_agent i f d) = schedules d" "plat (set_agent i f d) = plat d" "jobs (set_agent i f d) = jobs d"
  "webhooks (set_agent i f d) = webhooks d" "channels (set_agent i f d) = channels d"
  by (simp_all add: set_agent_def)

lemma get_replicas_cong: "replicas d' = replicas d \<Longrightarrow> get_replicas d' i = get_replicas d i"
  by (simp add: get_replicas_def)

lemma delete_newest_count:
  assumes i: "agent_inv d" and k: "k \<le> length (get_replicas d j)"
  shows "length (get_replicas (delete_replicas
           (map rp_id (take k (sort_key (\<lambda>r. - rp_created_at r) (get_replicas d j)))) d) j) + k
         = length (get_replicas d j)"
proof -
  let ?gone = "take k (sort_key (\<lambda>r. - rp_created_at r) (get_replicas d j))"
  have dr: "distinct (map rp_id (replicas d))" using i by (simp add: agent_inv_def rows_ok_def)
  have "distinct (replicas d)" using dr by (simp add: distinct_map)
  then have "distinct ?gone" by (simp add: get_replicas_def)
  moreover have s: "set ?gone \<subseteq> {r \<in> set (replicas d). rp_agent_id r = j}"
    using set_take_subset [of k "sort_key (\<lambda>r. - rp_created_at r) (get_replicas d j)"] by simp
  ultimately have "length (filter (\<lambda>x. rp_agent_id x = j \<and> rp_id x \<notin> rp_id ` set ?gone) (replicas d)) + length ?gone
      = length (filter (\<lambda>x. rp_agent_id x = j) (replicas d))"
    by (intro length_filter_remove [OF dr]) (auto simp: list_all_iff)
  moreover have "length ?gone = k" using k by simp
  ultimately show ?thesis unfolding length_get_replicas delete_replicas_def by (simp add: conj_commute)
qed

lemma sum_replica_counts:
  assumes i: "agent_inv d" and a: "ag \<in> set (agents d)"
  shows "get_total_replica_count d (ag_account_id ag)
    = int (length (get_replicas d (ag_id ag)))
      + int (length (filter (\<lambda>r. owned_by d (ag_account_id ag) r \<and> rp_agent_id r \<noteq> ag_id ag) (replicas d)))"
proof -
  have "owned_by d (ag_account_id ag) r" if "rp_agent_id r = ag_id ag" for r
    using a that by (auto simp: owned_by_def list_ex_iff)
  then have f: "filter (\<lambda>r. owned_by d (ag_account_id ag) r \<and> rp_agent_id r = ag_id ag) (replicas d)
      = filter (\<lambda>r. rp_agent_id r = ag_id ag) (replicas d)"
    by (intro filter_cong [OF refl]) auto
  have "length (filter (owned_by d (ag_account_id ag)) (replicas d))
    = length (filter (\<lambda>r. rp_agent_id r = ag_id ag) (filter (owned_by d (ag_account_id ag)) (replicas d)))
      + length (filter (\<lambda>r. \<not> rp_agent_id r = ag_id ag) (filter (owned_by d (ag_account_id ag)) (replicas d)))"
    by (rule sum_length_filter_compl [symmetric])
  then show ?thesis unfolding get_total_replica_count_def length_get_replicas by (simp add: f conj_commute)
qed

lemma scale_agent_Inr:
  assumes i: "agent_inv d" and s: "scale_agent h d acc name n tier = Inr d'" and n: "0 \<le> n"
  obtains ag c d2 where "get_agent d acc name = Inr ag" "get_tier_config tier = Inr c" "d' = restatus (ag_id ag) d2"
    "get_total_replica_count d acc - int (length (get_replicas d (ag_id ag))) + n \<le> max_agents c"
    "int (length (get_replicas d2 (ag_id ag))) = n"
    "filter (\<lambda>r. rp_agent_id r \<noteq> ag_id ag) (replicas d2) = filter (\<lambda>r. rp_agent_id r \<noteq> ag_id ag) (replicas d)"
    "agents d2 = update_row ag_id (ag_id ag) (\<lambda>a. a\<lparr>ag_target_replicas := n\<rparr>) (agents d)"
proof -
  obtain ag c where ag: "get_agent d acc name = Inr ag" and c: "get_tier_config tier = Inr c"
    using s by (auto simp: scale_agent_def)
  define cur where "cur = int (length (get_replicas d (ag_id ag)))"
  define d1 where "d1 = set_agent (ag_id ag) (\<lambda>a. a\<lparr>ag_target_replicas := n\<rparr>) d"
  define gone where "gone = take (nat (cur - n)) (sort_key (\<lambda>r. - rp_created_at r) (get_replicas d (ag_id ag)))"
  have lim: "get_total_replica_count d acc - cur + n \<le> max_agents c"
    using s ag c by (auto simp: scale_agent_def Let_def cur_def split: if_splits)
  have i1: "agent_inv d1" unfolding d1_def by (rule inv_set_agent [OF i]) (simp_all add: inv_agent_facts(2) [OF i])
  have r1: "replicas d1 = replicas d" by (simp add: d1_def)
  have g1: "get_replicas d1 j = get_replicas d j" for j by (rule get_replicas_cong [OF r1])
  have a1: "agents d1 = update_row ag_id (ag_id ag) (\<lambda>a. a\<lparr>ag_target_replicas := n\<rparr>) (agents d)"
    by (simp add: d1_def set_agent_def)
  consider (up) d2 where "cur < n" "iter_res (nat (n - cur)) (create_replica h ag) d1 = Inr d2" "d' = restatus (ag_id ag) d2"
    | (down) "n < cur" "d' = restatus (ag_id ag) (delete_replicas (map rp_id gone) d1)"
    | (same) "n = cur" "d' = restatus (ag_id ag) d1"
    using s ag c lim by (auto simp: scale_agent_def Let_def cur_def d1_def gone_def split: if_splits)
  then show thesis
  proof cases
    case up
    obtain new where new: "replicas d2 = replicas d1 @ new" "length new = nat (n - cur)" "agents d2 = agents d1"
      "list_all (\<lambda>r. rp_agent_id r = ag_id ag \<and> rp_created_at r = h_now h) new"
      using create_replicas_list [OF up(2)] by blast
    have f: "filter (\<lambda>r. rp_agent_id r = ag_id ag) new = new" "filter (\<lambda>r. rp_agent_id r \<noteq> ag_id ag) new = []"
      using new(4) by (auto simp: list_all_iff filter_empty_conv intro: filter_True)
    have "int (length (get_replicas d2 (ag_id ag))) = n"
      unfolding length_get_replicas new(1) using new(2) up(1) f(1) by (simp add: r1 cur_def length_get_replicas)
    then show ?thesis using that [OF ag c up(3)] lim f(2) new a1 by (simp add: cur_def r1)
  next
    case down
    have "length (get_replicas (delete_replicas (map rp_id gone) d1) (ag_id ag)) + nat (cur - n) = length (get_replicas d1 (ag_id ag))"
      unfolding gone_def g1 [symmetric] by (rule delete_newest_count [OF i1]) (use n in \<open>simp add: g1 cur_def\<close>)
    then have l: "int (length (get_replicas (delete_replicas (map rp_id gone) d1) (ag_id ag))) = n"
      using down(1) n by (simp add: g1 cur_def)
    have mine: "set gone \<subseteq> {r \<in> set (replicas d). rp_agent_id r = ag_id ag}"
      using set_take_subset [of _ "sort_key (\<lambda>r. - rp_created_at r) (get_replicas d (ag_id ag))"] by (simp add: gone_def)
    have dr: "distinct (map rp_id (replicas d))" using i by (simp add: agent_inv_def rows_ok_def)
    have "r \<notin> set (replicas d) \<or> rp_agent_id r = ag_id ag \<or> rp_id r \<notin> rp_id ` set gone" for r
      using mine distinct_key_unique [OF dr] by blast
    then have "filter (\<lambda>r. rp_agent_id r \<noteq> ag_id ag) (replicas (delete_replicas (map rp_id gone) d1))
        = filter (\<lambda>r. rp_agent_id r \<noteq> ag_id ag) (replicas d)"
      by (auto simp: delete_replicas_def r1 intro!: filter_cong)
    moreover have "agents (delete_replicas (map rp_id gone) d1) = agents d1" by (simp add: delete_replicas_def)
    ultimately show ?thesis using that [OF ag c down(2)] lim l a1 by (simp add: cur_def)
  next
    case same
    then show ?thesis using that [OF ag c same(2)] lim a1 by (simp add: cur_def g1 r1)
  qed
qed

section \<open>State\<close>

lemma update_row_absent: "i \<notin> rid ` set rows \<Longrightarrow> update_row rid i f rows = rows"
  by (induction rows) (auto simp: update_row_def)

lemma sum_update_row:
  fixes g :: "'r \<Rightarrow> int"
  assumes d: "distinct (map rid rows)" and x: "x \<in> set rows" and P: "P (f x) = P x"
  shows "sum_list (map g (filter P (update_row rid (rid x) f rows)))
    = sum_list (map g (filter P rows)) + (if P x then g (f x) - g x else 0)"
proof -
  obtain as bs where rows: "rows = as @ x # bs" using x by (auto simp: in_set_conv_decomp)
  have "rid x \<notin> rid ` set as" "rid x \<notin> rid ` set bs" using d by (auto simp: rows)
  then have "update_row rid (rid x) f as = as" "update_row rid (rid x) f bs = bs"
    by (simp_all add: update_row_absent)
  then have "update_row rid (rid x) f rows = as @ f x # bs" by (simp add: rows update_row_def)
  then show ?thesis using P by (simp add: rows)
qed

lemma state_lookup:
  assumes i: "agent_inv d"
  shows "fetch e (\<lambda>s. st_agent_id s = a \<and> st_key s = k) (state_entries d) = Inr x
     \<longleftrightarrow> x \<in> set (state_entries d) \<and> st_agent_id x = a \<and> st_key x = k"
proof -
  have "distinct (map (\<lambda>s. (st_agent_id s, st_key s)) (state_entries d))" using i by (simp add: agent_inv_def rows_ok_def)
  then show ?thesis by (rule fetch_mem [where k = "(a, k)"]) simp
qed

lemma state_entry_cases:
  assumes i: "agent_inv d"
  shows "state_entry d a k = Inr (Some x) \<longleftrightarrow> x \<in> set (state_entries d) \<and> st_agent_id x = a \<and> st_key x = k"
proof
  assume "x \<in> set (state_entries d) \<and> st_agent_id x = a \<and> st_key x = k"
  moreover have "distinct (map (\<lambda>s. (st_agent_id s, st_key s)) (state_entries d))" using i by (simp add: agent_inv_def rows_ok_def)
  ultimately show "state_entry d a k = Inr (Some x)" unfolding state_entry_def
    by (intro one_or_none_mem [where f = "\<lambda>s. (st_agent_id s, st_key s)" and k = "(a, k)"]) auto
qed (auto simp: state_entry_def dest: one_or_none_Some)

text \<open>The table after a write: the entry of the key is there with the new value, all others are as before.\<close>

definition written :: "agent_db \<Rightarrow> nat \<Rightarrow> string \<Rightarrow> string \<times> string \<Rightarrow> int \<Rightarrow> agent_db \<Rightarrow> bool" where
  "written d a k enc sz d' \<longleftrightarrow>
     (\<exists>x\<in>set (state_entries d'). st_agent_id x = a \<and> st_key x = k \<and> st_value x = enc \<and> st_size_bytes x = sz)
     \<and> (\<forall>y. (st_agent_id y, st_key y) \<noteq> (a, k) \<longrightarrow> (y \<in> set (state_entries d') \<longleftrightarrow> y \<in> set (state_entries d)))
     \<and> agents d' = agents d"

lemma set_state_Inr:
  assumes i: "agent_inv d" and s: "set_state h d acc name key v tier = Inr d'"
  obtains ag c enc where "get_agent d acc name = Inr ag" "get_tier_config tier = Inr c"
    "encrypt_value (h_aead h) (h_bytes h) (h_kek h) v = Inr enc"
    "written d (ag_id ag) key enc (int (length (json_dumps v))) d'"
    "total_state d' (ag_id ag) \<le> max_state_bytes c"
    "\<And>b. b \<noteq> ag_id ag \<Longrightarrow> total_state d' b = total_state d b"
proof -
  let ?sz = "int (length (json_dumps v))"
  obtain ag c existing enc where ag: "get_agent d acc name = Inr ag" and c: "get_tier_config tier = Inr c"
    and e: "state_entry d (ag_id ag) key = Inr existing"
    and lim: "total_state d (ag_id ag) - (case existing of None \<Rightarrow> 0 | Some x \<Rightarrow> st_size_bytes x) + ?sz \<le> max_state_bytes c"
    and enc: "encrypt_value (h_aead h) (h_bytes h) (h_kek h) v = Inr enc"
    and d': "d' = (case existing of
         Some x \<Rightarrow> d\<lparr>state_entries := update_row st_id (st_id x) (\<lambda>s. s\<lparr>st_value := enc,
                       st_size_bytes := ?sz, st_updated_at := h_now h\<rparr>) (state_entries d)\<rparr>
       | None \<Rightarrow> (bump d)\<lparr>state_entries := state_entries d @ [\<lparr>st_id = new_id d, st_agent_id = ag_id ag, st_key = key,
             st_value = enc, st_size_bytes = ?sz, st_updated_at = h_now h\<rparr>]\<rparr>)"
    by (rule set_state_step [OF s])
  show thesis
  proof (cases existing)
    case None
    have w: "written d (ag_id ag) key enc ?sz d'"
      unfolding written_def d' None option.case by auto
    have t: "total_state d' (ag_id ag) = total_state d (ag_id ag) + ?sz" "\<And>b. b \<noteq> ag_id ag \<Longrightarrow> total_state d' b = total_state d b"
      unfolding d' None option.case by (auto simp: total_state_def)
    show thesis by (rule that [OF ag c enc w]) (use t lim None in simp_all)
  next
    case (Some x)
    let ?f = "\<lambda>s. s\<lparr>st_value := enc, st_size_bytes := ?sz, st_updated_at := h_now h\<rparr>"
    have x: "x \<in> set (state_entries d)" "st_agent_id x = ag_id ag" "st_key x = key"
      using e Some state_entry_cases [OF i] by auto
    have ids: "distinct (map st_id (state_entries d))" using i by (simp add: agent_inv_def rows_ok_def)
    have u: "y = x" if "y \<in> set (state_entries d)" "st_id y = st_id x" for y
      by (rule distinct_key_unique [OF ids that(1) x(1) that(2)])
    have e': "state_entries d' = update_row st_id (st_id x) ?f (state_entries d)" by (simp add: d' Some)
    have w1: "\<exists>y\<in>set (state_entries d'). st_agent_id y = ag_id ag \<and> st_key y = key \<and> st_value y = enc \<and> st_size_bytes y = ?sz"
      unfolding e' using update_row_hit [OF x(1) refl, of ?f] x by (intro bexI [of _ "?f x"]) simp_all
    have w2: "y \<in> set (state_entries d') \<longleftrightarrow> y \<in> set (state_entries d)" if "(st_agent_id y, st_key y) \<noteq> (ag_id ag, key)" for y
    proof -
      have "y \<noteq> ?f x" "y \<noteq> x" using that x by auto
      then show ?thesis unfolding e' in_update_row using u by (auto split: if_splits)
    qed
    have w: "written d (ag_id ag) key enc ?sz d'"
      unfolding written_def using w1 w2 by (simp add: d' Some)
    have t: "total_state d' b = total_state d b + (if b = ag_id ag then ?sz - st_size_bytes x else 0)" for b
      unfolding total_state_def e' using x(2) by (subst sum_update_row [OF ids x(1)]) auto
    show thesis by (rule that [OF ag c enc w]) (use t lim Some in simp_all)
  qed
qed

lemma fetch_cases:
  assumes "distinct (map f xs)" and "\<And>y. y \<in> set xs \<Longrightarrow> P y \<Longrightarrow> f y = k"
  obtains x where "fetch e P xs = Inr x" "x \<in> set xs" "P x" | "fetch e P xs = Inl e" "\<And>x. x \<in> set xs \<Longrightarrow> \<not> P x"
proof -
  obtain r where r: "one_or_none P xs = Inr r" using one_or_none_unique [OF assms] by blast
  show thesis
  proof (cases r)
    case None
    have "fetch e P xs = Inl e" using r None by (simp add: fetch_def)
    moreover have "\<And>x. x \<in> set xs \<Longrightarrow> \<not> P x" using r None by (simp add: one_or_none_None)
    ultimately show thesis by (rule that(2))
  next
    case (Some x)
    then show thesis using r that(1) [of x] one_or_none_Some [of P xs x] by (simp add: fetch_def)
  qed
qed

lemma fetch_state_cong:
  assumes i: "agent_inv d" "agent_inv d'"
    and s: "\<And>y. st_agent_id y = a \<Longrightarrow> st_key y = k \<Longrightarrow> y \<in> set (state_entries d') \<longleftrightarrow> y \<in> set (state_entries d)"
  shows "fetch e (\<lambda>s. st_agent_id s = a \<and> st_key s = k) (state_entries d')
    = fetch e (\<lambda>s. st_agent_id s = a \<and> st_key s = k) (state_entries d)"
proof -
  let ?P = "\<lambda>s. st_agent_id s = a \<and> st_key s = k"
  have d: "distinct (map (\<lambda>s. (st_agent_id s, st_key s)) (state_entries d))"
    using i by (simp add: agent_inv_def rows_ok_def)
  show ?thesis
  proof (rule fetch_cases [OF d, of ?P "(a, k)" e])
    fix x assume x: "fetch e ?P (state_entries d) = Inr x" "x \<in> set (state_entries d)" "?P x"
    then have "fetch e ?P (state_entries d') = Inr x" using state_lookup [OF i(2)] s by blast
    then show ?thesis using x(1) by simp
  next
    assume n: "fetch e ?P (state_entries d) = Inl e" "\<And>x. x \<in> set (state_entries d) \<Longrightarrow> \<not> ?P x"
    then have "one_or_none ?P (state_entries d') = Inr None" using s by (auto simp: one_or_none_None)
    then show ?thesis using n(1) by (simp add: fetch_def)
  qed simp
qed

text \<open>The state as its users see it: a map from account, agent and key to a value.\<close>

definition state_view :: "host \<Rightarrow> agent_db \<Rightarrow> nat \<times> string \<times> string \<Rightarrow> json option" where
  "state_view h d = (\<lambda>(acc, name, key). case get_state h d acc name key of Inl _ \<Rightarrow> None | Inr p \<Rightarrow> Some (fst p))"

record state_write =
  w_host :: host
  w_account :: nat
  w_agent :: string
  w_key :: string
  w_value :: json
  w_tier :: string

definition put_state :: "agent_db \<Rightarrow> state_write \<Rightarrow> agent_db option" where
  "put_state d w =
     (case set_state (w_host w) d (w_account w) (w_agent w) (w_key w) (w_value w) (w_tier w) of
        Inl _ \<Rightarrow> None | Inr d' \<Rightarrow> Some d')"

definition write_target :: "state_write \<Rightarrow> nat \<times> string \<times> string" where
  "write_target w = (w_account w, w_agent w, w_key w)"

definition same_keys :: "host \<Rightarrow> host \<Rightarrow> bool" where
  "same_keys h h' \<longleftrightarrow> aead_correct (h_aead h) \<and> h_aead h' = h_aead h \<and> h_kek h' = h_kek h"

lemma get_state_written:
  assumes i: "agent_inv d" "agent_inv d'" and ag: "get_agent d acc name = Inr ag"
    and w: "written d (ag_id ag) key enc sz d'" and v: "decrypt_value (h_aead h) (h_kek h) enc = Inr v"
  shows "state_view h d' = (state_view h d)((acc, name, key) \<mapsto> v)"
proof
  fix t :: "nat \<times> string \<times> string"
  obtain acc2 name2 key2 where t: "t = (acc2, name2, key2)" by (cases t)
  have a: "agents d' = agents d" using w by (simp add: written_def)
  have g: "get_agent d' x y = get_agent d x y" for x y by (simp add: get_agent_def a)
  show "state_view h d' t = ((state_view h d)((acc, name, key) \<mapsto> v)) t"
  proof (cases "t = (acc, name, key)")
    case True
    obtain x where x: "x \<in> set (state_entries d')" "st_agent_id x = ag_id ag" "st_key x = key" "st_value x = enc"
      using w by (auto simp: written_def)
    have "fetch (NotFoundError ''State key'') (\<lambda>s. st_agent_id s = ag_id ag \<and> st_key s = key) (state_entries d') = Inr x"
      using state_lookup [OF i(2)] x by blast
    then show ?thesis using True ag v x(4) by (simp add: state_view_def get_state_def g)
  next
    case False
    have "get_state h d' acc2 name2 key2 = get_state h d acc2 name2 key2"
    proof (cases "get_agent d acc2 name2")
      case (Inr b)
      have "(ag_id b, key2) \<noteq> (ag_id ag, key)"
      proof
        assume e: "(ag_id b, key2) = (ag_id ag, key)"
        then have "b = ag" using agent_id_unique [OF i(1)] get_agent_Inr [OF ag] get_agent_Inr [OF Inr] by simp
        then show False using e False t get_agent_Inr [OF ag] get_agent_Inr [OF Inr] by simp
      qed
      then have "fetch e (\<lambda>s. st_agent_id s = ag_id b \<and> st_key s = key2) (state_entries d')
        = fetch e (\<lambda>s. st_agent_id s = ag_id b \<and> st_key s = key2) (state_entries d)" for e
        using w by (intro fetch_state_cong [OF i]) (auto simp: written_def)
      then show ?thesis by (simp add: get_state_def g Inr)
    qed (simp add: get_state_def g)
    then show ?thesis using False by (auto simp: state_view_def t)
  qed
qed

lemma put_state_view:
  assumes i: "agent_inv d" and a: "same_keys h (w_host w)" "json_wf (w_value w)" and p: "put_state d w = Some d'"
  shows "agent_inv d'" "state_view h d' = (state_view h d)(write_target w \<mapsto> w_value w)"
proof -
  have s: "set_state (w_host w) d (w_account w) (w_agent w) (w_key w) (w_value w) (w_tier w) = Inr d'"
    using p by (auto simp: put_state_def split: sum.splits)
  show i': "agent_inv d'" by (rule inv_set_state [OF i s])
  obtain ag enc where ag: "get_agent d (w_account w) (w_agent w) = Inr ag"
    and enc: "encrypt_value (h_aead (w_host w)) (h_bytes (w_host w)) (h_kek (w_host w)) (w_value w) = Inr enc"
    and wr: "written d (ag_id ag) (w_key w) enc (int (length (json_dumps (w_value w)))) d'"
    using set_state_Inr [OF i s] by blast
  have "decrypt_value (h_aead h) (h_kek h) enc = Inr (w_value w)"
    using decrypt_encrypt_value [OF _ a(2) enc] a(1) by (simp add: same_keys_def)
  from get_state_written [OF i i' ag wr this] show "state_view h d' = (state_view h d)(write_target w \<mapsto> w_value w)"
    by (simp add: write_target_def)
qed

interpretation agent_state: keyed_store put_state "state_view h" write_target w_value agent_inv
  "\<lambda>w. same_keys h (w_host w) \<and> json_wf (w_value w)" for h
  by unfold_locales (use put_state_view in blast)+


section \<open>The limit of the state\<close>

lemma total_state_nonneg: "agent_inv d \<Longrightarrow> 0 \<le> total_state d a"
  by (auto simp: agent_inv_def list_all_iff total_state_def intro!: sum_list_nonneg)

lemma total_state_filter:
  assumes "agent_inv d" and "state_entries d' = filter P (state_entries d)"
  shows "total_state d' a \<le> total_state d a"
proof -
  have "sum_list (map st_size_bytes (filter Q rows)) \<le> sum_list (map st_size_bytes rows)"
    if "list_all (\<lambda>s. 0 \<le> st_size_bytes s) rows" for Q rows
    using that by (induction rows) auto
  from this [of "filter (\<lambda>s. st_agent_id s = a) (state_entries d)" P] show ?thesis
    using assms by (simp add: agent_inv_def total_state_def list_all_iff conj_commute)
qed

definition state_bounded :: "int \<Rightarrow> agent_db \<Rightarrow> bool" where
  "state_bounded b d \<longleftrightarrow> (\<forall>a. total_state d a \<le> b)"

fun within_tier :: "int \<Rightarrow> agent_op \<Rightarrow> bool" where
  "within_tier b (ASetState h acc name key v tier) =
     (case get_tier_config tier of Inl _ \<Rightarrow> True | Inr c \<Rightarrow> max_state_bytes c \<le> b)"
| "within_tier b _ = True"

lemma state_bounded_same: "state_entries d' = state_entries d \<Longrightarrow> state_bounded b d \<Longrightarrow> state_bounded b d'"
  by (simp add: state_bounded_def total_state_def)

lemma state_bounded_filter:
  "agent_inv d \<Longrightarrow> state_entries d' = filter P (state_entries d) \<Longrightarrow> state_bounded b d \<Longrightarrow> state_bounded b d'"
  using total_state_filter order_trans unfolding state_bounded_def by metis

lemma bounded_set_state:
  assumes i: "agent_inv d" and b: "state_bounded b d" and s: "set_state h d acc name key v tier = Inr d'"
    and c: "within_tier b (ASetState h acc name key v tier)"
  shows "state_bounded b d'"
  unfolding state_bounded_def
proof
  fix a
  show "total_state d' a \<le> b"
  proof (rule set_state_Inr [OF i s])
    fix ag cfg assume t: "get_tier_config tier = Inr cfg" "total_state d' (ag_id ag) \<le> max_state_bytes cfg"
      "\<And>b. b \<noteq> ag_id ag \<Longrightarrow> total_state d' b = total_state d b"
    show ?thesis
    proof (cases "a = ag_id ag")
      case True
      then show ?thesis using t(1,2) c by simp
    next
      case False
      then show ?thesis using t(3) b by (simp add: state_bounded_def)
    qed
  qed
qed

lemma bounded_clone:
  assumes i: "agent_inv d" and b: "state_bounded b d" and c: "clone_agent h d acc source name tier = Inr d'"
  shows "state_bounded b d'"
proof -
  obtain cfg src db n ag where "get_agent d acc source = Inr src"
    and n: "ns_create (plat d) acc name None None = Inr (db, n)" and "slug_match False name"
    and "clone_container h (clone_row cfg (next_id db) acc (ns_id n) name src) = Inr ag" and d': "d' = cloned h d db src ag"
    by (rule clone_agent_Inr [OF c])
  define m where "m = next_id db"
  define n1 where "n1 = Suc m"
  have e: "state_entries d' = state_entries d @
      copy_rows (clone_state h m) n1 (filter (\<lambda>s. st_agent_id s = ag_id src) (state_entries d))"
    by (simp add: d' cloned_def Let_def m_def n1_def)
  have m: "new_id d \<le> m" using ns_create_Inr(1) [OF n] by (simp add: m_def)
  let ?old = "filter (\<lambda>s. st_agent_id s = ag_id src) (state_entries d)"
  have fresh: "m \<notin> agent_ids d"
  proof
    assume "m \<in> agent_ids d"
    then obtain a where "a \<in> set (agents d)" "ag_id a = m" by auto
    then show False using inv_agent_facts(1) [OF i, of a] m by simp
  qed
  have own: "st_agent_id x \<in> agent_ids d" if "x \<in> set (state_entries d)" for x
    using i that by (simp add: agent_inv_def rows_ok_def list_all_iff)
  have none: "filter (\<lambda>s. st_agent_id s = m) (state_entries d) = []"
    unfolding filter_empty_conv using own fresh by metis
  have new: "st_agent_id x = m" if x: "x \<in> set (copy_rows (clone_state h m) n1 ?old)" for x
  proof -
    obtain j where "x = clone_state h m (n1 + j) (?old ! j)" using in_copy_rows [OF x] by blast
    then show ?thesis by (simp add: clone_state_def)
  qed
  have sz: "map st_size_bytes (copy_rows (clone_state h m) n1 ?old) = map st_size_bytes ?old"
    unfolding map_copy_rows by (intro nth_equalityI) (simp_all add: clone_state_def)
  have "total_state d' a = (if a = m then total_state d (ag_id src) else total_state d a)" for a
  proof (cases "a = m")
    case True
    have f: "filter (\<lambda>s. st_agent_id s = m) (copy_rows (clone_state h m) n1 ?old) = copy_rows (clone_state h m) n1 ?old"
      using new by (intro filter_True) blast
    show ?thesis using True unfolding total_state_def e filter_append by (simp add: none f sz)
  next
    case False
    then have "filter (\<lambda>s. st_agent_id s = a) (copy_rows (clone_state h m) n1 ?old) = []"
      unfolding filter_empty_conv using new by metis
    then show ?thesis using False unfolding total_state_def e filter_append by simp
  qed
  then show ?thesis using b by (simp add: state_bounded_def)
qed


lemma state_entries_destroy:
  assumes "destroy_agent h d acc name = Inr d'"
  shows "\<exists>P. state_entries d' = filter P (state_entries d)"
proof -
  have a: "\<exists>P. state_entries (delete_agents g x) = filter P (state_entries x)" for g x
    by (auto simp: delete_agents_def Let_def)
  have n: "\<exists>P. state_entries (delete_namespace n x) = filter P (state_entries x)" for n x
    by (auto simp: delete_namespace_def delete_agents_def Let_def)
  obtain ag :: agent_row and ns :: "namespace_row option" where d': "d' = (case ns of None \<Rightarrow> delete_agents [ag_id ag] d
      | Some n \<Rightarrow> delete_namespace (ns_id n) (delete_agents [ag_id ag] d))"
    using assms by (auto simp: destroy_agent_def Let_def)
  obtain P where P: "state_entries (delete_agents [ag_id ag] d) = filter P (state_entries d)" using a by blast
  show ?thesis
  proof (cases ns)
    case None
    then show ?thesis using d' P by auto
  next
    case (Some k)
    obtain Q where "state_entries (delete_namespace (ns_id k) (delete_agents [ag_id ag] d)) = filter Q (filter P (state_entries d))"
      using n P by metis
    then show ?thesis using d' Some by (auto simp: filter_filter)
  qed
qed

lemma state_entries_create_replicas:
  "iter_res k (create_replica h ag) d = Inr d' \<Longrightarrow> state_entries d' = state_entries d"
proof (induction k arbitrary: d)
  case (Suc k)
  then obtain d1 where d1: "create_replica h ag d = Inr d1" "iter_res k (create_replica h ag) d1 = Inr d'" by auto
  have "state_entries d1 = state_entries d" using d1(1) by (auto simp: create_replica_def)
  then show ?case using Suc.IH [OF d1(2)] by simp
qed simp

lemma state_entries_each: "each_replica P f d = Inr d' \<Longrightarrow> state_entries d' = state_entries d"
  by (auto simp: each_replica_def)

lemma state_entries_restatus [simp]: "state_entries (restatus i d) = state_entries d"
  by (simp add: restatus_def)

lemma state_entries_exec:
  assumes "agent_exec r d = Inr d'"
  shows "(\<exists>h acc name key v tier. r = ASetState h acc name key v tier)
    \<or> (\<exists>h acc src name tier. r = AClone h acc src name tier)
    \<or> (\<exists>P. state_entries d' = filter P (state_entries d)) \<or> state_entries d' = state_entries d"
proof (cases r)
  case (ADestroy h acc name)
  then show ?thesis using state_entries_destroy assms by simp
next
  case (ACreate h acc tier name disp)
  then show ?thesis using assms state_entries_create_replicas [of 1 h]
    by (auto simp: create_agent_def Let_def split: if_splits)
next
  case (AScale h acc name n tier)
  then show ?thesis using assms
    by (auto simp: scale_agent_def Let_def delete_replicas_def dest!: state_entries_create_replicas split: if_splits)
next
  case (AStart h acc name rn)
  then show ?thesis using assms by (auto simp: start_agent_def dest!: state_entries_each split: if_splits)
next
  case (AStop h acc name rn)
  then show ?thesis using assms by (auto simp: stop_agent_def dest!: state_entries_each split: if_splits)
next
  case (AForceRestart h acc j)
  then show ?thesis using assms by (auto dest!: force_restart_Inr)
next
  case (AConfigureAi h acc name e m k p c)
  then show ?thesis using assms
    by (auto simp: configure_ai_def Let_def trigger_rolling_restart_if_clustered_def rolling_restart_def
        dest!: state_entries_each split: if_splits)
qed (use assms in \<open>auto simp: add_schedule_def remove_schedule_def add_webhook_def remove_webhook_def delete_state_def
      remove_ai_def generate_chat_token_def revoke_chat_token_def add_channel_def remove_channel_def
      configure_mcp_servers_def remove_mcp_servers_def Let_def split: if_splits\<close>)

lemma bounded_exec:
  assumes i: "agent_inv d" and b: "state_bounded b d" and w: "within_tier b r" and e: "agent_exec r d = Inr d'"
  shows "state_bounded b d'"
proof (rule state_entries_exec [OF e, THEN disjE])
  assume "\<exists>h acc name key v tier. r = ASetState h acc name key v tier"
  then obtain h acc name key v tier where "r = ASetState h acc name key v tier" by blast
  then show ?thesis using bounded_set_state [OF i b] e w by simp
next
  assume "(\<exists>h acc src name tier. r = AClone h acc src name tier)
    \<or> (\<exists>P. state_entries d' = filter P (state_entries d)) \<or> state_entries d' = state_entries d"
  then show ?thesis
  proof (elim disjE exE)
    fix h acc src name tier assume "r = AClone h acc src name tier"
    then show ?thesis using bounded_clone [OF i b] e by simp
  qed (use state_bounded_filter [OF i _ b] state_bounded_same [OF _ b] in blast)+
qed

section \<open>Properties\<close>

text \<open>
  C3: Whatever sequence of requests the platform and the agent service handle, and whatever the container
  daemon answers, the tables stay consistent: names and identifiers are unique, every agent lives in the namespace
  of its own name and account, and every replica, schedule, webhook, state entry, channel and job belongs to an agent that
  exists.
\<close>

theorem agent_requests_keep_integrity:
  assumes "agent_inv d"
  shows "agent_inv (foldl agent_request d rs)"
  by (rule agent_machine.inv_run [OF assms]) (simp add: list_all_iff)

text \<open>
  C37: After any sequence of requests the address of a webhook, an agent name and a path, is unambiguous across
  all accounts: the lookup never fails, and it returns exactly the enabled webhook with that path of the agent of that name.
\<close>

theorem webhook_address_resolves:
  assumes "agent_inv d" and "d' = foldl agent_request d rs"
  shows "\<exists>r. resolve_webhook d' name path = Inr r
     \<and> (\<forall>w. r = Some w \<longleftrightarrow> w \<in> set (webhooks d') \<and> wh_path w = path \<and> wh_enabled w
          \<and> (\<exists>a\<in>set (agents d'). ag_id a = wh_agent_id w \<and> ag_name a = name))"
proof -
  have "agent_inv d'"
    unfolding assms(2) by (rule agent_machine.inv_run [OF assms(1)]) (simp add: list_all_iff)
  then show ?thesis by (rule webhook_unique)
qed

lemma get_agent_restatus:
  assumes i: "agent_inv d" "agent_inv (restatus i d2)" and ag: "get_agent d acc name = Inr ag" and j: "ag_id ag = i"
    and a: "agents d2 = update_row ag_id i (\<lambda>a. a\<lparr>ag_target_replicas := n\<rparr>) (agents d)"
  shows "get_agent (restatus i d2) acc name = Inr (ag\<lparr>ag_target_replicas := n,
      ag_status := derive_agent_status (ag_status ag) (get_replicas d2 i)\<rparr>)"
proof -
  let ?ag1 = "ag\<lparr>ag_target_replicas := n\<rparr>"
  let ?f = "\<lambda>a. a\<lparr>ag_status := derive_agent_status (ag_status a) (get_replicas d2 i)\<rparr>"
  have m: "ag \<in> set (agents d)" "ag_account_id ag = acc" "ag_name ag = name" using get_agent_Inr [OF ag] by simp_all
  have "?ag1 \<in> set (agents d2)"
    unfolding a by (rule update_row_hit [where f = "\<lambda>a. a\<lparr>ag_target_replicas := n\<rparr>" and rid = ag_id and r = ag]) (use m j in simp_all)
  then have "?f ?ag1 \<in> set (update_row ag_id i ?f (agents d2))"
    by (rule update_row_hit [where f = ?f and rid = ag_id]) (simp add: j)
  then have "?f ?ag1 \<in> set (agents (restatus i d2))" by (simp add: restatus_def set_agent_def)
  then show ?thesis using m unfolding get_agent_iff [OF i(2)] by simp
qed

lemma derive_running:
  "derive_agent_status s rs = ''running'' \<longleftrightarrow> rs \<noteq> [] \<and> list_all (\<lambda>r. rp_status r = ''running'') rs"
  by (auto simp: derive_agent_status_def)

text \<open>
  C12: Scaling that succeeds leaves the agent with exactly the requested number of replicas and records the
  target; the replicas of all agents of the account stay within the slots of the tier, the replicas of other
  agents are untouched, and the agent is reported as running exactly when it has replicas and all of them run.
\<close>

theorem scale_agent_reaches_target:
  assumes "agent_inv d" and "scale_agent h d acc name n tier = Inr d'" and "0 \<le> n"
  shows "\<exists>ag ag' c. get_agent d acc name = Inr ag \<and> get_agent d' acc name = Inr ag' \<and> ag_id ag' = ag_id ag
     \<and> get_tier_config tier = Inr c \<and> int (length (get_replicas d' (ag_id ag))) = n \<and> ag_target_replicas ag' = n
     \<and> get_total_replica_count d' acc \<le> max_agents c
     \<and> filter (\<lambda>r. rp_agent_id r \<noteq> ag_id ag) (replicas d') = filter (\<lambda>r. rp_agent_id r \<noteq> ag_id ag) (replicas d)
     \<and> (ag_status ag' = ''running'' \<longleftrightarrow>
          0 < n \<and> list_all (\<lambda>r. rp_status r = ''running'') (get_replicas d' (ag_id ag)))"
proof -
  obtain ag c d2 where ag: "get_agent d acc name = Inr ag" and c: "get_tier_config tier = Inr c"
    and d': "d' = restatus (ag_id ag) d2"
    and lim: "get_total_replica_count d acc - int (length (get_replicas d (ag_id ag))) + n \<le> max_agents c"
    and n: "int (length (get_replicas d2 (ag_id ag))) = n"
    and others: "filter (\<lambda>r. rp_agent_id r \<noteq> ag_id ag) (replicas d2) = filter (\<lambda>r. rp_agent_id r \<noteq> ag_id ag) (replicas d)"
    and a2: "agents d2 = update_row ag_id (ag_id ag) (\<lambda>a. a\<lparr>ag_target_replicas := n\<rparr>) (agents d)"
    by (rule scale_agent_Inr [OF assms])
  have i': "agent_inv d'" by (rule inv_scale_agent [OF assms(1,2)])
  define ag' where "ag' = ag\<lparr>ag_target_replicas := n,
      ag_status := derive_agent_status (ag_status ag) (get_replicas d2 (ag_id ag))\<rparr>"
  have ag': "get_agent d' acc name = Inr ag'"
    unfolding d' ag'_def by (rule get_agent_restatus [OF assms(1) i' [unfolded d'] ag refl a2])
  have r: "replicas d' = replicas d2" "get_replicas d' (ag_id ag) = get_replicas d2 (ag_id ag)"
    unfolding d' by (simp, rule get_replicas_cong, simp)
  have keys: "map (\<lambda>a. (ag_id a, ag_account_id a)) (agents d') = map (\<lambda>a. (ag_id a, ag_account_id a)) (agents d)"
    unfolding d' restatus_def set_agent_def a2 by (simp add: map_update_row)
  have own: "owned_by d' x y = owned_by d x y" for x y
  proof -
    have o: "owned_by e x y \<longleftrightarrow> (rp_agent_id y, x) \<in> set (map (\<lambda>a. (ag_id a, ag_account_id a)) (agents e))" for e
      unfolding owned_by_def list_ex_iff set_map image_iff prod.inject by (auto simp: eq_commute)
    show ?thesis unfolding o keys ..
  qed
  have same: "ag_id ag' = ag_id ag" by (simp add: ag'_def)
  have "filter (\<lambda>r. owned_by d' acc r \<and> rp_agent_id r \<noteq> ag_id ag) (replicas d')
      = filter (owned_by d acc) (filter (\<lambda>r. rp_agent_id r \<noteq> ag_id ag) (replicas d2))"
    unfolding r(1) by (simp add: own conj_commute)
  also have "\<dots> = filter (\<lambda>r. owned_by d acc r \<and> rp_agent_id r \<noteq> ag_id ag) (replicas d)"
    unfolding others by (simp add: conj_commute)
  finally have oth: "filter (\<lambda>r. owned_by d' acc r \<and> rp_agent_id r \<noteq> ag_id ag) (replicas d')
      = filter (\<lambda>r. owned_by d acc r \<and> rp_agent_id r \<noteq> ag_id ag) (replicas d)" .
  have t: "get_total_replica_count d acc = int (length (get_replicas d (ag_id ag)))
      + int (length (filter (\<lambda>r. owned_by d acc r \<and> rp_agent_id r \<noteq> ag_id ag) (replicas d)))"
    using sum_replica_counts [OF assms(1), of ag] get_agent_Inr [OF ag] by simp
  have t': "get_total_replica_count d' acc = n
      + int (length (filter (\<lambda>r. owned_by d acc r \<and> rp_agent_id r \<noteq> ag_id ag) (replicas d)))"
    using sum_replica_counts [OF i', of ag'] get_agent_Inr [OF ag'] n by (simp add: same r(2) oth)
  have "ag_status ag' = ''running'' \<longleftrightarrow> 0 < n \<and> list_all (\<lambda>r. rp_status r = ''running'') (get_replicas d' (ag_id ag))"
    using n unfolding r(2) by (auto simp: ag'_def derive_running)
  moreover have "get_total_replica_count d' acc \<le> max_agents c" using lim t t' by simp
  ultimately show ?thesis using ag ag' same c n others
    by (intro exI [of _ ag] exI [of _ ag'] exI [of _ c]) (simp add: r ag'_def)
qed

text \<open>
  C6: The encrypted state table implements a map: after any sequence of writes of JSON values, by any accounts to any agents,
  reading gives what the map has that was updated with the accepted writes in their order, whatever random bytes the
  encryption drew. The cipher is assumed to invert itself, and key and cipher to stay the same.
\<close>

theorem agent_state_refines_map:
  assumes "agent_inv d" and "list_all (\<lambda>w. same_keys h (w_host w) \<and> json_wf (w_value w)) ws"
  shows "state_view h (fst (run_writes put_state d ws))
    = foldl (\<lambda>m w. m(write_target w \<mapsto> w_value w)) (state_view h d) (snd (run_writes put_state d ws))"
  by (rule agent_state.run_writes_view [OF assms])

text \<open>
  C36: The state of an agent stays within the limit of the tiers that write it: no sequence of requests, clones and
  overwritten values included, takes the sum of the stored sizes of an agent above it.
\<close>

theorem agent_state_within_limit:
  assumes "agent_inv d" and "state_bounded b d" and "list_all (within_tier b) rs"
  shows "total_state (foldl agent_request d rs) a \<le> b"
proof -
  have "agent_inv (foldl agent_request d rs) \<and> state_bounded b (foldl agent_request d rs)"
    using assms
  proof (induction rs arbitrary: d)
    case (Cons r rs)
    have "agent_inv (agent_request d r) \<and> state_bounded b (agent_request d r)"
      using Cons.prems agent_inv_exec [of d r] bounded_exec [of d b r]
      by (auto simp: agent_request_def split: sum.splits)
    then show ?case using Cons by simp
  qed simp
  then show ?thesis by (simp add: state_bounded_def)
qed

lemma dedicated_config:
  "\<exists>c. get_tier_config ''dedicated-agent'' = Inr c \<and> max_agents c = - 1 \<and> max_state_bytes c = - 1"
  by (simp add: get_tier_config_def AGENT_TIER_CONFIG_def)

lemma dedicated_no_slots:
  assumes "agent_inv d" and "get_agent d acc name = Inr ag" and "0 \<le> n"
  shows "scale_agent h d acc name n ''dedicated-agent'' = Inl (ConflictError ''slots'')"
proof -
  obtain c where c: "get_tier_config ''dedicated-agent'' = Inr c" "max_agents c = - 1"
    using dedicated_config by blast
  have "ag_account_id ag = acc" "ag \<in> set (agents d)" using get_agent_Inr [OF assms(2)] by simp_all
  then show ?thesis
    using sum_replica_counts [OF assms(1), of ag] assms(3) by (simp add: scale_agent_def assms(2) c Let_def)
qed

lemma dedicated_no_state:
  assumes "agent_inv d" and "get_agent d acc name = Inr ag"
  shows "set_state h d acc name key v ''dedicated-agent'' = Inl (ForbiddenError ''state size'')"
proof -
  obtain c where c: "get_tier_config ''dedicated-agent'' = Inr c" "max_state_bytes c = - 1"
    using dedicated_config by blast
  have d: "distinct (map (\<lambda>s. (st_agent_id s, st_key s)) (state_entries d))"
    using assms(1) by (simp add: agent_inv_def rows_ok_def)
  obtain e where e: "state_entry d (ag_id ag) key = Inr e"
    unfolding state_entry_def using one_or_none_unique [OF d, of _ "(ag_id ag, key)"] by force
  have "(case e of None \<Rightarrow> 0 | Some x \<Rightarrow> st_size_bytes x) \<le> total_state d (ag_id ag)"
  proof (cases e)
    case None
    then show ?thesis using total_state_nonneg [OF assms(1)] by simp
  next
    case (Some x)
    then have x: "x \<in> set (state_entries d)" "st_agent_id x = ag_id ag" using e state_entry_cases [OF assms(1)] by simp_all
    have "st_size_bytes x \<le> sum_list (map st_size_bytes (filter (\<lambda>s. st_agent_id s = ag_id ag) (state_entries d)))"
      by (rule member_le_sum_list) (use x assms(1) in \<open>auto simp: agent_inv_def list_all_iff\<close>)
    then show ?thesis by (simp add: Some total_state_def)
  qed
  then show ?thesis by (simp add: set_state_def assms(2) c e Let_def)
qed

text \<open>
  C38: On the dedicated tier, whose limits are written as minus one, nothing can be created. Making an
  agent, the first one of an account included, and cloning one are refused for want of slots, whatever
  the tables hold; so is scaling an agent to any number of replicas from zero up, and every write of
  state is refused for its size.
\<close>

theorem dedicated_tier_refused:
  shows "create_agent h d acc ''dedicated-agent'' new disp = Inl (ConflictError ''slots'')
    \<and> clone_agent h d acc name new ''dedicated-agent'' = Inl (ConflictError ''slots'')
    \<and> (agent_inv d \<longrightarrow> get_agent d acc name = Inr ag \<longrightarrow>
         (0 \<le> n \<longrightarrow> scale_agent h d acc name n ''dedicated-agent'' = Inl (ConflictError ''slots''))
         \<and> set_state h d acc name key v ''dedicated-agent'' = Inl (ForbiddenError ''state size''))"
proof -
  obtain c where c: "get_tier_config ''dedicated-agent'' = Inr c" "max_agents c = - 1"
    using dedicated_config by blast
  have "0 \<le> get_agent_count d acc" by (simp add: get_agent_count_def)
  then show ?thesis using dedicated_no_slots dedicated_no_state
    by (simp add: create_agent_def clone_agent_def c)
qed

section \<open>A concrete cluster\<close>

text \<open>A cipher that satisfies the assumption, and a host whose daemon starts every container.\<close>

definition plain_aead :: aead where
  "plain_aead = \<lparr>ae_encrypt = (\<lambda>k n p. rev p), ae_decrypt = (\<lambda>k n c. Some (rev c))\<rparr>"

definition demo_host :: host where
  "demo_host = \<lparr>h_now = 100, h_docker = (\<lambda>_. DOk ''c''), h_draws = (\<lambda>i. \<lparr>dr_choices = (\<lambda>k. (k + i, k)), dr_shuffle = (\<lambda>_. 0)\<rparr>),
     h_aead = plain_aead, h_kek = replicate 32 CHR ''k'', h_bytes = (\<lambda>_ _. CHR ''r''), h_key_check = (\<lambda>_ _. Some 200),
     h_sha256 = id, h_croniter = (\<lambda>_ _. Some 160)\<rparr>"

definition demo_agents :: agent_db where
  "demo_agents = foldl agent_request (empty_agent_db sample_db)
     [ACreate demo_host 8 ''pro-agent'' ''bot'' None,
      AAddWebhook demo_host 8 ''bot'' ''in'' ''s.f'' None ''direct'']"

lemma plain_aead_correct: "aead_correct plain_aead"
  by (simp add: aead_correct_def plain_aead_def)

lemma sample_agent_inv: "agent_inv (empty_agent_db sample_db)"
  by (simp add: agent_inv_def empty_agent_db_def sample_ws_inv agents_ok_def rows_ok_def)

lemma demo_agent_inv: "agent_inv demo_agents"
  unfolding demo_agents_def
  by (rule agent_machine.inv_run [OF sample_agent_inv]) (simp add: list_all_iff)

lemma demo_evaluates: "map ag_name (agents demo_agents) = [''bot''] \<and> length (webhooks demo_agents) = 1
   \<and> map rp_status (replicas demo_agents) = [''running'']"
  by code_simp


theorem agent_requests_keep_integrity_witness:
  "agent_inv (foldl agent_request (empty_agent_db sample_db) [ACreate demo_host 8 ''pro-agent'' ''bot'' None,
     AScale demo_host 8 ''bot'' 3 ''pro-agent'', ADestroy demo_host 8 ''bot''])"
  by (rule agent_requests_keep_integrity [OF sample_agent_inv])

definition demo_used :: agent_db where
  "demo_used = foldl agent_request demo_agents [ASetState demo_host 8 ''bot'' ''k'' JNull ''pro-agent'']"

theorem webhook_address_resolves_witness:
  "resolve_webhook demo_used ''bot'' ''in'' = Inr (Some (hd (webhooks demo_used)))
   \<and> wh_handler_function_name (hd (webhooks demo_used)) = ''s.f''"
proof -
  let ?w = "hd (webhooks demo_used)"
  obtain r where r: "resolve_webhook demo_used ''bot'' ''in'' = Inr r"
    "\<And>w. r = Some w \<longleftrightarrow> w \<in> set (webhooks demo_used) \<and> wh_path w = ''in'' \<and> wh_enabled w
          \<and> (\<exists>a\<in>set (agents demo_used). ag_id a = wh_agent_id w \<and> ag_name a = ''bot'')"
    using webhook_address_resolves [OF demo_agent_inv demo_used_def] by blast
  have "length (webhooks demo_used) = 1 \<and> wh_path ?w = ''in'' \<and> wh_enabled ?w \<and> wh_handler_function_name ?w = ''s.f''
     \<and> list_ex (\<lambda>a. ag_id a = wh_agent_id ?w \<and> ag_name a = ''bot'') (agents demo_used)"
    by code_simp
  moreover have "?w \<in> set (webhooks demo_used)" by (rule hd_in_set) (use calculation in force)
  ultimately have "r = Some ?w" "wh_handler_function_name ?w = ''s.f''" unfolding r(2) list_ex_iff by blast+
  then show ?thesis using r(1) by blast
qed

definition demo_scaled :: agent_db where
  "demo_scaled = projr (scale_agent demo_host demo_agents 8 ''bot'' 3 ''pro-agent'')"

theorem scale_agent_reaches_target_witness:
  "get_total_replica_count demo_scaled 8 \<le> 5 \<and> map ag_status (agents demo_scaled) = [''running'']"
proof -
  have s: "scale_agent demo_host demo_agents 8 ''bot'' 3 ''pro-agent'' = Inr demo_scaled" by code_simp
  obtain c where c: "get_tier_config ''pro-agent'' = Inr c" "get_total_replica_count demo_scaled 8 \<le> max_agents c"
    using scale_agent_reaches_target [OF demo_agent_inv s] by auto
  have "max_agents c = 5" using c(1) by (auto simp: get_tier_config_def AGENT_TIER_CONFIG_def)
  moreover have "map ag_status (agents demo_scaled) = [''running'']" by code_simp
  ultimately show ?thesis using c(2) by simp
qed

definition demo_writes :: "state_write list" where
  "demo_writes =
     [\<lparr>w_host = demo_host, w_account = 8, w_agent = ''bot'', w_key = ''k'', w_value = JInt 1, w_tier = ''pro-agent''\<rparr>,
      \<lparr>w_host = demo_host, w_account = 8, w_agent = ''nobody'', w_key = ''k'', w_value = JInt 2, w_tier = ''pro-agent''\<rparr>,
      \<lparr>w_host = demo_host, w_account = 8, w_agent = ''bot'', w_key = ''k'', w_value = JStr ''x'', w_tier = ''pro-agent''\<rparr>]"

theorem agent_state_refines_map_witness:
  "state_view demo_host (fst (run_writes put_state demo_agents demo_writes)) (8, ''bot'', ''k'') = Some (JStr ''x'')
   \<and> length (snd (run_writes put_state demo_agents demo_writes)) = 2"
proof -
  let ?done = "snd (run_writes put_state demo_agents demo_writes)"
  have k: "same_keys demo_host demo_host" by (simp add: same_keys_def demo_host_def plain_aead_correct)
  then have a: "list_all (\<lambda>w. same_keys demo_host (w_host w) \<and> json_wf (w_value w)) demo_writes"
    by (simp add: demo_writes_def)
  have e: "map (\<lambda>w. (write_target w, w_value w)) ?done
    = [((8, ''bot'', ''k''), JInt 1), ((8, ''bot'', ''k''), JStr ''x'')]"
    by code_simp
  have "foldl (\<lambda>m w. m(write_target w \<mapsto> w_value w)) m0 ws = foldl (\<lambda>m p. m(fst p \<mapsto> snd p)) m0 (map (\<lambda>w. (write_target w, w_value w)) ws)"
    for m0 and ws :: "state_write list" by (induction ws arbitrary: m0) auto
  moreover have "length ?done = 2" using arg_cong [OF e, of length] by simp
  ultimately show ?thesis using agent_state_refines_map [OF demo_agent_inv a] by (simp add: e)
qed

theorem agent_state_within_limit_witness:
  "total_state (foldl agent_request demo_agents [ASetState demo_host 8 ''bot'' ''k'' (JStr ''abc'') ''pro-agent'',
     AClone demo_host 8 ''bot'' ''twin'' ''pro-agent'']) 24 \<le> 104857600"
proof (rule agent_state_within_limit [OF demo_agent_inv])
  have "length (state_entries demo_agents) = 0" by code_simp
  then show "state_bounded 104857600 demo_agents" by (simp add: state_bounded_def total_state_def)
qed (simp add: get_tier_config_def AGENT_TIER_CONFIG_def)

theorem dedicated_tier_refused_witness:
  "create_agent demo_host (empty_agent_db sample_db) 8 ''dedicated-agent'' ''first'' None = Inl (ConflictError ''slots'')
   \<and> scale_agent demo_host demo_agents 8 ''bot'' 1 ''dedicated-agent'' = Inl (ConflictError ''slots'')
   \<and> set_state demo_host demo_agents 8 ''bot'' ''k'' JNull ''dedicated-agent'' = Inl (ForbiddenError ''state size'')"
proof -
  have "\<not> isl (get_agent demo_agents 8 ''bot'')" by code_simp
  then obtain ag where "get_agent demo_agents 8 ''bot'' = Inr ag" by (rule not_islE)
  then show ?thesis
    using dedicated_tier_refused [of demo_host demo_agents 8 _ None "''bot''" ag 1 "''k''" JNull] demo_agent_inv
      dedicated_tier_refused [of demo_host "empty_agent_db sample_db" 8 "''first''" None] by simp
qed

section \<open>Consequences of the way clones and intervals are handled\<close>

text \<open>
  A clone gets a container of its own and no replica, so starting or stopping it afterwards finds nothing to act on and
  reports it as stopped while its container runs.
\<close>

lemma clone_has_no_replicas:
  assumes i: "agent_inv d" and c: "clone_agent h d acc source name tier = Inr d'"
    and s: "start_agent h' d' acc name [] = Inr d2"
  shows "\<exists>ag. get_agent d2 acc name = Inr ag \<and> ag_status ag = ''stopped'' \<and> get_replicas d2 (ag_id ag) = []"
proof -
  obtain cfg src db n ag where n: "ns_create (plat d) acc name None None = Inr (db, n)"
    and k: "clone_container h (clone_row cfg (next_id db) acc (ns_id n) name src) = Inr ag" and d': "d' = cloned h d db src ag"
    and "get_agent d acc source = Inr src" and "slug_match False name"
    by (rule clone_agent_Inr [OF c])
  have i': "agent_inv d'" by (rule inv_clone_agent [OF i c])
  have i2: "agent_inv d2" by (rule inv_start_agent [OF i' s])
  have a: "ag_id ag = next_id db" "ag_name ag = name" "ag_account_id ag = acc" "ag_status ag \<in> {''running'', ''error''}"
    using clone_container_Inr [OF k] by (auto simp: clone_row_def new_agent_row_def)
  have r: "replicas d' = replicas d" "agents d' = agents d @ [ag]" by (simp_all add: d' cloned_def Let_def)
  have "new_id d < next_id db" using ns_create_Inr(1) [OF n] by simp
  then have none: "rp_agent_id x \<noteq> ag_id ag" if "x \<in> set (replicas d)" for x
  proof -
    have "rp_agent_id x \<in> agent_ids d" using i that by (simp add: agent_inv_def rows_ok_def list_all_iff)
    then obtain b where "b \<in> set (agents d)" "rp_agent_id x = ag_id b" by auto
    then show ?thesis using inv_agent_facts(1) [OF i, of b] \<open>new_id d < next_id db\<close> a(1) by simp
  qed
  have g: "get_agent d' acc name = Inr ag" unfolding get_agent_iff [OF i'] using a r by simp
  let ?P = "\<lambda>x. rp_agent_id x = ag_id ag \<and> startable x"
  obtain d1 where d1: "each_replica ?P (start_replica_container h' ag) d' = Inr d1" "d2 = restatus (ag_id ag) d1"
    using s by (auto simp: start_agent_def g)
  have "map_res (\<lambda>x. if ?P x then start_replica_container h' ag x else Inr x) rs = Inr rs" if "set rs \<subseteq> set (replicas d)" for rs
    using that none by (induction rs) auto
  then have "d1 = d'\<lparr>replicas := replicas d'\<rparr>" using d1(1) by (simp add: each_replica_def r(1))
  then have e: "d1 = d'" by simp
  have rep: "get_replicas d' (ag_id ag) = []" using none by (simp add: get_replicas_def r(1) filter_empty_conv)
  let ?f = "\<lambda>a. a\<lparr>ag_status := derive_agent_status (ag_status a) (get_replicas d' (ag_id ag))\<rparr>"
  have "?f ag \<in> set (agents d2)"
    unfolding d1(2) e restatus_def set_agent_def using update_row_hit [where f = ?f and rid = ag_id and r = ag and i = "ag_id ag"] r(2) by simp
  then have "get_agent d2 acc name = Inr (?f ag)" unfolding get_agent_iff [OF i2] using a by simp
  moreover have "replicas d2 = replicas d'" by (simp add: d1(2) e)
  then have "get_replicas d2 (ag_id ag) = []" using rep by (simp add: get_replicas_def)
  ultimately show ?thesis using a(4) by (intro exI [of _ "?f ag"]) (auto simp: rep derive_agent_status_def)
qed

text \<open>
  The guard on the interval of a schedule never refuses an expression whose step is positive: it takes no interval to be
  shorter than a minute, and no tier asks for more than half a minute. A seconds field, which croniter reads as the
  sixth, is not looked at.
\<close>

lemma interval_guard_vacuous:
  assumes "add_schedule h d acc name fn cron tz fp tier om m = Inl (ForbiddenError ''interval'')"
  shows "\<exists>step part. part \<in> {0, 1} \<and> py_int (drop 2 (split_ws cron ! part)) = Some step \<and> step < 1"
proof -
  obtain c where c: "get_tier_config tier = Inr c" "cron_min_interval_seconds cron < min_schedule_seconds c"
    using assms by (auto simp: add_schedule_def compute_next_run_def get_agent_def fetch_def get_tier_config_def Let_def res_bind_Inl
        split: if_splits option.splits dest: one_or_none_error)
  have "min_schedule_seconds c \<le> 30"
    using c(1) by (auto simp: get_tier_config_def AGENT_TIER_CONFIG_def split: if_splits option.splits)
  then have "cron_min_interval_seconds cron < 30" using c(2) by simp
  then show ?thesis unfolding cron_min_interval_seconds_def Let_def
    by (fastforce split: if_splits option.splits)
qed

end
