(* ===== verification/Scheduler.thy ===== *)
theory Scheduler
  imports AgentCluster
begin

text \<open>
  The scheduler (\<open>tasks/scheduler.py\<close>): \<open>run_scheduler_loop\<close> polls for due schedules and heartbeats, turns schedules into jobs, claims
  pending jobs, executes them five at a time, reaps jobs that stayed pending and replaces replicas whose heartbeat stopped.

  Every block \<open>async with get_db_context()\<close> is a transaction, and one step of the model: what it did is undone when it raises, what
  earlier blocks did is not. A coroutine that spans several blocks is a program (\<open>prog\<close>), a tree of transactions, each with what to do
  next and what to do when the database fails it. The scheduler is a machine over the tables, the place of its loop and the
  programs in flight; between any two of its steps requests come in, other programs go on, transactions fail, or the process is
  restarted and loses what it had in memory. Rows that a program read earlier may be gone; the foreign keys are checked.

  What an execution reports is an argument (\<open>sched_world\<close>): the sandbox backends, and the orchestrations of \<open>Orchestrator\<close> and
  \<open>ProcedureRun\<close>, of which the scheduler only sees whether they raised and what they report. Rows of a query without an order come in
  the order of their creation. There is one scheduler process.
\<close>

section \<open>The world of the scheduler\<close>

datatype backend_reply = EOk json | EFailed "string option" | ERaised string

record sched_world =
  sw_host :: host
  sw_text :: "exc \<Rightarrow> string"
  sw_backends :: "string list"
  sw_execute :: "nat \<Rightarrow> backend_reply"
  sw_orchestrate :: "nat \<Rightarrow> (bool \<times> string option) res"
  sw_procedure :: "nat \<Rightarrow> unit res"
  sw_heartbeat :: "nat \<Rightarrow> (bool \<times> string option) res"

abbreviation sw_now :: "sched_world \<Rightarrow> int" where
  "sw_now w \<equiv> h_now (sw_host w)"

definition MAX_CONCURRENT_EXECUTIONS :: nat where
  "MAX_CONCURRENT_EXECUTIONS = 5"

definition STALE_JOB_TIMEOUT_SECONDS :: int where
  "STALE_JOB_TIMEOUT_SECONDS = 300"

definition REPLICA_HEARTBEAT_TIMEOUT_SECONDS :: int where
  "REPLICA_HEARTBEAT_TIMEOUT_SECONDS = 60"

text \<open>An empty string counts as missing.\<close>

definition missing :: "string option \<Rightarrow> bool" where
  "missing x = (x = None \<or> x = Some [])"

definition set_run :: "nat \<Rightarrow> (run_row \<Rightarrow> run_row) \<Rightarrow> agent_db \<Rightarrow> agent_db" where
  "set_run i f d = d\<lparr>agent_runs := update_row rn_id i f (agent_runs d)\<rparr>"

definition set_schedule :: "nat \<Rightarrow> (schedule_row \<Rightarrow> schedule_row) \<Rightarrow> agent_db \<Rightarrow> agent_db" where
  "set_schedule i f d = d\<lparr>schedules := update_row sc_id i f (schedules d)\<rparr>"

definition set_job :: "nat \<Rightarrow> (job_row \<Rightarrow> job_row) \<Rightarrow> agent_db \<Rightarrow> agent_db" where
  "set_job i f d = d\<lparr>jobs := update_row jb_id i f (jobs d)\<rparr>"

definition set_fire :: "nat \<Rightarrow> string \<Rightarrow> string option \<Rightarrow> agent_db \<Rightarrow> agent_db" where
  "set_fire i status err d = d\<lparr>fires := update_row fr_id i (\<lambda>f. f\<lparr>fr_status := status, fr_error_detail := err\<rparr>) (fires d)\<rparr>"

section \<open>Failure policy\<close>

definition continue_policy :: json where
  "continue_policy = JObj [(''strategy'', JStr ''continue'')]"

definition failure_policy :: "json \<Rightarrow> jdict res" where
  "failure_policy p =
     (let q = (if truthy p then p else continue_policy);
          r = (case q of JStr s \<Rightarrow> (case json_loads s of None \<Rightarrow> continue_policy | Some v \<Rightarrow> v) | _ \<Rightarrow> q)
      in case r of JObj kvs \<Rightarrow> Inr kvs | _ \<Rightarrow> Inl (TypeError ''failure_policy''))"

definition auto_disables :: "jdict \<Rightarrow> int \<Rightarrow> bool res" where
  "auto_disables policy new_failures =
     (if map_of policy ''strategy'' = Some (JStr ''auto_disable'')
      then (case map_of policy ''max_failures'' of
              None \<Rightarrow> Inr (3 \<le> new_failures)
            | Some (JInt m) \<Rightarrow> Inr (m \<le> new_failures)
            | Some (JBool b) \<Rightarrow> Inr ((if b then 1 else 0) \<le> new_failures)
            | Some _ \<Rightarrow> Inl (TypeError ''max_failures''))
      else Inr False)"

definition next_run :: "sched_world \<Rightarrow> schedule_row \<Rightarrow> int res" where
  "next_run w s = compute_next_run (sw_host w) (sc_cron_expression s) (sc_timezone s)"

definition record_failure :: "sched_world \<Rightarrow> nat \<Rightarrow> schedule_row \<Rightarrow> string \<Rightarrow> agent_db \<Rightarrow> agent_db res" where
  "record_failure w run_id s err d =
     (let d1 = set_run run_id (\<lambda>r. r\<lparr>rn_status := ''failed'', rn_error := Some (take 1000 err)\<rparr>) d;
          n = sc_consecutive_failures s + 1
      in res_bind (next_run w s)
         (\<lambda>t. res_bind (failure_policy (sc_failure_policy s))
         (\<lambda>policy. res_bind (auto_disables policy n)
         (\<lambda>off. Inr (set_schedule (sc_id s)
            (\<lambda>x. x\<lparr>sc_consecutive_failures := n, sc_last_run_at := Some (sw_now w), sc_next_run_at := Some t,
                   sc_enabled := (if off then False else sc_enabled x)\<rparr>) d1)))))"

section \<open>Programs\<close>

text \<open>
  A transaction yields the tables it commits and the rest of the program; the second argument is the rest when the database fails
  the transaction, after which the tables are as before.
\<close>

datatype prog =
    Stop
  | Tx "sched_world \<Rightarrow> agent_db \<Rightarrow> agent_db \<times> prog" prog

text \<open>A program that runs on its own, to its end.\<close>

primrec run_prog :: "prog \<Rightarrow> sched_world \<Rightarrow> agent_db \<Rightarrow> agent_db" where
  "run_prog Stop = (\<lambda>w d. d)"
| "run_prog (Tx f h) = (\<lambda>w d. let (d', go) = map_prod id run_prog (f w d) in go w d')"

text \<open>What follows an operation, given its result.\<close>

type_synonym cont = "unit res \<Rightarrow> prog"

section \<open>Execution of a schedule\<close>

definition get_schedule_account :: "agent_row \<Rightarrow> agent_db \<Rightarrow> account_row option res" where
  "get_schedule_account ag d = one_or_none (\<lambda>a. a_id a = ag_account_id ag) (accounts (plat d))"

definition output_text :: "json \<Rightarrow> string option" where
  "output_text out = (if truthy out then Some (take 2000 (py_str out)) else None)"

text \<open>The body of the transaction, once the namespace is known.\<close>

definition execute_in_namespace ::
  "sched_world \<Rightarrow> schedule_row \<Rightarrow> nat \<Rightarrow> nat \<Rightarrow> string \<Rightarrow> string \<Rightarrow> agent_db \<Rightarrow> (agent_db \<times> string option) res" where
  "execute_in_namespace w s run_id ns service fn d =
     (let fails = (\<lambda>err. res_bind (record_failure w run_id s err d) (\<lambda>d1. Inr (d1, None)))
      in case get_for_execution (plat d) ns service fn of
           Inl e \<Rightarrow> fails (sw_text w e)
         | Inr (f, v) \<Rightarrow>
             if fv_backend v \<notin> set (sw_backends w) then fails (''Backend not available: '' @ fv_backend v)
             else (case sw_execute w run_id of
                     ERaised e \<Rightarrow> fails e
                   | EFailed e \<Rightarrow> fails (if missing e then ''Unknown error'' else the e)
                   | EOk out \<Rightarrow> res_bind (next_run w s)
                       (\<lambda>t. Inr (set_schedule (sc_id s)
                          (\<lambda>x. x\<lparr>sc_consecutive_failures := 0, sc_last_run_at := Some (sw_now w), sc_next_run_at := Some t\<rparr>)
                          (set_run run_id (\<lambda>r. r\<lparr>rn_status := ''completed''\<rparr>) d), output_text out))))"

definition execute_function_direct ::
  "sched_world \<Rightarrow> schedule_row \<Rightarrow> agent_row \<Rightarrow> agent_db \<Rightarrow> (agent_db \<times> string option) res" where
  "execute_function_direct w s ag d =
     (case find_split ''.'' (sc_function_name s) of
        None \<Rightarrow> Inr (d, None)
      | Some (service, fn) \<Rightarrow>
          if ag_id ag \<notin> agent_ids d then Inl IntegrityError
          else let run_id = new_id d;
              d1 = (bump d)\<lparr>agent_runs := agent_runs d @ [\<lparr>rn_id = run_id, rn_agent_id = ag_id ag,
                     rn_function_name = Some (sc_function_name s), rn_status = ''running'', rn_error = None,
                     rn_created_at = sw_now w\<rparr>]\<rparr>
          in res_bind (get_schedule_account ag d1)
             (\<lambda>acc. case acc of None \<Rightarrow> Inr (d1, None) | Some a \<Rightarrow>
                res_bind (one_or_none (\<lambda>n. ns_name n = ag_name ag \<and> ns_account_id n = a_id a) (namespaces (plat d1)))
                (\<lambda>ns. case ns of None \<Rightarrow> Inr (d1, None)
                      | Some n \<Rightarrow> execute_in_namespace w s run_id (ns_id n) service fn d1)))"

text \<open>\<open>_update_fire\<close>, with what follows it and what follows its failure.\<close>

definition update_fire :: "nat \<Rightarrow> string \<Rightarrow> (sched_world \<Rightarrow> string option) \<Rightarrow> cont \<Rightarrow> prog \<Rightarrow> prog" where
  "update_fire fire status err k failed = Tx (\<lambda>w d. (set_fire fire status (err w) d, k (Inr ()))) failed"

definition execute_procedure :: "schedule_row \<Rightarrow> agent_row \<Rightarrow> nat \<Rightarrow> cont \<Rightarrow> prog" where
  "execute_procedure s ag fire k =
     (let down = k (Inl DBAPIError);
          ends = (\<lambda>err. update_fire fire ''error'' (\<lambda>w. Some err) k down)
      in if missing (sc_procedure_name s) then ends ''No procedure name configured''
         else if missing (ag_ai_engine ag) then ends ''No AI engine configured''
         else Tx (\<lambda>w d.
             (d, case get_schedule_account ag d of
                   Inl e \<Rightarrow> k (Inl e)
                 | Inr None \<Rightarrow> ends ''Account not found''
                 | Inr (Some _) \<Rightarrow>
                     Tx (\<lambda>w d. case sw_procedure w fire of
                                 Inl e \<Rightarrow> (d, k (Inl e))
                               | Inr _ \<Rightarrow> (set_fire fire ''completed'' None d, k (Inr ()))) down)) down)"

text \<open>The direct mode, under a \<open>try\<close> that turns every exception into a failed fire.\<close>

definition execute_direct :: "schedule_row \<Rightarrow> agent_row \<Rightarrow> nat \<Rightarrow> cont \<Rightarrow> prog" where
  "execute_direct s ag fire k =
     (let fails = (\<lambda>e. update_fire fire ''error'' (\<lambda>w. Some (take 500 (sw_text w e))) k (k (Inl DBAPIError)))
      in Tx (\<lambda>w d. case execute_function_direct w s ag d of
                     Inl e \<Rightarrow> (d, fails e)
                   | Inr (d1, _) \<Rightarrow> (d1, update_fire fire ''completed'' (\<lambda>w. None) k (fails DBAPIError)))
           (fails DBAPIError))"

text \<open>The modes that end in an orchestration by the model.\<close>

definition orchestrate :: "schedule_row \<Rightarrow> nat \<Rightarrow> cont \<Rightarrow> prog" where
  "orchestrate s fire k =
     (let down = k (Inl DBAPIError)
      in Tx (\<lambda>w d. case sw_orchestrate w fire of
               Inl e \<Rightarrow> (d, k (Inl e))
             | Inr (success, err) \<Rightarrow>
                 (case next_run w s of
                    Inl e \<Rightarrow> (d, k (Inl e))
                  | Inr t \<Rightarrow>
                      (set_schedule (sc_id s)
                         (\<lambda>x. x\<lparr>sc_consecutive_failures := (if success then 0 else sc_consecutive_failures s + 1),
                                sc_last_run_at := Some (sw_now w), sc_next_run_at := Some t\<rparr>) d,
                       update_fire fire (if success then ''completed'' else ''error'')
                         (\<lambda>w. if missing err then None else map_option (take 500) err) k down))) down)"

definition execute_orchestrated :: "string \<Rightarrow> schedule_row \<Rightarrow> agent_row \<Rightarrow> nat \<Rightarrow> cont \<Rightarrow> prog" where
  "execute_orchestrated mode s ag fire k =
     (let down = k (Inl DBAPIError)
      in Tx (\<lambda>w d.
             (d, case get_schedule_account ag d of
                   Inl e \<Rightarrow> k (Inl e)
                 | Inr None \<Rightarrow> update_fire fire ''error'' (\<lambda>w. Some ''Account not found'') k down
                 | Inr (Some _) \<Rightarrow>
                     if mode = ''run_then_reason''
                     then Tx (\<lambda>w d. case execute_function_direct w s ag d of
                                      Inl e \<Rightarrow> (d, k (Inl e))
                                    | Inr (d1, _) \<Rightarrow> (d1, orchestrate s fire k)) down
                     else orchestrate s fire k)) down)"

definition execute_scheduled_function :: "schedule_row \<Rightarrow> agent_row \<Rightarrow> cont \<Rightarrow> prog" where
  "execute_scheduled_function s ag k =
     Tx (\<lambda>w d.
        if sc_id s \<notin> set (map sc_id (schedules d)) \<or> ag_id ag \<notin> agent_ids d then (d, k (Inl IntegrityError))
        else let fire = new_id d;
                 mode = (if sc_orchestration_mode s = [] then ''direct'' else sc_orchestration_mode s)
             in ((bump d)\<lparr>fires := fires d @ [\<lparr>fr_id = fire, fr_schedule_id = sc_id s, fr_agent_id = ag_id ag,
                   fr_status = ''started'', fr_error_detail = None\<rparr>]\<rparr>,
                 if mode = ''procedure'' then execute_procedure s ag fire k
                 else if mode = ''direct'' \<or> missing (ag_ai_engine ag) then execute_direct s ag fire k
                 else execute_orchestrated mode s ag fire k))
       (k (Inl DBAPIError))"

section \<open>Jobs\<close>

definition new_job :: "sched_world \<Rightarrow> int \<Rightarrow> schedule_row \<Rightarrow> nat option \<Rightarrow> agent_db \<Rightarrow> agent_db" where
  "new_job w fire_time s replica d =
     (bump d)\<lparr>jobs := jobs d @ [\<lparr>jb_id = new_id d, jb_agent_id = sc_agent_id s, jb_schedule_id = sc_id s,
        jb_replica_id = replica, jb_fire_time = fire_time, jb_status = ''pending'', jb_claimed_by = None,
        jb_claimed_at = None, jb_completed_at = None, jb_error = None, jb_created_at = sw_now w\<rparr>]\<rparr>"

definition job_replicas :: "schedule_row \<Rightarrow> agent_db \<Rightarrow> nat option list" where
  "job_replicas s d =
     (if sc_mode s = ''cluster''
      then map (Some \<circ> rp_id) (filter (\<lambda>r. rp_agent_id r = sc_agent_id s \<and> rp_status r = ''running'') (replicas d))
      else [None])"

definition create_job :: "sched_world \<Rightarrow> int \<Rightarrow> schedule_row \<Rightarrow> agent_db \<Rightarrow> agent_db res" where
  "create_job w fire_time s d =
     res_bind (one_or_none (\<lambda>j. jb_schedule_id j = sc_id s \<and> jb_fire_time j = fire_time) (jobs d))
     (\<lambda>existing. if existing \<noteq> None then Inr d
        else res_bind (next_run w s)
             (\<lambda>t. if job_replicas s d \<noteq> [] \<and> (sc_id s \<notin> set (map sc_id (schedules d)) \<or> sc_agent_id s \<notin> agent_ids d)
                  then Inl IntegrityError
                  else Inr (set_schedule (sc_id s) (\<lambda>x. x\<lparr>sc_next_run_at := Some t\<rparr>)
                        (foldl (\<lambda>d r. new_job w fire_time s r d) d (job_replicas s d)))))"

fun create_scheduled_jobs :: "sched_world \<Rightarrow> int \<Rightarrow> schedule_row list \<Rightarrow> agent_db \<Rightarrow> agent_db res" where
  "create_scheduled_jobs w fire_time [] d = Inr d"
| "create_scheduled_jobs w fire_time (s # due) d =
     res_bind (create_job w fire_time s d) (create_scheduled_jobs w fire_time due)"

type_synonym claim = "nat \<times> schedule_row \<times> agent_row"

definition claimant :: "agent_db \<Rightarrow> job_row \<Rightarrow> nat option" where
  "claimant d j =
     (case jb_replica_id j of
        None \<Rightarrow> map_option rp_id (find (\<lambda>r. rp_agent_id r = jb_agent_id j \<and> rp_status r = ''running'') (replicas d))
      | Some r \<Rightarrow> Some r)"

fun claim_job :: "sched_world \<Rightarrow> agent_db \<times> claim list \<Rightarrow> job_row \<Rightarrow> agent_db \<times> claim list" where
  "claim_job w (d, claimed) j =
     (case claimant d j of
        None \<Rightarrow> (d, claimed)
      | Some r \<Rightarrow>
          (set_job (jb_id j) (\<lambda>x. x\<lparr>jb_claimed_by := Some r, jb_status := ''claimed'', jb_claimed_at := Some (sw_now w)\<rparr>) d,
           case find (\<lambda>s. sc_id s = jb_schedule_id j) (schedules d) of
             None \<Rightarrow> claimed
           | Some s \<Rightarrow> (case find (\<lambda>a. ag_id a = sc_agent_id s) (agents d) of
                          None \<Rightarrow> claimed | Some ag \<Rightarrow> claimed @ [(jb_id j, s, ag)])))"

definition claimable :: "agent_db \<Rightarrow> job_row list" where
  "claimable d =
     take MAX_CONCURRENT_EXECUTIONS (filter (\<lambda>j. jb_status j = ''pending'' \<and> jb_replica_id j = None) (jobs d))
     @ take MAX_CONCURRENT_EXECUTIONS (filter (\<lambda>j. jb_status j = ''pending'' \<and> jb_replica_id j \<noteq> None) (jobs d))"

definition claim_pending_jobs :: "sched_world \<Rightarrow> agent_db \<Rightarrow> agent_db \<times> claim list" where
  "claim_pending_jobs w d = foldl (claim_job w) (d, []) (claimable d)"

text \<open>The status of the job is written last; when that fails, the exception is only logged.\<close>

fun execute_claimed_job :: "claim \<Rightarrow> prog" where
  "execute_claimed_job (job, s, ag) =
     Tx (\<lambda>w d.
        (set_job job (\<lambda>x. x\<lparr>jb_status := ''running''\<rparr>) d,
         execute_scheduled_function s ag (\<lambda>r. case r of
             Inl e \<Rightarrow> Tx (\<lambda>w d. (set_job job (\<lambda>x. x\<lparr>jb_status := ''failed'', jb_completed_at := Some (sw_now w),
                                   jb_error := Some (take 1000 (sw_text w e))\<rparr>) d, Stop)) Stop
           | Inr _ \<Rightarrow> Tx (\<lambda>w d. (set_job job (\<lambda>x. x\<lparr>jb_status := ''complete'', jb_completed_at := Some (sw_now w)\<rparr>) d,
                                   Stop)) Stop)))
       Stop"

section \<open>The parts of a round\<close>

definition execute_heartbeat :: "agent_row \<Rightarrow> prog" where
  "execute_heartbeat ag =
     (if missing (ag_ai_engine ag) then Stop
      else Tx (\<lambda>w d.
          (d, case get_schedule_account ag d of
                Inr (Some _) \<Rightarrow>
                  Tx (\<lambda>w d. case sw_heartbeat w (ag_id ag) of
                         Inl _ \<Rightarrow> (d, Stop)
                       | Inr _ \<Rightarrow> (set_agent (ag_id ag) (\<lambda>a. a\<lparr>ag_heartbeat_next_at := Some (sw_now w
                           + (case ag_heartbeat_interval ag of Some n \<Rightarrow> if n = 0 then 300 else n | None \<Rightarrow> 300))\<rparr>) d, Stop)) Stop
              | _ \<Rightarrow> Stop)) Stop)"

definition is_due :: "sched_world \<Rightarrow> int option \<Rightarrow> bool" where
  "is_due w t = (case t of None \<Rightarrow> True | Some x \<Rightarrow> x \<le> sw_now w)"

definition runs :: "agent_row \<Rightarrow> bool" where
  "runs ag = (ag_status ag = ''running'' \<and> ag_enabled ag)"

definition due_schedules :: "sched_world \<Rightarrow> agent_db \<Rightarrow> schedule_row list" where
  "due_schedules w d =
     filter (\<lambda>s. is_due w (sc_next_run_at s))
       (filter (\<lambda>s. sc_enabled s \<and> list_ex (\<lambda>a. ag_id a = sc_agent_id s \<and> runs a) (agents d)) (schedules d))"

definition due_heartbeats :: "sched_world \<Rightarrow> agent_db \<Rightarrow> agent_row list" where
  "due_heartbeats w d =
     filter (\<lambda>a. is_due w (ag_heartbeat_next_at a))
       (filter (\<lambda>a. runs a \<and> ag_heartbeat_enabled a \<and> ag_heartbeat_interval a \<noteq> None \<and> ag_ai_engine a \<noteq> None) (agents d))"

definition stale_job :: "sched_world \<Rightarrow> job_row \<Rightarrow> bool" where
  "stale_job w j = (jb_status j = ''pending'' \<and> jb_created_at j < sw_now w - STALE_JOB_TIMEOUT_SECONDS)"

definition reap_stale_jobs :: "sched_world \<Rightarrow> agent_db \<Rightarrow> agent_db" where
  "reap_stale_jobs w d =
     d\<lparr>jobs := map (\<lambda>j. if stale_job w j
         then j\<lparr>jb_status := ''failed'', jb_completed_at := Some (sw_now w), jb_error := Some ''Stale: unclaimed within timeout''\<rparr>
         else j) (jobs d)\<rparr>"

text \<open>
  \<open>_create_replica\<close> under the \<open>try\<close> of the health check: when the container daemon cannot be reached, the row that was added before
  stays in the session and is committed.
\<close>

definition replace_replica :: "host \<Rightarrow> agent_row \<Rightarrow> agent_db \<Rightarrow> agent_db" where
  "replace_replica h ag d =
     (case generate_replica_name (h_draws h (new_id d)) (map rp_name (get_replicas d (ag_id ag))) 10 of
        Inl _ \<Rightarrow> d
      | Inr name \<Rightarrow>
          let r = \<lparr>rp_id = new_id d, rp_agent_id = ag_id ag, rp_name = name, rp_container_id = None,
                   rp_status = ''creating'', rp_last_heartbeat = None, rp_created_at = h_now h\<rparr>
          in (bump d)\<lparr>replicas := replicas d @ [case run_replica_container h ag r of Inl _ \<Rightarrow> r | Inr r' \<Rightarrow> r']\<rparr>)"

definition stale_replica :: "sched_world \<Rightarrow> agent_db \<Rightarrow> replica_row \<Rightarrow> bool" where
  "stale_replica w d r =
     (rp_status r = ''running''
      \<and> (case rp_last_heartbeat r of None \<Rightarrow> False | Some t \<Rightarrow> t < sw_now w - REPLICA_HEARTBEAT_TIMEOUT_SECONDS)
      \<and> list_ex (\<lambda>a. ag_id a = rp_agent_id r \<and> ag_enabled a) (agents d))"

definition restore_replicas :: "sched_world \<Rightarrow> agent_db \<Rightarrow> nat \<Rightarrow> agent_db" where
  "restore_replicas w d agent_id =
     (case find (\<lambda>a. ag_id a = agent_id) (agents d) of
        None \<Rightarrow> d
      | Some ag \<Rightarrow>
          let running = int (length (filter (\<lambda>r. rp_agent_id r = agent_id \<and> rp_status r = ''running'') (replicas d)))
          in (replace_replica (sw_host w) ag ^^ nat (ag_target_replicas ag - running)) d)"

definition check_replica_health :: "sched_world \<Rightarrow> agent_db \<Rightarrow> agent_db" where
  "check_replica_health w d =
     (let d1 = d\<lparr>replicas := map (\<lambda>r. if stale_replica w d r then r\<lparr>rp_status := ''error''\<rparr> else r) (replicas d)\<rparr>
      in foldl (restore_replicas w) d1 (remdups (map rp_agent_id (filter (stale_replica w d) (replicas d)))))"

text \<open>On startup the next time of every enabled schedule is computed anew; one that has none keeps its old time.\<close>

definition initialize_next_run_times :: "sched_world \<Rightarrow> agent_db \<Rightarrow> agent_db" where
  "initialize_next_run_times w d =
     d\<lparr>schedules := map (\<lambda>s. if sc_enabled s
         then (case next_run w s of Inl _ \<Rightarrow> s | Inr t \<Rightarrow> s\<lparr>sc_next_run_at := Some t\<rparr>) else s) (schedules d)\<rparr>"

section \<open>The machine\<close>

text \<open>
  Where the loop is: about to select what is due, to create the jobs, to claim jobs, waiting for its tasks, or about to reap
  or to check the replicas. A task is a program with the job it is for; a heartbeat has none. \<open>sm_lost\<close> is read by nothing: it
  collects the jobs that were in flight when the process was restarted or when the database failed the last write of their status.
\<close>

datatype phase =
    Polling
  | Creating int "schedule_row list" "agent_row list"
  | Claiming "agent_row list"
  | Gathering
  | Reaping
  | Checking

type_synonym task = "nat option \<times> prog"

record machine =
  sm_db :: agent_db
  sm_phase :: phase
  sm_tasks :: "task list"
  sm_lost :: "nat list"

definition tasks_for :: "claim list \<Rightarrow> agent_row list \<Rightarrow> task list" where
  "tasks_for claimed beats =
     filter (\<lambda>(j, p). case p of Stop \<Rightarrow> False | Tx _ _ \<Rightarrow> True)
       (map (\<lambda>c. (Some (fst c), execute_claimed_job c)) claimed @ map (\<lambda>a. (None, execute_heartbeat a)) beats)"

text \<open>The next step of the loop. A poll that raises is logged, and the round goes on with the reaper.\<close>

definition loop_step :: "sched_world \<Rightarrow> machine \<Rightarrow> machine" where
  "loop_step w m =
     (let d = sm_db m
      in case sm_phase m of
           Polling \<Rightarrow> m\<lparr>sm_phase := Creating (sw_now w) (due_schedules w d) (due_heartbeats w d)\<rparr>
         | Creating t due beats \<Rightarrow>
             (case create_scheduled_jobs w t due d of
                Inl _ \<Rightarrow> m\<lparr>sm_phase := Reaping\<rparr>
              | Inr d1 \<Rightarrow> m\<lparr>sm_db := d1, sm_phase := Claiming beats\<rparr>)
         | Claiming beats \<Rightarrow>
             (let (d1, claimed) = claim_pending_jobs w d
              in m\<lparr>sm_db := d1, sm_phase := Gathering, sm_tasks := tasks_for claimed beats\<rparr>)
         | Gathering \<Rightarrow> (if sm_tasks m = [] then m\<lparr>sm_phase := Reaping\<rparr> else m)
         | Reaping \<Rightarrow> m\<lparr>sm_db := reap_stale_jobs w d, sm_phase := Checking\<rparr>
         | Checking \<Rightarrow> m\<lparr>sm_db := check_replica_health w d, sm_phase := Polling\<rparr>)"

text \<open>The same when the database fails the transaction.\<close>

definition loop_fault :: "machine \<Rightarrow> machine" where
  "loop_fault m =
     (case sm_phase m of
        Gathering \<Rightarrow> m
      | Reaping \<Rightarrow> m\<lparr>sm_phase := Checking\<rparr>
      | Checking \<Rightarrow> m\<lparr>sm_phase := Polling\<rparr>
      | _ \<Rightarrow> m\<lparr>sm_phase := Reaping\<rparr>)"

text \<open>
  A task goes on, or its transaction fails. Tasks that ended are removed, so that the semaphore admits the first five of the list.
\<close>

definition put_task :: "nat \<Rightarrow> nat option \<Rightarrow> prog \<Rightarrow> machine \<Rightarrow> machine" where
  "put_task i j p m =
     m\<lparr>sm_tasks := (case p of
         Stop \<Rightarrow> take i (sm_tasks m) @ drop (Suc i) (sm_tasks m)
       | Tx _ _ \<Rightarrow> (sm_tasks m)[i := (j, p)])\<rparr>"

definition task_ready :: "nat \<Rightarrow> machine \<Rightarrow> bool" where
  "task_ready i m \<longleftrightarrow> i < length (sm_tasks m) \<and> i < MAX_CONCURRENT_EXECUTIONS"

definition task_step :: "sched_world \<Rightarrow> nat \<Rightarrow> machine \<Rightarrow> machine" where
  "task_step w i m =
     (if \<not> task_ready i m then m
      else case sm_tasks m ! i of
             (j, Stop) \<Rightarrow> m
           | (j, Tx f h) \<Rightarrow> (let (d, p) = f w (sm_db m) in put_task i j p (m\<lparr>sm_db := d\<rparr>)))"

definition task_fault :: "nat \<Rightarrow> machine \<Rightarrow> machine" where
  "task_fault i m =
     (if \<not> task_ready i m then m
      else case sm_tasks m ! i of
             (j, Stop) \<Rightarrow> m
           | (j, Tx f h) \<Rightarrow>
               put_task i j h (m\<lparr>sm_lost := sm_lost m @ (case (h, j) of (Stop, Some job) \<Rightarrow> [job] | _ \<Rightarrow> [])\<rparr>))"

definition in_flight :: "machine \<Rightarrow> nat list" where
  "in_flight m = List.map_filter fst (sm_tasks m)"

definition restart :: "sched_world \<Rightarrow> machine \<Rightarrow> machine" where
  "restart w m =
     \<lparr>sm_db = initialize_next_run_times w (sm_db m), sm_phase = Polling, sm_tasks = [], sm_lost = sm_lost m @ in_flight m\<rparr>"

datatype sched_event =
    Request agent_op
  | Loop sched_world
  | LoopFault
  | Task sched_world nat
  | TaskFault nat
  | Restart sched_world

fun machine_step :: "machine \<Rightarrow> sched_event \<Rightarrow> machine" where
  "machine_step m (Request r) = m\<lparr>sm_db := agent_request (sm_db m) r\<rparr>"
| "machine_step m (Loop w) = loop_step w m"
| "machine_step m LoopFault = loop_fault m"
| "machine_step m (Task w i) = task_step w i m"
| "machine_step m (TaskFault i) = task_fault i m"
| "machine_step m (Restart w) = restart w m"

definition idle :: "agent_db \<Rightarrow> machine" where
  "idle d = \<lparr>sm_db = d, sm_phase = Polling, sm_tasks = [], sm_lost = []\<rparr>"

text \<open>A round that nothing interrupts, with the tasks one after the other.\<close>

definition poll_and_execute :: "sched_world \<Rightarrow> agent_db \<Rightarrow> agent_db \<times> nat res" where
  "poll_and_execute w d =
     (let due = due_schedules w d; beats = due_heartbeats w d
      in case (if due = [] then Inr d else create_scheduled_jobs w (sw_now w) due d) of
           Inl e \<Rightarrow> (d, Inl e)
         | Inr d1 \<Rightarrow>
             (let (d2, claimed) = claim_pending_jobs w d1
              in (foldl (\<lambda>d p. run_prog p w d) d2 (map execute_claimed_job claimed @ map execute_heartbeat beats),
                  Inr (length claimed + length beats))))"

definition tick :: "sched_world \<Rightarrow> agent_db \<Rightarrow> agent_db" where
  "tick w d = check_replica_health w (reap_stale_jobs w (fst (poll_and_execute w d)))"

section \<open>What an execution leaves alone\<close>

lemma inv_runs: "agent_inv (d\<lparr>agent_runs := x\<rparr>) = agent_inv d"
  and inv_fires: "agent_inv (d\<lparr>fires := y\<rparr>) = agent_inv d"
  by (simp_all add: agent_inv_def)

lemma update_row_map:
  "(\<And>x. rid (f x) = rid x \<and> g (f x) = g x) \<Longrightarrow> map (\<lambda>x. (rid x, g x)) (update_row rid i f xs) = map (\<lambda>x. (rid x, g x)) xs"
  by (rule map_update_row) simp

lemma inv_set_schedule:
  assumes i: "agent_inv d" and f: "\<And>s. sc_id (f s) = sc_id s \<and> sc_agent_id (f s) = sc_agent_id s"
  shows "agent_inv (set_schedule i f d)"
proof -
  have "map sc_id (update_row sc_id i f (schedules d)) = map sc_id (schedules d)"
    by (rule map_update_row) (use f in simp)
  then have s: "set (map sc_id (update_row sc_id i f (schedules d))) = set (map sc_id (schedules d))" by simp
  have "rows_ok (new_id d) (agent_ids d) sc_id sc_agent_id sc_id (update_row sc_id i f (schedules d))"
    by (rule rows_ok_update) (use i f in \<open>simp_all add: agent_inv_def\<close>)
  then show ?thesis using i unfolding agent_inv_def set_schedule_def by (simp add: s del: set_map)
qed

lemma inv_jobs:
  assumes i: "agent_inv d" and k: "map (\<lambda>j. (jb_id j, jb_agent_id j, jb_schedule_id j)) js
      = map (\<lambda>j. (jb_id j, jb_agent_id j, jb_schedule_id j)) (jobs d)"
    and s: "list_all (\<lambda>j. jb_status j \<in> set JOB_STATUSES) js"
  shows "agent_inv (d\<lparr>jobs := js\<rparr>)"
proof -
  have k1: "map (\<lambda>j. (jb_id j, jb_agent_id j, jb_id j)) js = map (\<lambda>j. (jb_id j, jb_agent_id j, jb_id j)) (jobs d)"
    using arg_cong [OF k, of "map (\<lambda>(a, b, c). (a, b, a))"] by (simp add: comp_def)
  have k2: "map jb_schedule_id js = map jb_schedule_id (jobs d)"
    using arg_cong [OF k, of "map (\<lambda>(a, b, c). c)"] by (simp add: comp_def)
  have "jb_schedule_id j \<in> set (map sc_id (schedules d))" if "j \<in> set js" for j
  proof -
    have "jb_schedule_id j \<in> set (map jb_schedule_id (jobs d))" using that unfolding k2 [symmetric] by simp
    then show ?thesis using i by (auto simp: agent_inv_def list_all_iff)
  qed
  then show ?thesis using i s unfolding agent_inv_def by (simp add: rows_ok_same [OF k1] list_all_iff)
qed

lemma inv_set_job:
  assumes "agent_inv d"
    and "\<And>j. jb_id (f j) = jb_id j \<and> jb_agent_id (f j) = jb_agent_id j \<and> jb_schedule_id (f j) = jb_schedule_id j"
    and "\<And>j. jb_status (f j) \<in> set JOB_STATUSES"
  shows "agent_inv (set_job i f d)"
  unfolding set_job_def
proof (rule inv_jobs [OF assms(1)])
  show "map (\<lambda>j. (jb_id j, jb_agent_id j, jb_schedule_id j)) (update_row jb_id i f (jobs d))
      = map (\<lambda>j. (jb_id j, jb_agent_id j, jb_schedule_id j)) (jobs d)"
    by (rule map_update_row) (use assms(2) in simp)
  show "list_all (\<lambda>j. jb_status j \<in> set JOB_STATUSES) (update_row jb_id i f (jobs d))"
    using assms(1,3) by (auto simp: update_row_def agent_inv_def list_all_iff)
qed

text \<open>An execution may add runs and fires and update schedules; everything else stays.\<close>

definition exec_frame :: "agent_db \<Rightarrow> agent_db \<Rightarrow> bool" where
  "exec_frame d d' \<longleftrightarrow>
     jobs d' = jobs d \<and> agents d' = agents d \<and> replicas d' = replicas d
     \<and> map sc_id (schedules d') = map sc_id (schedules d) \<and> (agent_inv d \<longrightarrow> agent_inv d')"

lemma exec_frame_refl [simp]: "exec_frame d d"
  by (simp add: exec_frame_def)

lemma exec_frame_trans: "exec_frame d d1 \<Longrightarrow> exec_frame d1 d2 \<Longrightarrow> exec_frame d d2"
  by (simp add: exec_frame_def)

lemma frame_set_run [simp]: "exec_frame d (set_run i f d)"
  by (simp add: exec_frame_def set_run_def inv_runs)

lemma frame_set_fire [simp]: "exec_frame d (set_fire i st err d)"
  by (simp add: exec_frame_def set_fire_def inv_fires)

lemma frame_set_schedule:
  assumes "\<And>s. sc_id (f s) = sc_id s \<and> sc_agent_id (f s) = sc_agent_id s"
  shows "exec_frame d (set_schedule i f d)"
proof -
  have "map sc_id (update_row sc_id i f (schedules d)) = map sc_id (schedules d)"
    by (rule map_update_row) (use assms in simp)
  then show ?thesis using inv_set_schedule [of d f i] assms by (simp add: exec_frame_def set_schedule_def)
qed

lemma frame_add_run: "exec_frame d ((bump d)\<lparr>agent_runs := x\<rparr>)"
  and frame_add_fire: "exec_frame d ((bump d)\<lparr>fires := y\<rparr>)"
  by (simp_all add: exec_frame_def inv_runs inv_fires agent_inv_bump)

lemma frame_record_failure:
  assumes "record_failure w r s err d = Inr d'"
  shows "exec_frame d d'"
proof -
  obtain g where d': "d' = set_schedule (sc_id s) g (set_run r (\<lambda>r. r\<lparr>rn_status := ''failed'', rn_error := Some (take 1000 err)\<rparr>) d)"
    and g: "\<And>x. sc_id (g x) = sc_id x \<and> sc_agent_id (g x) = sc_agent_id x"
    using assms unfolding record_failure_def Let_def by (auto intro!: that)
  show ?thesis unfolding d' by (rule exec_frame_trans [OF frame_set_run frame_set_schedule [OF g]])
qed

lemma frame_in_namespace:
  assumes "execute_in_namespace w s r ns service fn d = Inr (d', out)"
  shows "exec_frame d d'"
proof (cases "\<exists>err. record_failure w r s err d = Inr d'")
  case True
  then show ?thesis using frame_record_failure by blast
next
  case False
  then obtain g where d': "d' = set_schedule (sc_id s) g (set_run r (\<lambda>r. r\<lparr>rn_status := ''completed''\<rparr>) d)"
    and g: "\<And>x. sc_id (g x) = sc_id x \<and> sc_agent_id (g x) = sc_agent_id x"
    using assms unfolding execute_in_namespace_def Let_def
    by (auto split: sum.splits prod.splits if_splits backend_reply.splits intro!: that)
  show ?thesis unfolding d' by (rule exec_frame_trans [OF frame_set_run frame_set_schedule [OF g]])
qed

lemma frame_direct:
  assumes "execute_function_direct w s ag d = Inr (d', out)"
  shows "exec_frame d d'"
proof (cases "find_split ''.'' (sc_function_name s)")
  case None
  then show ?thesis using assms by (simp add: execute_function_direct_def)
next
  case (Some p)
  define d1 where "d1 = (bump d)\<lparr>agent_runs := agent_runs d @ [\<lparr>rn_id = new_id d, rn_agent_id = ag_id ag,
    rn_function_name = Some (sc_function_name s), rn_status = ''running'', rn_error = None, rn_created_at = sw_now w\<rparr>]\<rparr>"
  have "exec_frame d d1" unfolding d1_def by (rule frame_add_run)
  moreover have "exec_frame d1 d'"
    using assms unfolding execute_function_direct_def Some Let_def d1_def [symmetric]
    by (auto split: option.splits prod.splits if_splits) (rule frame_in_namespace)
  ultimately show ?thesis by (rule exec_frame_trans)
qed

section \<open>What a task does\<close>

definition quiet :: "job_row \<Rightarrow> bool" where
  "quiet j = (jb_status j \<in> {''pending'', ''complete'', ''failed''})"

text \<open>
  A transaction of a task keeps the tables consistent and changes no job but its own. A task has a bounded number of
  transactions left, and the last of them, unless the database fails it, leaves its job complete or failed.
\<close>

definition task_tx :: "nat option \<Rightarrow> agent_db \<Rightarrow> agent_db \<Rightarrow> bool" where
  "task_tx j d d' \<longleftrightarrow> (agent_inv d \<longrightarrow> agent_inv d') \<and> (\<forall>x\<in>set (jobs d'). x \<in> set (jobs d) \<or> Some (jb_id x) = j)
     \<and> (\<forall>x\<in>set (jobs d). x \<in> set (jobs d') \<or> Some (jb_id x) = j)"

definition closed :: "nat option \<Rightarrow> agent_db \<Rightarrow> bool" where
  "closed j d \<longleftrightarrow> (\<forall>x\<in>set (jobs d). Some (jb_id x) = j \<longrightarrow> jb_status x \<in> {''complete'', ''failed''})"

primrec task_prog :: "nat option \<Rightarrow> nat \<Rightarrow> prog \<Rightarrow> bool" where
  "task_prog j 0 p = False"
| "task_prog j (Suc n) p =
     (\<exists>f h. p = Tx f h \<and> (h = Stop \<or> task_prog j n h)
       \<and> (\<forall>w d. task_tx j d (fst (f w d))
             \<and> (if snd (f w d) = Stop then closed j (fst (f w d)) else task_prog j n (snd (f w d)))))"

lemma task_prog_Stop [simp]: "\<not> task_prog j n Stop"
  by (cases n) simp_all

lemma task_prog_Suc: "task_prog j n p \<Longrightarrow> task_prog j (Suc n) p"
proof (induction n arbitrary: p)
  case (Suc n)
  from Suc.prems obtain f h where p: "p = Tx f h" "h = Stop \<or> task_prog j n h"
    "\<And>w d. task_tx j d (fst (f w d)) \<and> (if snd (f w d) = Stop then closed j (fst (f w d)) else task_prog j n (snd (f w d)))"
    by auto
  have "h = Stop \<or> task_prog j (Suc n) h" using p(2) Suc.IH by blast
  moreover have "task_tx j d (fst (f w d))
      \<and> (if snd (f w d) = Stop then closed j (fst (f w d)) else task_prog j (Suc n) (snd (f w d)))" for w d
    using p(3) [of d w] Suc.IH by (auto split: if_splits)
  ultimately show ?case using p(1) unfolding task_prog.simps(2) [of j "Suc n" p] by blast
qed simp

lemma task_prog_mono: "n \<le> m \<Longrightarrow> task_prog j n p \<Longrightarrow> task_prog j m p"
  by (induction m rule: dec_induct) (simp_all only: task_prog_Suc)

lemma task_prog_Tx:
  assumes "\<And>w d. exec_frame d (fst (f w d))" "\<And>w d. task_prog j n (snd (f w d))" "task_prog j n h"
  shows "task_prog j (Suc n) (Tx f h)"
proof -
  have "task_tx j d (fst (f w d))" for w d using assms(1) [of d w] by (simp add: task_tx_def exec_frame_def)
  moreover have "snd (f w d) \<noteq> Stop" for w d using assms(2) [of w d] by auto
  ultimately show ?thesis using assms(2,3) by simp
qed

declare task_prog.simps [simp del]

lemma update_fire_prog:
  assumes "\<And>r. task_prog j n (k r)" "task_prog j n h"
  shows "task_prog j (Suc n) (update_fire fire status err k h)"
  unfolding update_fire_def by (rule task_prog_Tx) (use assms in simp_all)

lemma orchestrate_prog:
  assumes k: "\<And>r. task_prog j n (k r)"
  shows "task_prog j (Suc (Suc n)) (orchestrate s fire k)"
proof -
  have k1: "\<And>r. task_prog j (Suc n) (k r)" by (rule task_prog_Suc [OF k])
  show ?thesis unfolding orchestrate_def Let_def
  proof (rule task_prog_Tx [OF _ _ k1], goal_cases)
    case (1 w d)
    show ?case by (auto split: sum.splits intro!: frame_set_schedule)
  next
    case (2 w d)
    show ?case by (auto intro!: update_fire_prog k k1 split: sum.splits)
  qed
qed

lemma execute_direct_prog:
  assumes k: "\<And>r. task_prog j n (k r)"
  shows "task_prog j (Suc (Suc (Suc n))) (execute_direct s ag fire k)"
proof -
  have f: "task_prog j (Suc n) (update_fire fire status err k (k (Inl DBAPIError)))" for status err
    by (rule update_fire_prog [OF k k])
  have g: "task_prog j (Suc (Suc n)) (update_fire fire status err k (update_fire fire status' err' k (k (Inl DBAPIError))))"
    for status err status' err'
    by (rule update_fire_prog [OF task_prog_Suc [OF k] f])
  show ?thesis unfolding execute_direct_def Let_def
  proof (rule task_prog_Tx [OF _ _ task_prog_Suc [OF f]], goal_cases)
    case (1 w d)
    show ?case by (auto split: sum.splits prod.splits intro: frame_direct)
  next
    case (2 w d)
    show ?case using task_prog_Suc [OF f] g by (auto split: sum.splits prod.splits)
  qed
qed

lemma execute_procedure_prog:
  assumes k: "\<And>r. task_prog j n (k r)"
  shows "task_prog j (Suc (Suc n)) (execute_procedure s ag fire k)"
proof -
  have k1: "\<And>r. task_prog j (Suc n) (k r)" by (rule task_prog_Suc [OF k])
  have f: "task_prog j (Suc n) (update_fire fire status err k (k (Inl DBAPIError)))" for status err
    by (rule update_fire_prog [OF k k])
  have run: "task_prog j (Suc n) (Tx (\<lambda>w d. case sw_procedure w fire of Inl e \<Rightarrow> (d, k (Inl e))
      | Inr _ \<Rightarrow> (set_fire fire ''completed'' None d, k (Inr ()))) (k (Inl DBAPIError)))"
    by (rule task_prog_Tx [OF _ _ k]) (auto split: sum.splits simp: k)
  have look: "task_prog j (Suc (Suc n)) (Tx (\<lambda>w d. (d, g d)) (k (Inl DBAPIError)))" if "\<And>d. task_prog j (Suc n) (g d)" for g
    by (rule task_prog_Tx [OF _ _ k1]) (simp_all add: that)
  show ?thesis unfolding execute_procedure_def Let_def
    using task_prog_Suc [OF f] by (auto intro!: look run f k1 split: sum.splits option.splits)
qed

lemma execute_orchestrated_prog:
  assumes k: "\<And>r. task_prog j n (k r)"
  shows "task_prog j (n + 4) (execute_orchestrated mode s ag fire k)"
proof -
  have k3: "\<And>r. task_prog j (n + 3) (k r)" and k2: "\<And>r. task_prog j (n + 2) (k r)"
    using task_prog_mono [OF _ k] by simp_all
  have orch: "task_prog j (n + 2) (orchestrate s fire k)" using orchestrate_prog [of j n k, OF k] by simp
  have look: "task_prog j (n + 4) (Tx (\<lambda>w d. (d, g d)) (k (Inl DBAPIError)))" if "\<And>d. task_prog j (n + 3) (g d)" for g
    using task_prog_Tx [of "\<lambda>w d. (d, g d)" j "n + 3", OF _ _ k3] that by (simp add: numeral_eq_Suc)
  have "task_prog j (Suc (n + 2)) (Tx (\<lambda>w d. case execute_function_direct w s ag d of Inl e \<Rightarrow> (d, k (Inl e))
      | Inr (d1, _) \<Rightarrow> (d1, orchestrate s fire k)) (k (Inl DBAPIError)))"
    by (rule task_prog_Tx [OF _ _ k2]) (use k2 orch in \<open>auto split: sum.splits prod.splits intro: frame_direct\<close>)
  then have run: "task_prog j (n + 3) (Tx (\<lambda>w d. case execute_function_direct w s ag d of Inl e \<Rightarrow> (d, k (Inl e))
      | Inr (d1, _) \<Rightarrow> (d1, orchestrate s fire k)) (k (Inl DBAPIError)))" by (simp add: numeral_eq_Suc)
  have f: "task_prog j (n + 3) (update_fire fire status err k (k (Inl DBAPIError)))" for status err
    using update_fire_prog [OF k2 k2] by (simp add: numeral_eq_Suc)
  have orch3: "task_prog j (n + 3) (orchestrate s fire k)" by (rule task_prog_mono [OF _ orch]) simp
  show ?thesis unfolding execute_orchestrated_def Let_def
    by (intro look) (auto intro: run f k3 orch3 split: sum.splits option.splits)
qed

lemma scheduled_function_prog:
  assumes k: "\<And>r. task_prog j n (k r)"
  shows "task_prog j (n + 5) (execute_scheduled_function s ag k)"
proof -
  have "task_prog j (n + 4) (execute_procedure s ag fire k)" "task_prog j (n + 4) (execute_direct s ag fire k)"
    "task_prog j (n + 4) (execute_orchestrated mode s ag fire k)" "task_prog j (n + 4) (k r)" for fire mode r
    using task_prog_mono [OF _ execute_procedure_prog [OF k], of "n + 4"] task_prog_mono [OF _ execute_direct_prog [OF k], of "n + 4"]
      execute_orchestrated_prog [OF k] task_prog_mono [OF _ k, of "n + 4"] by simp_all
  then have "task_prog j (Suc (n + 4)) (execute_scheduled_function s ag k)" unfolding execute_scheduled_function_def
    by (intro task_prog_Tx) (auto simp: Let_def frame_add_fire)
  then show ?thesis by (simp add: numeral_eq_Suc)
qed

text \<open>The two tasks.\<close>

lemma task_tx_set_job:
  assumes "\<And>j. jb_id (f j) = jb_id j \<and> jb_agent_id (f j) = jb_agent_id j \<and> jb_schedule_id (f j) = jb_schedule_id j"
    and "\<And>j. jb_status (f j) \<in> set JOB_STATUSES"
  shows "task_tx (Some i) d (set_job i f d)"
proof -
  have "agent_inv d \<Longrightarrow> agent_inv (set_job i f d)" by (rule inv_set_job [OF _ assms])
  then show ?thesis using assms(1) by (auto simp: task_tx_def set_job_def update_row_def)
qed

lemma claimed_job_prog: "task_prog (Some (fst c)) 7 (execute_claimed_job c)"
proof -
  obtain job s ag where c: "c = (job, s, ag)" by (cases c)
  define k where "k = (\<lambda>r :: unit res. case r of
      Inl e \<Rightarrow> Tx (\<lambda>w d. (set_job job (\<lambda>x. x\<lparr>jb_status := ''failed'', jb_completed_at := Some (sw_now w),
                                   jb_error := Some (take 1000 (sw_text w e))\<rparr>) d, Stop)) Stop
    | Inr _ \<Rightarrow> Tx (\<lambda>w d. (set_job job (\<lambda>x. x\<lparr>jb_status := ''complete'', jb_completed_at := Some (sw_now w)\<rparr>) d, Stop)) Stop)"
  have cl: "closed (Some job) (set_job job f d)" if "\<And>x. jb_id (f x) = jb_id x \<and> jb_status (f x) \<in> {''complete'', ''failed''}" for f d
    using that by (auto simp: closed_def set_job_def update_row_def)
  have k: "task_prog (Some job) 1 (k r)" for r
    by (cases r) (simp_all add: k_def cl task_tx_set_job JOB_STATUSES_def task_prog.simps)
  have "task_prog (Some job) 6 (execute_scheduled_function s ag k)"
    using scheduled_function_prog [of "Some job" 1 k, OF k] by simp
  moreover have "execute_scheduled_function s ag k \<noteq> Stop" by (simp add: execute_scheduled_function_def)
  ultimately have "task_prog (Some job) (Suc 6) (execute_claimed_job c)"
    unfolding c execute_claimed_job.simps k_def [symmetric] task_prog.simps(2) [of _ 6]
    by (intro exI [of _ "\<lambda>w d. (set_job job (\<lambda>x. x\<lparr>jb_status := ''running''\<rparr>) d, execute_scheduled_function s ag k)"] exI [of _ Stop])
      (simp add: task_tx_set_job JOB_STATUSES_def)
  then show ?thesis by (simp add: c)
qed

lemma heartbeat_prog: "execute_heartbeat ag = Stop \<or> task_prog None 2 (execute_heartbeat ag)"
proof -
  have t: "task_tx None d (set_agent i (\<lambda>a. a\<lparr>ag_heartbeat_next_at := x\<rparr>) d)" for i d x
    by (auto simp: task_tx_def inv_agent_facts(2) intro!: inv_set_agent)
  have c: "closed None d" "task_tx None d d" for d by (simp_all add: closed_def task_tx_def)
  show ?thesis unfolding execute_heartbeat_def
    by (auto simp: numeral_2_eq_2 t c task_prog.simps split: sum.splits option.splits)
qed

section \<open>Jobs come to an end\<close>

text \<open>All jobs are quiet, apart from those with the given identifiers.\<close>

definition quiet_but :: "nat set \<Rightarrow> agent_db \<Rightarrow> bool" where
  "quiet_but ids d \<longleftrightarrow> agent_inv d \<and> (\<forall>j\<in>set (jobs d). quiet j \<or> jb_id j \<in> ids)"

lemma inv_new_job:
  assumes i: "agent_inv d" and s: "sc_agent_id s \<in> agent_ids d" "sc_id s \<in> set (map sc_id (schedules d))"
  shows "agent_inv (new_job w t s r d)"
proof -
  have o: "rows_ok (new_id d) (agent_ids d) jb_id jb_agent_id jb_id (jobs d)" using i by (simp add: agent_inv_def)
  have "rows_ok (Suc (new_id d)) (agent_ids d) jb_id jb_agent_id jb_id (jobs d @ [j])"
    if "jb_id j = new_id d" "jb_agent_id j = sc_agent_id s" for j
    by (rule rows_ok_snoc [OF o]) (use o s that in \<open>auto simp: rows_ok_def list_all_iff\<close>)
  then show ?thesis using agent_inv_bump [OF i] s(2) unfolding agent_inv_def new_job_def
    by (simp add: JOB_STATUSES_def)
qed

lemma new_jobs_quiet:
  assumes "quiet_but ids d" "sc_agent_id s \<in> agent_ids d" "sc_id s \<in> set (map sc_id (schedules d))"
  shows "quiet_but ids (foldl (\<lambda>d r. new_job w t s r d) d rs)"
  using assms
proof (induction rs arbitrary: d)
  case (Cons r rs)
  have "quiet_but ids (new_job w t s r d)"
    using Cons.prems inv_new_job [of d s w t r] by (auto simp: quiet_but_def new_job_def quiet_def)
  then show ?case using Cons.IH [of "new_job w t s r d"] Cons.prems(2,3) by (simp add: new_job_def)
qed simp

lemma create_job_quiet:
  assumes q: "quiet_but ids d" and c: "create_job w t s d = Inr d'"
  shows "quiet_but ids d'"
proof (cases "d' = d")
  case False
  define d1 where "d1 = foldl (\<lambda>d r. new_job w t s r d) d (job_replicas s d)"
  obtain n where d': "d' = set_schedule (sc_id s) (\<lambda>x. x\<lparr>sc_next_run_at := Some n\<rparr>) d1"
    and fk: "job_replicas s d = [] \<or> sc_agent_id s \<in> agent_ids d \<and> sc_id s \<in> set (map sc_id (schedules d))"
    using c False by (auto simp: create_job_def d1_def split: if_splits)
  have "quiet_but ids d1" unfolding d1_def using fk q new_jobs_quiet [OF q] by (cases "job_replicas s d = []") simp_all
  moreover have "exec_frame d1 d'" unfolding d' by (rule frame_set_schedule) simp
  ultimately show ?thesis by (simp add: exec_frame_def quiet_but_def)
qed (use q in simp)

lemma create_scheduled_jobs_quiet:
  "quiet_but ids d \<Longrightarrow> create_scheduled_jobs w t due d = Inr d' \<Longrightarrow> quiet_but ids d'"
proof (induction due arbitrary: d)
  case (Cons s due)
  obtain d1 where "create_job w t s d = Inr d1" "create_scheduled_jobs w t due d1 = Inr d'" using Cons.prems(2) by auto
  then show ?case using Cons.IH create_job_quiet [OF Cons.prems(1)] by blast
qed simp

lemma find_key: "k \<in> set (map g xs) \<Longrightarrow> \<exists>y\<in>set xs. find (\<lambda>x. g x = k) xs = Some y"
  by (induction xs) auto

lemma claim_job_quiet:
  assumes q: "quiet_but (fst ` set cl \<union> ids) d" and j: "jb_schedule_id j \<in> set (map sc_id (schedules d))"
    and c: "claim_job w (d, cl) j = (d', cl')"
  shows "quiet_but (fst ` set cl' \<union> ids) d' \<and> schedules d' = schedules d"
proof (cases "claimant d j")
  case None
  then show ?thesis using q c by simp
next
  case (Some r)
  have i: "agent_inv d" using q by (simp add: quiet_but_def)
  obtain s where s: "find (\<lambda>s. sc_id s = jb_schedule_id j) (schedules d) = Some s" and "s \<in> set (schedules d)"
    using find_key [OF j] by blast
  then have "sc_agent_id s \<in> agent_ids d" using i by (simp add: agent_inv_def rows_ok_def list_all_iff)
  then obtain ag where a: "find (\<lambda>a. ag_id a = sc_agent_id s) (agents d) = Some ag"
    using find_key [of "sc_agent_id s" ag_id "agents d"] by blast
  define f where "f = (\<lambda>x :: job_row. x\<lparr>jb_claimed_by := Some r, jb_status := ''claimed'', jb_claimed_at := Some (sw_now w)\<rparr>)"
  have e: "cl' = cl @ [(jb_id j, s, ag)]" "d' = set_job (jb_id j) f d"
    using c Some s a by (auto simp: f_def)
  have "agent_inv d'" unfolding e by (rule inv_set_job [OF i]) (simp_all add: f_def JOB_STATUSES_def)
  moreover have "\<forall>x\<in>set (jobs d'). quiet x \<or> jb_id x \<in> fst ` set cl' \<union> ids"
    using q by (auto simp: e set_job_def update_row_def quiet_but_def f_def)
  ultimately show ?thesis by (simp add: quiet_but_def e set_job_def)
qed

lemma claims_quiet:
  assumes "quiet_but (fst ` set cl \<union> ids) d" "\<forall>j\<in>set js. jb_schedule_id j \<in> set (map sc_id (schedules d))"
    "foldl (claim_job w) (d, cl) js = (d', cl')"
  shows "quiet_but (fst ` set cl' \<union> ids) d'"
  using assms
proof (induction js arbitrary: d cl)
  case (Cons j js)
  obtain d1 cl1 where c: "claim_job w (d, cl) j = (d1, cl1)" by fastforce
  have "quiet_but (fst ` set cl1 \<union> ids) d1 \<and> schedules d1 = schedules d"
    using claim_job_quiet [OF Cons.prems(1) _ c] Cons.prems(2) by simp
  then show ?case using Cons.IH [of cl1 d1] Cons.prems(2,3) c by simp
qed simp

lemma claimable_known:
  assumes "agent_inv d" "j \<in> set (claimable d)"
  shows "jb_schedule_id j \<in> set (map sc_id (schedules d))"
proof -
  have "j \<in> set (jobs d)" using assms(2) by (auto simp: claimable_def dest: in_set_takeD)
  then show ?thesis using assms(1) by (simp add: agent_inv_def list_all_iff)
qed

lemma claim_quiet:
  assumes "quiet_but ids d" "claim_pending_jobs w d = (d', cl)"
  shows "quiet_but (fst ` set cl \<union> ids) d'"
  using claims_quiet [of "[]" ids d "claimable d" w d' cl] assms claimable_known
  by (auto simp: claim_pending_jobs_def quiet_but_def)

definition settled :: "int \<Rightarrow> job_row \<Rightarrow> bool" where
  "settled now j \<longleftrightarrow>
     jb_status j \<in> {''complete'', ''failed''} \<or> jb_status j = ''pending'' \<and> now - STALE_JOB_TIMEOUT_SECONDS \<le> jb_created_at j"

lemma reap_settles:
  assumes "quiet_but ids d"
  shows "quiet_but ids (reap_stale_jobs w d)"
    and "\<forall>j\<in>set (jobs (reap_stale_jobs w d)). settled (sw_now w) j \<or> jb_id j \<in> ids"
proof -
  have "agent_inv (reap_stale_jobs w d)" unfolding reap_stale_jobs_def
    by (rule inv_jobs) (use assms in \<open>auto simp: quiet_but_def agent_inv_def list_all_iff JOB_STATUSES_def\<close>)
  then show "quiet_but ids (reap_stale_jobs w d)"
    using assms by (auto simp: reap_stale_jobs_def quiet_but_def quiet_def)
  show "\<forall>j\<in>set (jobs (reap_stale_jobs w d)). settled (sw_now w) j \<or> jb_id j \<in> ids"
    using assms by (auto simp: reap_stale_jobs_def settled_def stale_job_def quiet_but_def quiet_def)
qed

section \<open>Replacement of replicas\<close>

text \<open>The health check changes the replicas and the supply of identifiers, and nothing else.\<close>

definition only_replicas :: "agent_db \<Rightarrow> agent_db \<Rightarrow> bool" where
  "only_replicas d d' \<longleftrightarrow> agents d' = agents d \<and> jobs d' = jobs d \<and> schedules d' = schedules d
     \<and> agent_runs d' = agent_runs d \<and> fires d' = fires d"

lemma only_replicas_refl [simp]: "only_replicas d d"
  by (simp add: only_replicas_def)

lemma only_replicas_trans: "only_replicas d d1 \<Longrightarrow> only_replicas d1 d2 \<Longrightarrow> only_replicas d d2"
  by (simp add: only_replicas_def)

lemma replace_replica_step:
  assumes i: "agent_inv d" and a: "ag_id ag \<in> agent_ids d"
  shows "agent_inv (replace_replica h ag d)" "only_replicas d (replace_replica h ag d)"
proof -
  show "agent_inv (replace_replica h ag d)"
  proof (cases "generate_replica_name (h_draws h (new_id d)) (map rp_name (get_replicas d (ag_id ag))) 10")
    case (Inr name)
    define r where "r = \<lparr>rp_id = new_id d, rp_agent_id = ag_id ag, rp_name = name, rp_container_id = None,
                   rp_status = ''creating'', rp_last_heartbeat = None, rp_created_at = h_now h\<rparr>"
    define r' where "r' = (case run_replica_container h ag r of Inl _ \<Rightarrow> r | Inr x \<Rightarrow> x)"
    have e: "replace_replica h ag d = (bump d)\<lparr>replicas := replicas d @ [r']\<rparr>"
      unfolding replace_replica_def Inr r'_def r_def Let_def by simp
    have r': "rp_id r' = new_id d" "rp_agent_id r' = ag_id ag" "rp_name r' = name" "rp_status r' \<in> set REPLICA_STATUSES"
      using run_replica_container_Inr [of h ag r]
      by (auto simp: r'_def r_def same_replica_def REPLICA_STATUSES_def split: sum.splits)
    have n: "rp_name x \<noteq> name" if "x \<in> set (replicas d)" "rp_agent_id x = ag_id ag" for x
      using generate_replica_name_Inr [OF Inr] that by auto
    show ?thesis unfolding e
      by (rule inv_snoc_replica [OF i r'(1) _ r'(4)]) (use r' a n in simp_all)
  qed (simp add: replace_replica_def i)
  show "only_replicas d (replace_replica h ag d)"
    by (simp add: replace_replica_def Let_def only_replicas_def split: sum.splits)
qed

lemma replace_replicas_step:
  assumes "agent_inv d" "ag_id ag \<in> agent_ids d"
  shows "agent_inv ((replace_replica h ag ^^ n) d) \<and> only_replicas d ((replace_replica h ag ^^ n) d)"
proof (induction n)
  case (Suc n)
  then have "ag_id ag \<in> agent_ids ((replace_replica h ag ^^ n) d)" using assms(2) by (simp add: only_replicas_def)
  then show ?case using replace_replica_step Suc by (auto intro: only_replicas_trans)
qed (simp add: assms(1))

lemma restore_replicas_step:
  assumes "agent_inv d"
  shows "agent_inv (restore_replicas w d i) \<and> only_replicas d (restore_replicas w d i)"
proof (cases "find (\<lambda>a. ag_id a = i) (agents d)")
  case (Some ag)
  then have "ag_id ag \<in> agent_ids d" by (auto simp: find_Some_iff)
  then show ?thesis using replace_replicas_step [OF assms, of ag] Some by (simp add: restore_replicas_def Let_def)
qed (simp add: restore_replicas_def assms)

lemma health_step:
  assumes i: "agent_inv d"
  shows "agent_inv (check_replica_health w d)" "only_replicas d (check_replica_health w d)"
proof -
  have f: "agent_inv (foldl (restore_replicas w) x ids) \<and> only_replicas x (foldl (restore_replicas w) x ids)"
    if "agent_inv x" for x ids
    using that
  proof (induction ids arbitrary: x)
    case (Cons i ids)
    then show ?case using restore_replicas_step [OF Cons.prems, of w i] Cons.IH by (auto intro: only_replicas_trans)
  qed simp
  define d1 where "d1 = d\<lparr>replicas := map (\<lambda>r. if stale_replica w d r then r\<lparr>rp_status := ''error''\<rparr> else r) (replicas d)\<rparr>"
  have "agent_inv d1" unfolding d1_def
    by (rule inv_replicas [OF i]) (use i in \<open>auto simp: agent_inv_def list_all_iff REPLICA_STATUSES_def\<close>)
  note r = f [OF this, of "remdups (map rp_agent_id (filter (stale_replica w d) (replicas d)))"]
  have "only_replicas d d1" by (simp add: only_replicas_def d1_def)
  then show "agent_inv (check_replica_health w d)" "only_replicas d (check_replica_health w d)"
    using r only_replicas_trans unfolding check_replica_health_def Let_def d1_def [symmetric] by blast+
qed

lemma health_quiet: "quiet_but ids d \<Longrightarrow> quiet_but ids (check_replica_health w d)"
  using health_step [of d w] by (simp add: quiet_but_def only_replicas_def)

section \<open>Requests and jobs\<close>

text \<open>A request neither creates a job nor changes the state of one.\<close>

definition no_new_jobs :: "agent_db \<Rightarrow> agent_db \<Rightarrow> bool" where
  "no_new_jobs d d' \<longleftrightarrow> (\<lambda>j. (jb_id j, jb_status j)) ` set (jobs d') \<subseteq> (\<lambda>j. (jb_id j, jb_status j)) ` set (jobs d)"

lemma no_new_jobs_same: "jobs d' = jobs d \<Longrightarrow> no_new_jobs d d'"
  by (simp add: no_new_jobs_def)

lemma jobs_create_replicas: "iter_res k (create_replica h ag) d = Inr d' \<Longrightarrow> jobs d' = jobs d"
proof (induction k arbitrary: d)
  case (Suc k)
  then obtain d1 where d1: "create_replica h ag d = Inr d1" "iter_res k (create_replica h ag) d1 = Inr d'" by auto
  have "jobs d1 = jobs d" using d1(1) by (auto simp: create_replica_def)
  then show ?case using Suc.IH [OF d1(2)] by simp
qed simp

lemma jobs_each: "each_replica P f d = Inr d' \<Longrightarrow> jobs d' = jobs d"
  by (auto simp: each_replica_def)

lemma jobs_restatus [simp]: "jobs (restatus i d) = jobs d" "jobs (set_agent i f d) = jobs d"
  by (simp_all add: restatus_def set_agent_def)

lemma jobs_delete:
  "no_new_jobs d (delete_agents g d)" "no_new_jobs d (delete_namespace n d)" "no_new_jobs d (delete_replicas g d)"
  by (auto simp: no_new_jobs_def delete_agents_def delete_namespace_def delete_replicas_def Let_def)

lemma no_new_jobs_trans: "no_new_jobs d d1 \<Longrightarrow> no_new_jobs d1 d2 \<Longrightarrow> no_new_jobs d d2"
  unfolding no_new_jobs_def by (rule order_trans)

lemma jobs_exec:
  assumes "agent_exec r d = Inr d'"
  shows "no_new_jobs d d'"
proof (cases r)
  case (ADestroy h acc name)
  then obtain ag :: agent_row and ns :: "namespace_row option" where "d' = (case ns of None \<Rightarrow> delete_agents [ag_id ag] d
      | Some n \<Rightarrow> delete_namespace (ns_id n) (delete_agents [ag_id ag] d))"
    using assms by (auto simp: destroy_agent_def Let_def)
  then show ?thesis using jobs_delete(1) [of d "[ag_id ag]"] no_new_jobs_trans [OF jobs_delete(1) jobs_delete(2)]
    by (cases ns) simp_all
next
  case (ACreate h acc tier name disp)
  then show ?thesis using assms jobs_create_replicas [of 1 h]
    by (auto simp: create_agent_def Let_def intro!: no_new_jobs_same split: if_splits)
next
  case (AScale h acc name n tier)
  have del: "no_new_jobs d (restatus i (delete_replicas g (set_agent k f d)))" for i g k f
    using jobs_delete(3) [of "set_agent k f d" g] by (simp add: no_new_jobs_def)
  show ?thesis using assms AScale
    by (auto simp: scale_agent_def Let_def dest!: jobs_create_replicas intro: del no_new_jobs_same split: if_splits)
next
  case (AStart h acc name rn)
  then show ?thesis using assms
    by (auto simp: start_agent_def intro!: no_new_jobs_same dest!: jobs_each split: if_splits)
next
  case (AStop h acc name rn)
  then show ?thesis using assms
    by (auto simp: stop_agent_def intro!: no_new_jobs_same dest!: jobs_each split: if_splits)
next
  case (AForceRestart h acc j)
  then show ?thesis using assms by (auto intro!: no_new_jobs_same dest!: force_restart_Inr)
next
  case (AConfigureAi h acc name e m k p c)
  then show ?thesis using assms
    by (auto simp: configure_ai_def Let_def trigger_rolling_restart_if_clustered_def rolling_restart_def
        intro!: no_new_jobs_same dest!: jobs_each split: if_splits)
next
  case (ASetState h acc name key v tier)
  then show ?thesis using assms
    by (auto simp: set_state_def Let_def intro!: no_new_jobs_same split: if_splits option.splits)
next
  case (AClone h acc src name tier)
  then show ?thesis using assms
    by (auto simp: clone_agent_def Let_def intro!: no_new_jobs_same split: if_splits)
next
  case (ARemoveSchedule acc name i)
  then show ?thesis using assms by (auto simp: remove_schedule_def no_new_jobs_def)
qed (use assms in \<open>auto simp: add_schedule_def add_webhook_def remove_webhook_def delete_state_def
      remove_ai_def generate_chat_token_def revoke_chat_token_def add_channel_def remove_channel_def
      configure_mcp_servers_def remove_mcp_servers_def Let_def intro!: no_new_jobs_same split: if_splits\<close>)

section \<open>Every run of the machine\<close>

definition machine_ok :: "machine \<Rightarrow> bool" where
  "machine_ok m \<longleftrightarrow> quiet_but (set (in_flight m) \<union> set (sm_lost m)) (sm_db m)
     \<and> list_all (\<lambda>(j, p). task_prog j 7 p) (sm_tasks m) \<and> (sm_phase m \<noteq> Gathering \<longrightarrow> sm_tasks m = [])"

lemma in_flight_iff: "i \<in> set (in_flight m) \<longleftrightarrow> Some i \<in> fst ` set (sm_tasks m)"
  by (force simp: in_flight_def in_map_filter)

lemma quiet_but_mono: "quiet_but ids d \<Longrightarrow> ids \<subseteq> ids' \<Longrightarrow> quiet_but ids' d"
  by (auto simp: quiet_but_def)

lemma quiet_request:
  assumes "quiet_but ids d"
  shows "quiet_but ids (agent_request d r)"
proof (cases "agent_exec r d")
  case (Inr d')
  then have i: "agent_inv d'" and n: "no_new_jobs d d'" using assms agent_inv_exec jobs_exec by (auto simp: quiet_but_def)
  have "quiet j \<or> jb_id j \<in> ids" if j: "j \<in> set (jobs d')" for j
  proof -
    have "(jb_id j, jb_status j) \<in> (\<lambda>j. (jb_id j, jb_status j)) ` set (jobs d)" using n j by (auto simp: no_new_jobs_def)
    then obtain x where "x \<in> set (jobs d)" "jb_id x = jb_id j" "jb_status x = jb_status j" by auto
    then show ?thesis using assms by (auto simp: quiet_but_def quiet_def)
  qed
  then show ?thesis using Inr i by (simp add: quiet_but_def agent_request_def)
qed (use assms in \<open>simp add: agent_request_def\<close>)

lemma quiet_initialize:
  assumes "quiet_but ids d"
  shows "quiet_but ids (initialize_next_run_times w d)"
proof -
  define f where "f = (\<lambda>s :: schedule_row. if sc_enabled s
         then (case next_run w s of Inl _ \<Rightarrow> s | Inr t \<Rightarrow> s\<lparr>sc_next_run_at := Some t\<rparr>) else s)"
  have k: "map (\<lambda>s. (sc_id s, sc_agent_id s, sc_id s)) (map f (schedules d)) = map (\<lambda>s. (sc_id s, sc_agent_id s, sc_id s)) (schedules d)"
    by (auto simp: f_def split: sum.splits)
  have k1: "map sc_id (map f (schedules d)) = map sc_id (schedules d)"
    using arg_cong [OF k, of "map fst"] by (simp add: comp_def)
  have "agent_inv (d\<lparr>schedules := map f (schedules d)\<rparr>)"
    using assms unfolding quiet_but_def agent_inv_def by (simp add: rows_ok_same [OF k] k1 del: map_map set_map)
  then show ?thesis using assms by (simp add: quiet_but_def initialize_next_run_times_def f_def)
qed

lemma tasks_for_ok: "list_all (\<lambda>(j, p). task_prog j 7 p) (tasks_for claimed beats)"
proof -
  have beat: "task_prog None 7 p" if "execute_heartbeat a = p" "p \<noteq> Stop" for a p
    using heartbeat_prog [of a] that task_prog_mono [of 2 7 None p] by auto
  have job: "task_prog (Some (fst c)) 7 p" if "execute_claimed_job c = p" for c p
    using claimed_job_prog [of c] that by simp
  show ?thesis unfolding tasks_for_def list_all_iff
    by (auto intro: beat job split: prog.splits simp del: execute_claimed_job.simps dest!: job)
qed

lemma tasks_for_jobs: "set (in_flight (m\<lparr>sm_tasks := tasks_for claimed beats\<rparr>)) = fst ` set claimed"
proof -
  have "execute_claimed_job c \<noteq> Stop" for c by (cases c) simp
  then show ?thesis by (force simp: in_flight_iff tasks_for_def image_iff split: prog.splits)
qed

lemma loop_step_ok:
  assumes m: "machine_ok m"
  shows "machine_ok (loop_step w m)"
proof (cases "sm_phase m")
  case (Creating t due beats)
  have none: "sm_tasks m = []" using m Creating by (simp add: machine_ok_def)
  show ?thesis
  proof (cases "create_scheduled_jobs w t due (sm_db m)")
    case (Inr d1)
    have "quiet_but (set (sm_lost m)) d1"
      using m none create_scheduled_jobs_quiet [OF _ Inr] by (simp add: machine_ok_def in_flight_def)
    then show ?thesis using none Creating Inr by (simp add: loop_step_def machine_ok_def in_flight_def)
  qed (use m none Creating in \<open>simp add: loop_step_def machine_ok_def in_flight_def\<close>)
next
  case (Claiming beats)
  have none: "sm_tasks m = []" using m Claiming by (simp add: machine_ok_def)
  obtain d1 cl where c: "claim_pending_jobs w (sm_db m) = (d1, cl)" by fastforce
  have "quiet_but (fst ` set cl \<union> set (sm_lost m)) d1"
    using m none claim_quiet [OF _ c] by (simp add: machine_ok_def in_flight_def)
  then show ?thesis using Claiming c tasks_for_ok tasks_for_jobs [where m = "m\<lparr>sm_db := d1, sm_phase := Gathering\<rparr>" and claimed = cl and beats = beats]
    by (simp add: loop_step_def machine_ok_def)
next
  case Reaping
  then have "sm_tasks m = []" using m by (simp add: machine_ok_def)
  then show ?thesis using Reaping m reap_settles(1) [of "set (in_flight m) \<union> set (sm_lost m)" "sm_db m" w]
    by (simp add: loop_step_def machine_ok_def in_flight_def)
next
  case Checking
  then have "sm_tasks m = []" using m by (simp add: machine_ok_def)
  then show ?thesis using Checking m health_quiet [of "set (in_flight m) \<union> set (sm_lost m)" "sm_db m" w]
    by (simp add: loop_step_def machine_ok_def in_flight_def)
qed (use m in \<open>auto simp: loop_step_def machine_ok_def in_flight_def Let_def\<close>)

lemma put_task_flight:
  assumes "i < length (sm_tasks m)" "fst (sm_tasks m ! i) = j"
  shows "set (in_flight m) \<subseteq> set (in_flight (put_task i j p m)) \<union> (if p = Stop then {x. j = Some x} else {})"
    and "list_all P (sm_tasks m) \<Longrightarrow> p = Stop \<or> P (j, p) \<Longrightarrow> list_all P (sm_tasks (put_task i j p m))"
proof -
  let ?ts = "sm_tasks m"
  have split: "?ts = take i ?ts @ ?ts ! i # drop (Suc i) ?ts" using assms(1) by (simp add: id_take_nth_drop)
  have upd: "?ts[i := x] = take i ?ts @ x # drop (Suc i) ?ts" for x using assms(1) by (simp add: upd_conv_take_nth_drop)
  have "x \<in> fst ` set ?ts \<longleftrightarrow> x \<in> fst ` set (take i ?ts) \<or> x = j \<or> x \<in> fst ` set (drop (Suc i) ?ts)" for x
    by (subst split) (auto simp: assms(2))
  then show "set (in_flight m) \<subseteq> set (in_flight (put_task i j p m)) \<union> (if p = Stop then {x. j = Some x} else {})"
    by (cases p) (auto simp: in_flight_iff put_task_def upd simp del: set_update_subset_insert)
  show "list_all P (sm_tasks (put_task i j p m))" if "list_all P ?ts" "p = Stop \<or> P (j, p)"
  proof -
    have "list_all P (take i ?ts) \<and> list_all P (drop (Suc i) ?ts)"
      using that(1) by (auto simp: list_all_iff dest: in_set_takeD in_set_dropD)
    then show ?thesis using that(2) by (cases p) (simp_all add: put_task_def upd)
  qed
qed

lemma task_step_ok:
  assumes m: "machine_ok m"
  shows "machine_ok (task_step w i m)"
proof (cases "task_ready i m")
  case True
  then have i: "i < length (sm_tasks m)" by (simp add: task_ready_def)
  obtain j q where t: "sm_tasks m ! i = (j, q)" by fastforce
  have "(j, q) \<in> set (sm_tasks m)" using i t by (metis nth_mem)
  then have "task_prog j (Suc 6) q" using m by (auto simp: machine_ok_def list_all_iff)
  then obtain f h where q: "q = Tx f h"
    and tx: "task_tx j d (fst (f w d)) \<and> (if snd (f w d) = Stop then closed j (fst (f w d)) else task_prog j 6 (snd (f w d)))" for d
    unfolding task_prog.simps(2) by blast
  obtain d' p where d': "f w (sm_db m) = (d', p)" by fastforce
  define m' where "m' = put_task i j p (m\<lparr>sm_db := d'\<rparr>)"
  have step: "task_step w i m = m'" using True t q d' by (simp add: task_step_def m'_def)
  have fl: "set (in_flight m) \<subseteq> set (in_flight m') \<union> (if p = Stop then {x. j = Some x} else {})"
    and ps: "list_all (\<lambda>(j, p). task_prog j 7 p) (sm_tasks m')"
    using put_task_flight [where i = i and m = "m\<lparr>sm_db := d'\<rparr>" and j = j and p = p] i t m tx [of "sm_db m"] d' task_prog_mono [of 6 7 j p]
    by (auto simp: m'_def machine_ok_def in_flight_def split: if_splits)
  have jf: "{x. j = Some x} \<subseteq> set (in_flight m)" using \<open>(j, q) \<in> set (sm_tasks m)\<close> by (force simp: in_flight_iff)
  have "quiet x \<or> jb_id x \<in> set (in_flight m') \<union> set (sm_lost m)" if x: "x \<in> set (jobs d')" for x
  proof (cases "Some (jb_id x) = j")
    case True
    then show ?thesis using tx [of "sm_db m"] d' x fl jf by (auto simp: closed_def quiet_def split: if_splits)
  next
    case False
    then have "x \<in> set (jobs (sm_db m))" using tx [of "sm_db m"] d' x by (auto simp: task_tx_def)
    then show ?thesis using m fl False by (auto simp: machine_ok_def quiet_but_def split: if_splits)
  qed
  moreover have "agent_inv d'" using tx [of "sm_db m"] d' m by (simp add: task_tx_def machine_ok_def quiet_but_def)
  ultimately have "quiet_but (set (in_flight m') \<union> set (sm_lost m')) (sm_db m')" by (simp add: quiet_but_def m'_def put_task_def)
  moreover have "sm_phase m' = Gathering" using m i by (auto simp: machine_ok_def m'_def put_task_def)
  ultimately show ?thesis using ps unfolding step by (simp add: machine_ok_def)
qed (use m in \<open>simp add: task_step_def\<close>)

lemma task_fault_ok:
  assumes m: "machine_ok m"
  shows "machine_ok (task_fault i m)"
proof (cases "task_ready i m")
  case True
  then have i: "i < length (sm_tasks m)" by (simp add: task_ready_def)
  obtain j q where t: "sm_tasks m ! i = (j, q)" by fastforce
  have "(j, q) \<in> set (sm_tasks m)" using i t by (metis nth_mem)
  then have "task_prog j (Suc 6) q" using m by (auto simp: machine_ok_def list_all_iff)
  then obtain f h where q: "q = Tx f h" and h: "h = Stop \<or> task_prog j 6 h" unfolding task_prog.simps(2) by blast
  define lost where "lost = sm_lost m @ (case (h, j) of (Stop, Some job) \<Rightarrow> [job] | _ \<Rightarrow> [])"
  define m' where "m' = put_task i j h (m\<lparr>sm_lost := lost\<rparr>)"
  have step: "task_fault i m = m'" using True t q by (simp add: task_fault_def m'_def lost_def)
  have fl: "set (in_flight m) \<subseteq> set (in_flight m') \<union> (if h = Stop then {x. j = Some x} else {})"
    and ps: "list_all (\<lambda>(j, p). task_prog j 7 p) (sm_tasks m')"
    using put_task_flight [where i = i and m = "m\<lparr>sm_lost := lost\<rparr>" and j = j and p = h] i t m h task_prog_mono [of 6 7 j h]
    by (auto simp: m'_def machine_ok_def in_flight_def)
  have "set (in_flight m) \<union> set (sm_lost m) \<subseteq> set (in_flight m') \<union> set lost"
    using fl by (auto simp: lost_def split: if_splits)
  then have "quiet_but (set (in_flight m') \<union> set lost) (sm_db m)"
    using m quiet_but_mono by (auto simp: machine_ok_def)
  moreover have "sm_phase m' = Gathering" "sm_db m' = sm_db m" "sm_lost m' = lost"
    using m i by (auto simp: machine_ok_def m'_def put_task_def)
  ultimately show ?thesis using ps unfolding step by (simp add: machine_ok_def)
qed (use m in \<open>simp add: task_fault_def\<close>)

lemma machine_step_ok: "machine_ok m \<Longrightarrow> machine_ok (machine_step m e)"
proof (cases e)
  case (Request r)
  then show "machine_ok m \<Longrightarrow> ?thesis" using quiet_request by (simp add: machine_ok_def in_flight_def)
next
  case LoopFault
  then show "machine_ok m \<Longrightarrow> ?thesis" by (auto simp: machine_ok_def loop_fault_def in_flight_def split: phase.splits)
next
  case (Restart w)
  then show "machine_ok m \<Longrightarrow> ?thesis" using quiet_initialize quiet_but_mono
    by (auto simp: machine_ok_def restart_def in_flight_def Un_commute)
qed (simp_all add: loop_step_ok task_step_ok task_fault_ok)

lemma machine_run_ok: "machine_ok m \<Longrightarrow> machine_ok (foldl machine_step m es)"
  by (induction es arbitrary: m) (simp_all add: machine_step_ok)

text \<open>Nothing is lost unless a transaction of a task fails or the process is restarted.\<close>

fun undisturbed :: "sched_event \<Rightarrow> bool" where
  "undisturbed (TaskFault i) = False"
| "undisturbed (Restart w) = False"
| "undisturbed _ = True"

lemma undisturbed_lost: "list_all undisturbed es \<Longrightarrow> sm_lost (foldl machine_step m es) = sm_lost m"
proof (induction es arbitrary: m)
  case (Cons e es)
  have "sm_lost (machine_step m e) = sm_lost m" using Cons.prems
    by (cases e) (auto simp: loop_step_def loop_fault_def task_step_def put_task_def Let_def split: phase.splits sum.splits prod.splits prog.splits)
  then show ?case using Cons by simp
qed simp

text \<open>A program that ends after at most so many transactions, whatever they find and whichever of them fail.\<close>

primrec ends_within :: "nat \<Rightarrow> prog \<Rightarrow> bool" where
  "ends_within 0 p = (p = Stop)"
| "ends_within (Suc n) p = (case p of Stop \<Rightarrow> True | Tx f h \<Rightarrow> (\<forall>w d. ends_within n (snd (f w d))) \<and> ends_within n h)"

lemma ends_within_Stop [simp]: "ends_within n Stop"
  by (cases n) simp_all

lemma task_prog_ends: "task_prog j n p \<Longrightarrow> ends_within n p"
proof (induction n arbitrary: p)
  case (Suc n)
  then obtain f h where p: "p = Tx f h" "h = Stop \<or> task_prog j n h"
    "\<And>w d. snd (f w d) = Stop \<or> task_prog j n (snd (f w d))"
    by (auto simp: task_prog.simps split: if_splits)
  have "ends_within n h" using p(2) Suc.IH by auto
  moreover have "ends_within n (snd (f w d))" for w d using p(3) [of w d] Suc.IH by auto
  ultimately show ?case using p(1) by simp
qed (simp add: task_prog.simps)

section \<open>An uninterrupted round\<close>

text \<open>One of the runs of the machine is the round in which nothing intervenes.\<close>

lemma drive_task:
  "sm_tasks m = (j, p) # ts \<Longrightarrow> p \<noteq> Stop \<Longrightarrow>
   \<exists>n. foldl machine_step m (replicate n (Task w 0)) = m\<lparr>sm_db := run_prog p w (sm_db m), sm_tasks := ts\<rparr>"
proof (induction p arbitrary: m)
  case (Tx f h)
  obtain d' q where d': "f w (sm_db m) = (d', q)" by fastforce
  have ready: "task_ready 0 m" using Tx.prems(1) by (simp add: task_ready_def MAX_CONCURRENT_EXECUTIONS_def)
  have step: "machine_step m (Task w 0) = put_task 0 j q (m\<lparr>sm_db := d'\<rparr>)"
    using Tx.prems(1) ready d' by (simp add: task_step_def)
  have run: "run_prog (Tx f h) w (sm_db m) = run_prog q w d'" using d' by simp
  show ?case
  proof (cases "q = Stop")
    case True
    then show ?thesis using step run Tx.prems(1) by (intro exI [of _ 1]) (simp add: put_task_def)
  next
    case False
    define m1 where "m1 = machine_step m (Task w 0)"
    have m1: "m1 = m\<lparr>sm_db := d', sm_tasks := (j, q) # ts\<rparr>"
      unfolding m1_def step using Tx.prems(1) False by (cases q) (simp_all add: put_task_def)
    have "q \<in> Basic_BNFs.snds (f w (sm_db m))" using d' by (simp add: snds.simps)
    then have "\<exists>n. foldl machine_step m1 (replicate n (Task w 0)) = m1\<lparr>sm_db := run_prog q w (sm_db m1), sm_tasks := ts\<rparr>"
      by (intro Tx.IH(1) [of "f w" "f w (sm_db m)" q m1]) (simp_all add: False m1)
    then obtain n where "foldl machine_step m1 (replicate n (Task w 0)) = m1\<lparr>sm_db := run_prog q w (sm_db m1), sm_tasks := ts\<rparr>" ..
    moreover have "task_step w 0 m = m1" by (simp add: m1_def)
    ultimately show ?thesis unfolding run by (intro exI [of _ "Suc n"]) (simp add: m1)
  qed
qed simp

lemma drive_tasks:
  "list_all (\<lambda>(j, p). p \<noteq> Stop) (sm_tasks m) \<Longrightarrow>
   \<exists>n. foldl machine_step m (replicate n (Task w 0))
       = m\<lparr>sm_db := foldl (\<lambda>d p. run_prog p w d) (sm_db m) (map snd (sm_tasks m)), sm_tasks := []\<rparr>"
proof (induction "sm_tasks m" arbitrary: m)
  case Nil
  then show ?case by (intro exI [of _ 0]) simp
next
  case (Cons t ts)
  obtain j p where t: "t = (j, p)" by (cases t)
  have ts: "sm_tasks m = (j, p) # ts" using Cons.hyps(2) t by simp
  define m1 where "m1 = m\<lparr>sm_db := run_prog p w (sm_db m), sm_tasks := ts\<rparr>"
  obtain n where n: "foldl machine_step m (replicate n (Task w 0)) = m1"
    using drive_task [OF ts, of w] Cons.prems ts unfolding m1_def by auto
  obtain k where k: "foldl machine_step m1 (replicate k (Task w 0))
       = m1\<lparr>sm_db := foldl (\<lambda>d p. run_prog p w d) (sm_db m1) (map snd (sm_tasks m1)), sm_tasks := []\<rparr>"
    using Cons.hyps(1) [of m1] Cons.prems ts by (auto simp: m1_def)
  have "foldl machine_step m (replicate (n + k) (Task w 0))
      = m\<lparr>sm_db := foldl (\<lambda>d p. run_prog p w d) (sm_db m) (map snd (sm_tasks m)), sm_tasks := []\<rparr>"
    using n k by (simp add: replicate_add ts m1_def)
  then show ?case by blast
qed

lemma run_tasks_for:
  "foldl (\<lambda>d p. run_prog p w d) d (map snd (tasks_for claimed beats))
   = foldl (\<lambda>d p. run_prog p w d) d (map execute_claimed_job claimed @ map execute_heartbeat beats)"
proof -
  have "foldl (\<lambda>d p. run_prog p w d) d (map snd (filter (\<lambda>(j, p). case p of Stop \<Rightarrow> False | Tx _ _ \<Rightarrow> True) ts))
      = foldl (\<lambda>d p. run_prog p w d) d (map snd ts)" for d and ts :: "task list"
  proof (induction ts arbitrary: d)
    case (Cons t ts)
    then show ?case by (cases t; cases "snd t") simp_all
  qed simp
  then show ?thesis unfolding tasks_for_def by (simp add: comp_def del: filter_append map_append) (simp add: comp_def)
qed

lemma tick_is_run:
  "\<exists>es. set es \<subseteq> {Loop w, Task w 0} \<and> foldl machine_step (idle d) es = idle (tick w d)"
proof (cases "create_scheduled_jobs w (sw_now w) (due_schedules w d) d")
  case (Inl e)
  then have "due_schedules w d \<noteq> []" by auto
  then have "foldl machine_step (idle d) (replicate 4 (Loop w)) = idle (tick w d)"
    using Inl by (simp add: numeral_eq_Suc loop_step_def idle_def tick_def poll_and_execute_def Let_def)
  then show ?thesis by (intro exI [of _ "replicate 4 (Loop w)"]) auto
next
  case (Inr d1)
  obtain d2 cl where c: "claim_pending_jobs w d1 = (d2, cl)" by fastforce
  let ?ts = "tasks_for cl (due_heartbeats w d)"
  define m where "m = (idle d2)\<lparr>sm_phase := Gathering, sm_tasks := ?ts\<rparr>"
  have m: "foldl machine_step (idle d) (replicate 3 (Loop w)) = m"
    using Inr c by (simp add: numeral_eq_Suc loop_step_def idle_def m_def Let_def)
  define d3 where "d3 = foldl (\<lambda>d p. run_prog p w d) d2 (map snd ?ts)"
  have "list_all (\<lambda>(j, p). p \<noteq> Stop) ?ts" by (auto simp: tasks_for_def list_all_iff split: prog.splits)
  then obtain n where n: "foldl machine_step m (replicate n (Task w 0)) = (idle d3)\<lparr>sm_phase := Gathering\<rparr>"
    using drive_tasks [of m w] by (auto simp: m_def d3_def idle_def)
  have p: "fst (poll_and_execute w d) = d3"
    using Inr c unfolding poll_and_execute_def Let_def d3_def run_tasks_for by (cases "due_schedules w d = []") simp_all
  have "foldl machine_step ((idle d3)\<lparr>sm_phase := Gathering\<rparr>) (replicate 3 (Loop w)) = idle (tick w d)"
    by (simp add: numeral_eq_Suc loop_step_def idle_def tick_def p Let_def)
  then have "foldl machine_step (idle d) (replicate 3 (Loop w) @ replicate n (Task w 0) @ replicate 3 (Loop w)) = idle (tick w d)"
    by (simp only: foldl_append m n)
  then show ?thesis by (intro exI [of _ "replicate 3 (Loop w) @ replicate n (Task w 0) @ replicate 3 (Loop w)"]) auto
qed

section \<open>Jobs that are lost\<close>

text \<open>
  A job that is claimed or running while no task of the process is for it is never touched again: the claim takes pending jobs, and
  so does the reaper.
\<close>

definition stuck :: "nat \<Rightarrow> machine \<Rightarrow> bool" where
  "stuck i m \<longleftrightarrow> i \<notin> set (in_flight m) \<and> (\<exists>j\<in>set (jobs (sm_db m)). jb_id j = i \<and> jb_status j \<in> {''claimed'', ''running''})"

lemma create_jobs_kept: "create_scheduled_jobs w t due d = Inr d' \<Longrightarrow> set (jobs d) \<subseteq> set (jobs d')"
proof (induction due arbitrary: d)
  case (Cons s due)
  obtain d1 where d1: "create_job w t s d = Inr d1" "create_scheduled_jobs w t due d1 = Inr d'" using Cons.prems by auto
  have f: "set (jobs d) \<subseteq> set (jobs (foldl (\<lambda>d r. new_job w t s r d) d rs))" for rs d
    by (induction rs arbitrary: d) (fastforce simp: new_job_def)+
  have "set (jobs d) \<subseteq> set (jobs d1)"
    using d1(1) f [of d "job_replicas s d"] by (auto simp: create_job_def set_schedule_def split: if_splits)
  then show ?case using Cons.IH [OF d1(2)] by blast
qed simp

lemma claims_skip:
  assumes "\<forall>x\<in>set js. jb_id x \<noteq> jb_id j"
  shows "foldl (claim_job w) (d, cl) js = (d', cl') \<Longrightarrow> j \<in> set (jobs d) \<Longrightarrow> jb_id j \<notin> fst ` set cl \<Longrightarrow>
    j \<in> set (jobs d') \<and> jb_id j \<notin> fst ` set cl'"
  using assms
proof (induction js arbitrary: d cl)
  case (Cons x js)
  obtain d1 cl1 where c: "claim_job w (d, cl) x = (d1, cl1)" by fastforce
  have "j \<in> set (jobs d1) \<and> jb_id j \<notin> fst ` set cl1"
    using c Cons.prems by (auto simp: set_job_def update_row_def image_iff split: option.splits)
  then show ?case using Cons.IH [of d1 cl1] Cons.prems(1,4) c by simp
qed simp

lemma claim_skips:
  assumes "agent_inv d" "j \<in> set (jobs d)" "jb_status j \<noteq> ''pending''" "claim_pending_jobs w d = (d', cl)"
  shows "j \<in> set (jobs d') \<and> jb_id j \<notin> fst ` set cl"
proof -
  have d: "distinct (map jb_id (jobs d))" using assms(1) by (simp add: agent_inv_def rows_ok_def)
  have "jb_id x \<noteq> jb_id j" if "x \<in> set (claimable d)" for x
  proof -
    have "x \<in> set (jobs d)" "jb_status x = ''pending''" using that by (auto simp: claimable_def dest!: in_set_takeD)
    then show ?thesis using distinct_key_unique [OF d, of x j] assms(2,3) by auto
  qed
  then show ?thesis using claims_skip [of "claimable d" j w d "[]" d' cl] assms(2,4) by (simp add: claim_pending_jobs_def)
qed

lemma put_task_sub:
  assumes "i < length (sm_tasks m)" "fst (sm_tasks m ! i) = j"
  shows "set (in_flight (put_task i j p m)) \<subseteq> set (in_flight m)"
proof -
  let ?ts = "sm_tasks m"
  have upd: "?ts[i := x] = take i ?ts @ x # drop (Suc i) ?ts" for x using assms(1) by (simp add: upd_conv_take_nth_drop)
  have "j \<in> fst ` set ?ts" using assms by (metis image_eqI nth_mem)
  moreover have "fst ` set (take i ?ts) \<subseteq> fst ` set ?ts" "fst ` set (drop (Suc i) ?ts) \<subseteq> fst ` set ?ts"
    by (simp_all add: image_mono set_take_subset set_drop_subset)
  ultimately show ?thesis by (cases p) (simp_all add: subset_iff in_flight_iff put_task_def upd, blast+)
qed

lemma stuck_task:
  assumes m: "machine_ok m" and st: "stuck i m"
  shows "stuck i (task_step w k m)" "stuck i (task_fault k m)"
proof -
  have "stuck i (task_step w k m) \<and> stuck i (task_fault k m)"
  proof (cases "task_ready k m")
    case True
    then have k: "k < length (sm_tasks m)" by (simp add: task_ready_def)
    obtain j q where t: "sm_tasks m ! k = (j, q)" by fastforce
    have jq: "(j, q) \<in> set (sm_tasks m)" using k t by (metis nth_mem)
    then have "task_prog j (Suc 6) q" using m by (auto simp: machine_ok_def list_all_iff)
    then obtain f h where q: "q = Tx f h" and tx: "task_tx j d (fst (f w d))" for d unfolding task_prog.simps(2) by blast
    obtain d' p where d': "f w (sm_db m) = (d', p)" by fastforce
    have i: "Some i \<noteq> j" using st jq by (force simp: stuck_def in_flight_iff)
    have sub: "set (in_flight (put_task k j p (m\<lparr>sm_db := d'\<rparr>))) \<subseteq> set (in_flight m)"
      "set (in_flight (put_task k j h (m\<lparr>sm_lost := l\<rparr>))) \<subseteq> set (in_flight m)" for l
      using put_task_sub [where m = "m\<lparr>sm_db := d'\<rparr>" and i = k and j = j and p = p]
        put_task_sub [where m = "m\<lparr>sm_lost := l\<rparr>" and i = k and j = j and p = h] k t by (simp_all add: in_flight_def)
    have "\<exists>x\<in>set (jobs d'). jb_id x = i \<and> jb_status x \<in> {''claimed'', ''running''}"
      using st i tx [of "sm_db m"] d' by (fastforce simp: stuck_def task_tx_def)
    then show ?thesis using True t q d' sub st by (auto simp: task_step_def task_fault_def stuck_def put_task_def)
  qed (use st in \<open>simp add: task_step_def task_fault_def\<close>)
  then show "stuck i (task_step w k m)" "stuck i (task_fault k m)" by simp_all
qed

lemma stuck_loop:
  assumes m: "machine_ok m" and st: "stuck i m"
  shows "stuck i (loop_step w m)"
proof -
  obtain j where j: "j \<in> set (jobs (sm_db m))" "jb_id j = i" "jb_status j \<in> {''claimed'', ''running''}" "i \<notin> set (in_flight m)"
    using st by (auto simp: stuck_def)
  have np: "jb_status j \<noteq> ''pending''" using j(3) by auto
  show ?thesis
  proof (cases "sm_phase m")
    case (Claiming beats)
    obtain d1 cl where c: "claim_pending_jobs w (sm_db m) = (d1, cl)" by fastforce
    have "j \<in> set (jobs d1) \<and> i \<notin> fst ` set cl"
      using claim_skips [OF _ j(1) np c] m j(2) by (simp add: machine_ok_def quiet_but_def)
    then show ?thesis using Claiming c j(2,3)
        tasks_for_jobs [where m = "m\<lparr>sm_db := d1, sm_phase := Gathering\<rparr>" and claimed = cl and beats = beats]
      by (auto simp: loop_step_def stuck_def)
  next
    case (Creating t due beats)
    then show ?thesis using j create_jobs_kept [of w t due "sm_db m"]
      by (auto simp: loop_step_def stuck_def in_flight_def split: sum.splits)
  next
    case Reaping
    have "j \<in> set (jobs (reap_stale_jobs w (sm_db m)))" using j(1) np by (force simp: reap_stale_jobs_def stale_job_def)
    then show ?thesis using Reaping j by (auto simp: loop_step_def stuck_def in_flight_def)
  next
    case Checking
    have "jobs (check_replica_health w (sm_db m)) = jobs (sm_db m)"
      using health_step(2) [of "sm_db m" w] m by (simp add: machine_ok_def quiet_but_def only_replicas_def)
    then show ?thesis using Checking st by (simp add: loop_step_def stuck_def in_flight_def)
  qed (use st in \<open>auto simp: loop_step_def stuck_def in_flight_def Let_def\<close>)
qed

fun is_request :: "sched_event \<Rightarrow> bool" where
  "is_request (Request r) = True"
| "is_request _ = False"

lemma stuck_for_good: "machine_ok m \<Longrightarrow> stuck i m \<Longrightarrow> list_all (\<lambda>e. \<not> is_request e) es \<Longrightarrow> stuck i (foldl machine_step m es)"
proof (induction es arbitrary: m)
  case (Cons e es)
  have "stuck i (machine_step m e)"
  proof (cases e)
    case LoopFault
    then show ?thesis using Cons.prems(2) by (auto simp: loop_fault_def stuck_def in_flight_def split: phase.splits)
  next
    case (Restart w)
    then show ?thesis using Cons.prems(2) by (auto simp: restart_def stuck_def in_flight_def initialize_next_run_times_def)
  qed (use Cons.prems stuck_loop stuck_task in \<open>simp_all\<close>)
  then show ?case using Cons machine_step_ok by simp
qed simp

section \<open>Properties\<close>

lemma idle_ok: "agent_inv d \<Longrightarrow> list_all quiet (jobs d) \<Longrightarrow> machine_ok (idle d)"
  by (simp add: machine_ok_def idle_def quiet_but_def list_all_iff)

text \<open>
  C8: However the transactions of the scheduler, of its tasks and of the requests follow each other, whichever of them the
  database fails, whenever the process is restarted, and whatever the container daemon, the backends and the orchestrations answer,
  the tables stay consistent, and every job that is not pending, complete or failed is either in flight in a task of the process or
  was lost: it was in flight at a restart, or the last write of its status failed. Nothing is lost in a run without restarts and
  without failing transactions of tasks. Every task ends after at most seven transactions. When the loop reaps, every job that was
  not lost is complete, or failed, or it is pending and at most 300 seconds old.
\<close>

theorem scheduler_settles_jobs:
  fixes d es
  defines "m \<equiv> foldl machine_step (idle d) es"
  assumes "agent_inv d" "list_all quiet (jobs d)"
  shows "agent_inv (sm_db m)
    \<and> (\<forall>j\<in>set (jobs (sm_db m)). jb_status j \<in> {''pending'', ''complete'', ''failed''}
         \<or> jb_id j \<in> set (in_flight m) \<or> jb_id j \<in> set (sm_lost m))
    \<and> (list_all undisturbed es \<longrightarrow> sm_lost m = [])
    \<and> (\<forall>(j, p)\<in>set (sm_tasks m). ends_within 7 p)
    \<and> (sm_phase m = Reaping \<longrightarrow> (\<forall>j\<in>set (jobs (sm_db (machine_step m (Loop w)))).
         jb_status j \<in> {''complete'', ''failed''}
         \<or> jb_status j = ''pending'' \<and> sw_now w - 300 \<le> jb_created_at j \<or> jb_id j \<in> set (sm_lost m)))"
proof -
  have ok: "machine_ok m" unfolding m_def by (rule machine_run_ok [OF idle_ok [OF assms(2,3)]])
  have lost: "list_all undisturbed es \<Longrightarrow> sm_lost m = []" using undisturbed_lost [of es "idle d"] by (simp add: m_def idle_def)
  have tasks: "\<forall>(j, p)\<in>set (sm_tasks m). ends_within 7 p"
    using ok task_prog_ends by (fastforce simp: machine_ok_def list_all_iff)
  have reap: "\<forall>j\<in>set (jobs (sm_db (machine_step m (Loop w)))). settled (sw_now w) j \<or> jb_id j \<in> set (sm_lost m)"
    if "sm_phase m = Reaping"
  proof -
    have "sm_tasks m = []" using ok that by (simp add: machine_ok_def)
    then have "quiet_but (set (sm_lost m)) (sm_db m)" using ok by (simp add: machine_ok_def in_flight_def)
    then show ?thesis using reap_settles(2) that by (simp add: loop_step_def)
  qed
  show ?thesis using ok lost tasks reap
    by (auto simp: machine_ok_def quiet_but_def quiet_def settled_def STALE_JOB_TIMEOUT_SECONDS_def)
qed

definition demo_world :: "int \<Rightarrow> sched_world" where
  "demo_world t = \<lparr>sw_host = demo_host\<lparr>h_now := t, h_croniter := (\<lambda>cron _. if cron = ''0 0 1 1 * 0 2026'' then None else Some (t + 60))\<rparr>,
     sw_text = (\<lambda>_. ''not found''), sw_backends = [''code_sandbox''], sw_execute = (\<lambda>_. EOk JNull),
     sw_orchestrate = (\<lambda>_. Inr (True, None)), sw_procedure = (\<lambda>_. Inr ()), sw_heartbeat = (\<lambda>_. Inr (True, None))\<rparr>"

definition demo_schedule :: "string \<Rightarrow> string \<Rightarrow> sched_event" where
  "demo_schedule name cron = Request (AAddSchedule demo_host 8 name ''s.f'' cron ''UTC'' JNull ''pro-agent'' ''direct'' ''single'')"

text \<open>Two agents with a schedule each, of which one has a replica to claim its job, and a round of the scheduler with its only task.\<close>

definition demo_setup :: "sched_event list" where
  "demo_setup = [Request (ACreate demo_host 8 ''pro-agent'' ''bot'' None), demo_schedule ''bot'' ''*/5 * * * *'',
     Request (AClone demo_host 8 ''bot'' ''bot2'' ''pro-agent''), demo_schedule ''bot2'' ''*/5 * * * *'']"

definition demo_round :: "int \<Rightarrow> sched_event list" where
  "demo_round t = replicate 3 (Loop (demo_world t)) @ replicate 7 (Task (demo_world t) 0) @ replicate 3 (Loop (demo_world t))"

definition demo_events :: "sched_event list" where
  "demo_events = demo_setup @ demo_round 200"

text \<open>The process is restarted while the task is under way; the round before the next reaping.\<close>

definition demo_crash :: "sched_event list" where
  "demo_crash = demo_setup @ replicate 3 (Loop (demo_world 200)) @ replicate 2 (Task (demo_world 200) 0) @ [Restart (demo_world 210)]
     @ take 11 (demo_round 600)"

lemma sample_quiet: "list_all quiet (jobs (empty_agent_db sample_db))"
  by (simp add: empty_agent_db_def)

theorem scheduler_settles_jobs_witness:
  "map (\<lambda>j. (jb_id j, jb_status j)) (jobs (sm_db (machine_step (foldl machine_step (idle (empty_agent_db sample_db)) demo_crash)
       (Loop (demo_world 600))))) = [(33, ''running''), (34, ''failed''), (36, ''complete''), (37, ''pending'')]
   \<and> list_all (\<lambda>j. jb_status j \<in> {''complete'', ''failed''} \<or> jb_status j = ''pending'' \<and> 300 \<le> jb_created_at j \<or> jb_id j \<in> set [33])
       (jobs (sm_db (machine_step (foldl machine_step (idle (empty_agent_db sample_db)) demo_crash) (Loop (demo_world 600)))))
   \<and> sm_lost (foldl machine_step (idle (empty_agent_db sample_db)) demo_events) = []"
proof (intro conjI)
  let ?d = "empty_agent_db sample_db"
  show "map (\<lambda>j. (jb_id j, jb_status j)) (jobs (sm_db (machine_step (foldl machine_step (idle ?d) demo_crash)
       (Loop (demo_world 600))))) = [(33, ''running''), (34, ''failed''), (36, ''complete''), (37, ''pending'')]"
    by code_simp
  have c: "let m = foldl machine_step (idle ?d) demo_crash in sm_lost m = [33] \<and> sm_phase m = Reaping" by code_simp
  then have lost: "sm_lost (foldl machine_step (idle ?d) demo_crash) = [33]"
    and ph: "sm_phase (foldl machine_step (idle ?d) demo_crash) = Reaping" unfolding Let_def by blast+
  have t: "sw_now (demo_world 600) - 300 = 300" by (simp add: demo_world_def)
  show "list_all (\<lambda>j. jb_status j \<in> {''complete'', ''failed''} \<or> jb_status j = ''pending'' \<and> 300 \<le> jb_created_at j \<or> jb_id j \<in> set [33])
       (jobs (sm_db (machine_step (foldl machine_step (idle ?d) demo_crash) (Loop (demo_world 600)))))"
    using scheduler_settles_jobs [OF sample_agent_inv sample_quiet, of demo_crash "demo_world 600"] ph
    unfolding t lost list_all_iff by blast
  have "list_all undisturbed demo_events" by code_simp
  then show "sm_lost (foldl machine_step (idle ?d) demo_events) = []"
    using scheduler_settles_jobs [OF sample_agent_inv sample_quiet, of demo_events] by blast
qed

section \<open>A schedule without a next time\<close>

lemma one_or_none_absent: "\<forall>x\<in>set xs. \<not> P x \<Longrightarrow> one_or_none P xs = Inr None"
  by (simp add: one_or_none_def filter_False)

lemma create_job_schedules:
  assumes "create_job w t x d = Inr d'" "j \<in> set (jobs d')"
  shows "j \<in> set (jobs d) \<or> jb_schedule_id j = sc_id x"
proof -
  have f: "\<forall>j\<in>set (jobs (foldl (\<lambda>d r. new_job w t x r d) d rs)). j \<in> set (jobs d) \<or> jb_schedule_id j = sc_id x" for rs
    by (induction rs arbitrary: d) (fastforce simp: new_job_def)+
  show ?thesis using assms f [of "job_replicas x d"] by (auto simp: create_job_def set_schedule_def split: if_splits)
qed

lemma create_dead:
  assumes "s \<in> set due" "isl (next_run w s)" "\<forall>x\<in>set due. sc_id x = sc_id s \<longrightarrow> x = s"
    "\<forall>j\<in>set (jobs d). jb_schedule_id j = sc_id s \<longrightarrow> jb_fire_time j \<noteq> t"
  shows "isl (create_scheduled_jobs w t due d)"
  using assms
proof (induction due arbitrary: d)
  case (Cons x due)
  show ?case
  proof (cases "create_job w t x d")
    case (Inr d1)
    have x: "x \<noteq> s"
    proof
      assume "x = s"
      moreover have "one_or_none (\<lambda>j. jb_schedule_id j = sc_id s \<and> jb_fire_time j = t) (jobs d) = Inr None"
        by (rule one_or_none_absent) (use Cons.prems(4) in blast)
      moreover obtain e where "next_run w s = Inl e" using Cons.prems(2) by (cases "next_run w s") auto
      ultimately show False using Inr by (simp add: create_job_def)
    qed
    then have "sc_id x \<noteq> sc_id s" using Cons.prems(3) by auto
    then have "\<forall>j\<in>set (jobs d1). jb_schedule_id j = sc_id s \<longrightarrow> jb_fire_time j \<noteq> t"
      using create_job_schedules [OF Inr] Cons.prems(4) by metis
    then show ?thesis using Cons.IH [of d1] Cons.prems(1-3) x Inr by auto
  qed simp
qed simp

lemma dead_tick:
  assumes i: "agent_inv d" and s: "s \<in> set (schedules d)" "sc_enabled s" "ag \<in> set (agents d)" "ag_id ag = sc_agent_id s" "runs ag"
    and w: "is_due w (sc_next_run_at s)" "isl (next_run w s)" "\<forall>j\<in>set (jobs d). jb_fire_time j < sw_now w"
  shows "agent_inv (tick w d) \<and> only_replicas (reap_stale_jobs w d) (tick w d)"
proof -
  have due: "s \<in> set (due_schedules w d)" using s w(1) by (auto simp: due_schedules_def list_ex_iff)
  have u: "\<forall>x\<in>set (due_schedules w d). sc_id x = sc_id s \<longrightarrow> x = s"
    using i s(1) rows_ok_def distinct_key_unique [of sc_id "schedules d"]
    by (auto simp: due_schedules_def agent_inv_def rows_ok_def)
  have "isl (create_scheduled_jobs w (sw_now w) (due_schedules w d) d)"
    by (rule create_dead [OF due w(2) u]) (use w(3) in auto)
  then have "fst (poll_and_execute w d) = d"
    using due by (auto simp: poll_and_execute_def Let_def split: sum.splits)
  then have t: "tick w d = check_replica_health w (reap_stale_jobs w d)" by (simp add: tick_def)
  have "agent_inv (reap_stale_jobs w d)" unfolding reap_stale_jobs_def
    by (rule inv_jobs [OF i]) (use i in \<open>auto simp: agent_inv_def list_all_iff JOB_STATUSES_def\<close>)
  then show ?thesis unfolding t by (simp add: health_step)
qed

text \<open>What the reaper does to a job.\<close>

definition reaped :: "job_row \<Rightarrow> job_row \<Rightarrow> bool" where
  "reaped j j' \<longleftrightarrow> j' = j \<or> jb_status j = ''pending'' \<and> jb_status j' = ''failed'' \<and> jb_claimed_by j' = jb_claimed_by j
     \<and> jb_fire_time j' = jb_fire_time j"

lemma reap_reaped: "list_all2 reaped (jobs d) (jobs (reap_stale_jobs w d))"
  by (auto simp: reap_stale_jobs_def list_all2_conv_all_nth reaped_def stale_job_def)

lemma reaped_trans: "reaped a b \<Longrightarrow> reaped b c \<Longrightarrow> reaped a c"
  by (auto simp: reaped_def)

lemma reaped_fire_times: "list_all2 reaped xs ys \<Longrightarrow> jb_fire_time ` set ys \<subseteq> jb_fire_time ` set xs"
  by (induction rule: list_all2_induct) (auto simp: reaped_def)

fun ticks :: "sched_world list \<Rightarrow> agent_db \<Rightarrow> agent_db" where
  "ticks [] d = d"
| "ticks (w # ws) d = ticks ws (tick w d)"

text \<open>
  C40: One schedule can stop the scheduler for all accounts. As long as an enabled schedule of a running agent is due and its
  expression has no next time, every poll raises before it claims a job: over any number of uninterrupted ticks no schedule advances, nothing is
  executed for any agent, and jobs that were pending stay unclaimed until the reaper fails them.
\<close>

theorem dead_schedule_stops_scheduler:
  assumes "agent_inv d" "s \<in> set (schedules d)" "sc_enabled s" "ag \<in> set (agents d)" "ag_id ag = sc_agent_id s" "runs ag"
    and "\<forall>w\<in>set ws. is_due w (sc_next_run_at s) \<and> isl (next_run w s) \<and> (\<forall>j\<in>set (jobs d). jb_fire_time j < sw_now w)"
  shows "schedules (ticks ws d) = schedules d \<and> agents (ticks ws d) = agents d \<and> agent_runs (ticks ws d) = agent_runs d
    \<and> fires (ticks ws d) = fires d \<and> list_all2 reaped (jobs d) (jobs (ticks ws d))"
  using assms
proof (induction ws arbitrary: d)
  case Nil
  then show ?case by (simp add: list_all2_refl reaped_def)
next
  case (Cons w ws)
  define d1 where "d1 = tick w d"
  have t: "agent_inv d1" "only_replicas (reap_stale_jobs w d) d1"
    using dead_tick [OF Cons.prems(1-6), of w] Cons.prems(7) by (simp_all add: d1_def)
  then have e: "schedules d1 = schedules d" "agents d1 = agents d" "agent_runs d1 = agent_runs d" "fires d1 = fires d"
    and r: "list_all2 reaped (jobs d) (jobs d1)"
    using reap_reaped [of d w] by (simp_all add: only_replicas_def reap_stale_jobs_def)
  have "jb_fire_time ` set (jobs d1) \<subseteq> jb_fire_time ` set (jobs d)" by (rule reaped_fire_times [OF r])
  then have "\<forall>w\<in>set ws. is_due w (sc_next_run_at s) \<and> isl (next_run w s) \<and> (\<forall>j\<in>set (jobs d1). jb_fire_time j < sw_now w)"
    using Cons.prems(7) by fastforce
  then have ih: "schedules (ticks ws d1) = schedules d1 \<and> agents (ticks ws d1) = agents d1 \<and> agent_runs (ticks ws d1) = agent_runs d1
    \<and> fires (ticks ws d1) = fires d1 \<and> list_all2 reaped (jobs d1) (jobs (ticks ws d1))"
    using Cons.prems(2-6) by (intro Cons.IH) (simp_all add: e t(1))
  have "list_all2 reaped (jobs d) (jobs (ticks ws d1))"
    using ih by (intro list_all2_trans [OF reaped_trans r]) blast+
  then show ?case using ih e by (simp add: d1_def [symmetric])
qed

definition demo_dead :: agent_db where
  "demo_dead = sm_db (foldl machine_step (idle (empty_agent_db sample_db)) (demo_events @ [demo_schedule ''bot'' ''0 0 1 1 * 0 2026'']))"

lemma demo_dead_inv: "agent_inv demo_dead"
  using machine_run_ok [OF idle_ok [OF sample_agent_inv sample_quiet]] unfolding demo_dead_def machine_ok_def quiet_but_def by blast

lemma demo_dead_facts:
  "let d = demo_dead; s = last (schedules d); a = hd (agents d)
   in schedules d \<noteq> [] \<and> agents d \<noteq> [] \<and> sc_enabled s \<and> ag_id a = sc_agent_id s \<and> runs a
      \<and> list_all (\<lambda>w. is_due w (sc_next_run_at s) \<and> isl (next_run w s) \<and> list_all (\<lambda>j. jb_fire_time j < sw_now w) (jobs d))
          [demo_world 300, demo_world 600]"
  by code_simp

theorem dead_schedule_stops_scheduler_witness:
  "map jb_status (jobs demo_dead) = [''complete'', ''pending'']
   \<and> map jb_status (jobs (ticks [demo_world 300, demo_world 600] demo_dead)) = [''complete'', ''failed'']
   \<and> fires (ticks [demo_world 300, demo_world 600] demo_dead) = fires demo_dead"
proof (intro conjI)
  show "map jb_status (jobs demo_dead) = [''complete'', ''pending'']" by code_simp
  show "map jb_status (jobs (ticks [demo_world 300, demo_world 600] demo_dead)) = [''complete'', ''failed'']" by code_simp
  note f = demo_dead_facts [unfolded Let_def list_all_iff]
  show "fires (ticks [demo_world 300, demo_world 600] demo_dead) = fires demo_dead"
    by (rule dead_schedule_stops_scheduler [OF demo_dead_inv last_in_set _ hd_in_set, THEN conjunct2, THEN conjunct2,
          THEN conjunct2, THEN conjunct1]) (use f in blast)+
qed

end
