(* ===== verification/Redis.thy ===== *)
theory Redis
  imports Py_Base
begin

text \<open>
  Counters in Redis and the rate limiter of \<open>core/redis.py\<close>. Redis is a service: its commands are the record \<open>redis\<close>, an
  argument of every definition, and \<open>redis_ok\<close> names what its documentation says of them, in terms of the value and the expiry
  stored under a key. Every command is awaited on its own and may raise, before it took effect or after; which ones do is an
  argument as well. Times are whole seconds. \<open>list_redis\<close> is a store of this kind. The lemmas say what one call of the limiter
  does to the entry of its key, and that in any interval as long as the window at most twice the limit less one of events is let
  through, whatever commands fail.
\<close>

section \<open>Redis\<close>

record 'r redis =
  r_peek :: "'r \<Rightarrow> string \<Rightarrow> (int \<times> int option) option"
  r_get :: "int \<Rightarrow> string \<Rightarrow> 'r \<Rightarrow> int option"
  r_incr :: "int \<Rightarrow> string \<Rightarrow> 'r \<Rightarrow> 'r \<times> int"
  r_decr :: "int \<Rightarrow> string \<Rightarrow> 'r \<Rightarrow> 'r \<times> int"
  r_expire :: "int \<Rightarrow> string \<Rightarrow> int \<Rightarrow> 'r \<Rightarrow> 'r"
  r_expireat :: "int \<Rightarrow> string \<Rightarrow> int \<Rightarrow> 'r \<Rightarrow> 'r"
  r_set_ex :: "int \<Rightarrow> string \<Rightarrow> int \<Rightarrow> int \<Rightarrow> 'r \<Rightarrow> 'r"
  r_delete :: "string \<Rightarrow> 'r \<Rightarrow> 'r"

text \<open>An entry is gone from the moment of its expiry on.\<close>

definition alive :: "int \<Rightarrow> (int \<times> int option) option \<Rightarrow> (int \<times> int option) option" where
  "alive t en = (case en of Some (v, Some e) \<Rightarrow> if t < e then en else None | _ \<Rightarrow> en)"

definition add_to :: "int \<Rightarrow> int \<Rightarrow> (int \<times> int option) option \<Rightarrow> int \<times> int option" where
  "add_to n t en = (case alive t en of None \<Rightarrow> (n, None) | Some (v, e) \<Rightarrow> (v + n, e))"

definition redis_ok :: "'r redis \<Rightarrow> bool" where
  "redis_ok R \<longleftrightarrow>
     (\<forall>t k s. r_get R t k s = map_option fst (alive t (r_peek R s k)))
     \<and> (\<forall>t k s. r_peek R (fst (r_incr R t k s)) = (r_peek R s)(k \<mapsto> add_to 1 t (r_peek R s k))
              \<and> snd (r_incr R t k s) = fst (add_to 1 t (r_peek R s k)))
     \<and> (\<forall>t k s. r_peek R (fst (r_decr R t k s)) = (r_peek R s)(k \<mapsto> add_to (- 1) t (r_peek R s k))
              \<and> snd (r_decr R t k s) = fst (add_to (- 1) t (r_peek R s k)))
     \<and> (\<forall>t k n s. r_peek R (r_expire R t k n s)
          = (r_peek R s)(k := map_option (\<lambda>(v, e). (v, Some (t + n))) (alive t (r_peek R s k))))
     \<and> (\<forall>t k e s. r_peek R (r_expireat R t k e s)
          = (r_peek R s)(k := map_option (\<lambda>(v, _). (v, Some e)) (alive t (r_peek R s k))))
     \<and> (\<forall>t k v n s. r_peek R (r_set_ex R t k v n s) = (r_peek R s)(k \<mapsto> (v, Some (t + n))))
     \<and> (\<forall>k s. r_peek R (r_delete R k s) = (r_peek R s)(k := None))"

section \<open>Failing commands\<close>

text \<open>
  What becomes of an awaited command: it succeeds, or it raises, either without having reached the server or with its effect
  made and only the reply lost. A list names the commands that fail.
\<close>

datatype redis_cmd = CIncr string | CExpire string | CGet string

datatype fate = Fine | Dropped | Lost

type_synonym fates = "(redis_cmd \<times> fate) list"

definition fate_of :: "fates \<Rightarrow> redis_cmd \<Rightarrow> fate" where
  "fate_of fs c = (case map_of fs c of None \<Rightarrow> Fine | Some f \<Rightarrow> f)"

definition perform :: "fate \<Rightarrow> 'r \<Rightarrow> 'r \<times> 'a \<Rightarrow> 'r \<times> 'a option" where
  "perform f s r = (case f of Fine \<Rightarrow> (fst r, Some (snd r)) | Dropped \<Rightarrow> (s, None) | Lost \<Rightarrow> (fst r, None))"

lemma fate_of_Nil [simp]: "fate_of [] c = Fine"
  by (simp add: fate_of_def)

section \<open>The limiter\<close>

text \<open>The value is \<open>None\<close> when the call raises.\<close>

definition is_rate_limited ::
  "'r redis \<Rightarrow> fates \<Rightarrow> int \<Rightarrow> string \<Rightarrow> int \<Rightarrow> int \<Rightarrow> 'r \<Rightarrow> 'r \<times> (bool \<times> int) option" where
  "is_rate_limited R fs t key limit window_seconds s =
     (case perform (fate_of fs (CIncr key)) s (r_incr R t key s) of
        (s1, None) \<Rightarrow> (s1, None)
      | (s1, Some current) \<Rightarrow>
          if current = 1 then
            (case perform (fate_of fs (CExpire key)) s1 (r_expire R t key window_seconds s1, ()) of
               (s2, None) \<Rightarrow> (s2, None)
             | (s2, Some _) \<Rightarrow> (s2, Some (limit < current, current)))
          else (s1, Some (limit < current, current)))"

definition check_rate_limited :: "'r redis \<Rightarrow> fates \<Rightarrow> int \<Rightarrow> string \<Rightarrow> int \<Rightarrow> 'r \<Rightarrow> (bool \<times> int) option" where
  "check_rate_limited R fs t key limit s =
     map_option (\<lambda>r. case r of None \<Rightarrow> (False, 0) | Some count \<Rightarrow> (limit \<le> count, count))
       (snd (perform (fate_of fs (CGet key)) s (s, r_get R t key s)))"

definition get_remaining :: "'r redis \<Rightarrow> int \<Rightarrow> string \<Rightarrow> int \<Rightarrow> 'r \<Rightarrow> int" where
  "get_remaining R t key limit s =
     (case r_get R t key s of None \<Rightarrow> limit | Some current \<Rightarrow> max 0 (limit - current))"

definition reset_limit :: "'r redis \<Rightarrow> string \<Rightarrow> 'r \<Rightarrow> 'r" where
  "reset_limit R key s = r_delete R key s"

section \<open>A store of this kind\<close>

definition put :: "'k \<Rightarrow> 'v option \<Rightarrow> ('k \<times> 'v) list \<Rightarrow> ('k \<times> 'v) list" where
  "put k x s = (case x of None \<Rightarrow> AList.delete k s | Some v \<Rightarrow> AList.update k v s)"

definition list_redis :: "(string \<times> int \<times> int option) list redis" where
  "list_redis =
     \<lparr>r_peek = map_of,
      r_get = (\<lambda>t k s. map_option fst (alive t (map_of s k))),
      r_incr = (\<lambda>t k s. let en = add_to 1 t (map_of s k) in (put k (Some en) s, fst en)),
      r_decr = (\<lambda>t k s. let en = add_to (- 1) t (map_of s k) in (put k (Some en) s, fst en)),
      r_expire = (\<lambda>t k n s. put k (map_option (\<lambda>(v, e). (v, Some (t + n))) (alive t (map_of s k))) s),
      r_expireat = (\<lambda>t k e s. put k (map_option (\<lambda>(v, _). (v, Some e)) (alive t (map_of s k))) s),
      r_set_ex = (\<lambda>t k v n s. put k (Some (v, Some (t + n))) s),
      r_delete = (\<lambda>k s. put k None s)\<rparr>"

lemma map_of_put: "map_of (put k x s) = (map_of s)(k := x)"
  by (auto simp: put_def AList.update_conv' AList.delete_conv' split: option.splits)

lemma list_redis_ok: "redis_ok list_redis"
  by (simp add: redis_ok_def list_redis_def map_of_put Let_def)

section \<open>A call of the limiter\<close>

type_synonym entry = "(int \<times> int option) option"

text \<open>The entry after a call that counts, and the count unless the call raises.\<close>

definition bump :: "int \<Rightarrow> int \<Rightarrow> fate \<Rightarrow> fate \<Rightarrow> entry \<Rightarrow> entry \<times> int option" where
  "bump w t fi fe en =
     (let (v, e) = add_to 1 t en
      in case fi of
           Dropped \<Rightarrow> (en, None)
         | Lost \<Rightarrow> (Some (v, e), None)
         | Fine \<Rightarrow>
             if v = 1 then (Some (1, if fe = Dropped then e else Some (t + w)), if fe = Fine then Some 1 else None)
             else (Some (v, e), Some v))"

lemma add_to_alive: "alive t (Some (add_to n t en)) = Some (add_to n t en)"
  by (auto simp: add_to_def alive_def split: option.splits prod.splits)

lemma is_rate_limited_peek:
  fixes R w t fs k s
  defines "b \<equiv> bump w t (fate_of fs (CIncr k)) (fate_of fs (CExpire k)) (r_peek R s k)"
  assumes "redis_ok R"
  shows "r_peek R (fst (is_rate_limited R fs t k l w s)) = (r_peek R s)(k := fst b)"
    and "snd (is_rate_limited R fs t k l w s) = map_option (\<lambda>n. (l < n, n)) (snd b)"
proof -
  have i: "r_peek R (fst (r_incr R t k s)) = (r_peek R s)(k \<mapsto> add_to 1 t (r_peek R s k))"
    "snd (r_incr R t k s) = fst (add_to 1 t (r_peek R s k))"
    and e: "\<And>s. r_peek R (r_expire R t k w s) = (r_peek R s)(k := map_option (\<lambda>(v, e). (v, Some (t + w))) (alive t (r_peek R s k)))"
    using assms(2) by (simp_all add: redis_ok_def)
  obtain v x where vx: "add_to 1 t (r_peek R s k) = (v, x)" by fastforce
  then have a: "alive t (Some (v, x)) = Some (v, x)" using add_to_alive [of t 1 "r_peek R s k"] by simp
  obtain s1 n where n: "r_incr R t k s = (s1, n)" by fastforce
  note facts = i [unfolded n vx fst_conv snd_conv] e
  have "r_peek R (fst (is_rate_limited R fs t k l w s)) = (r_peek R s)(k := fst b)
    \<and> snd (is_rate_limited R fs t k l w s) = map_option (\<lambda>n. (l < n, n)) (snd b)"
    using a facts by (auto simp: is_rate_limited_def perform_def b_def bump_def n vx split: fate.splits)
  then show "r_peek R (fst (is_rate_limited R fs t k l w s)) = (r_peek R s)(k := fst b)"
    and "snd (is_rate_limited R fs t k l w s) = map_option (\<lambda>n. (l < n, n)) (snd b)" by simp_all
qed

lemma check_rate_limited_peek:
  "redis_ok R \<Longrightarrow> map_option fst (check_rate_limited R fs t k l s) =
     (if fate_of fs (CGet k) = Fine then Some (case alive t (r_peek R s k) of None \<Rightarrow> False | Some (v, e) \<Rightarrow> l \<le> v) else None)"
  by (auto simp: redis_ok_def check_rate_limited_def perform_def split: option.splits fate.splits)

text \<open>
  The entries the limiter writes: a positive count, and an expiry at most a window after the last call, if there is one. An
  entry has none when the call that made it failed before its expiry was set.
\<close>

definition entry_ok :: "int \<Rightarrow> int \<Rightarrow> entry \<Rightarrow> bool" where
  "entry_ok w t en = (case en of None \<Rightarrow> True | Some (v, e) \<Rightarrow> 1 \<le> v \<and> (case e of None \<Rightarrow> True | Some x \<Rightarrow> x \<le> t + w))"

definition has_expiry :: "entry \<Rightarrow> bool" where
  "has_expiry en = (case en of Some (v, None) \<Rightarrow> False | _ \<Rightarrow> True)"

lemma bump_cases:
  assumes "entry_ok w u en"
  obtains (dropped) "bump w t fi fe en = (en, None)" "fi = Dropped"
  | (fresh) x r where "bump w t fi fe en = (Some (1, x), r)" "x = Some (t + w) \<or> x = None \<and> r = None \<and> (fi = Lost \<or> fe = Dropped)"
      "r = None \<or> r = Some 1" "fi = Fine \<Longrightarrow> fe = Fine \<Longrightarrow> r = Some 1"
      "\<And>v e. en = Some (v, e) \<Longrightarrow> \<exists>y. e = Some y \<and> y \<le> t"
  | (counted) v e r where "en = Some (v, e)" "1 \<le> v" "\<And>y. e = Some y \<Longrightarrow> t < y" "bump w t fi fe en = (Some (v + 1, e), r)"
      "r = None \<or> r = Some (v + 1)" "fi = Fine \<Longrightarrow> r = Some (v + 1)"
proof (cases "alive t en")
  case None
  then have a: "add_to 1 t en = (1, None)" by (simp add: add_to_def)
  have d: "\<exists>y. e = Some y \<and> y \<le> t" if "en = Some (v, e)" for v e
    using None that by (auto simp: alive_def split: option.splits if_splits)
  show thesis
  proof (cases fi)
    case Fine
    show thesis
      by (rule fresh [of "if fe = Dropped then None else Some (t + w)" "if fe = Fine then Some 1 else None"])
        (use d in \<open>auto simp: bump_def a Fine\<close>)
  next
    case Dropped
    then show thesis by (intro dropped) (simp_all add: bump_def a)
  next
    case Lost
    show thesis by (rule fresh [of None None]) (use d in \<open>auto simp: bump_def a Lost\<close>)
  qed
next
  case (Some p)
  then obtain v e where en: "en = Some (v, e)" "1 \<le> v" "add_to 1 t en = (v + 1, e)" "\<And>y. e = Some y \<Longrightarrow> t < y" using assms
    by (auto simp: entry_ok_def alive_def add_to_def split: option.splits if_splits)
  show thesis
  proof (cases fi)
    case Dropped
    then show thesis by (intro dropped) (simp_all add: bump_def en(3))
  next
    case Fine
    show thesis by (rule counted [OF en(1,2,4), of "Some (v + 1)"]) (use en(2,3) in \<open>auto simp: bump_def Fine\<close>)
  next
    case Lost
    show thesis by (rule counted [OF en(1,2,4), of None]) (use en(2,3) in \<open>auto simp: bump_def Lost\<close>)
  qed
qed

lemma bump_ok: "entry_ok w u en \<Longrightarrow> u \<le> t \<Longrightarrow> entry_ok w t (fst (bump w t fi fe en))"
  by (rule bump_cases [of w u en t fi fe]) (auto simp: entry_ok_def split: option.splits)

lemma bump_has_expiry:
  "entry_ok w u en \<Longrightarrow> has_expiry en \<Longrightarrow> fi \<noteq> Lost \<Longrightarrow> fe \<noteq> Dropped \<Longrightarrow> has_expiry (fst (bump w t fi fe en))"
  by (rule bump_cases [of w u en t fi fe]) (auto simp: has_expiry_def split: option.splits)

lemma entry_ok_mono: "entry_ok w u en \<Longrightarrow> u \<le> t \<Longrightarrow> entry_ok w t en"
  by (auto simp: entry_ok_def split: option.splits)

section \<open>How many get through\<close>

text \<open>
  The events of one counter with the fates of their two commands, and how many of those in the interval from \<open>a\<close> of the length of
  the window return a count within the limit.
\<close>

fun let_through :: "int \<Rightarrow> int \<Rightarrow> int \<Rightarrow> entry \<Rightarrow> (int \<times> fate \<times> fate) list \<Rightarrow> int" where
  "let_through w l a en [] = 0"
| "let_through w l a en ((t, fi, fe) # ts) =
     (case bump w t fi fe en of (en', r) \<Rightarrow>
        (if (\<exists>n. r = Some n \<and> n \<le> l) \<and> a \<le> t \<and> t < a + w then 1 else 0) + let_through w l a en' ts)"

definition room :: "int \<Rightarrow> int \<Rightarrow> int \<Rightarrow> entry \<Rightarrow> int" where
  "room w l a en =
     (case en of
        Some (v, Some e) \<Rightarrow>
          if a + w \<le> e then max 0 (l - v) else if a < e then max 0 (l - v) + l else 2 * l - 1
      | Some (v, None) \<Rightarrow> max 0 (l - v)
      | None \<Rightarrow> 2 * l - 1)"

lemma let_through_after: "\<forall>x\<in>set ts. a + w \<le> fst x \<Longrightarrow> let_through w l a en ts = 0"
proof (induction ts arbitrary: en)
  case (Cons x ts)
  then show ?case by (cases x) (auto split: prod.splits)
qed simp

lemma let_through_room:
  assumes "0 < w" "1 \<le> l" "entry_ok w u en" "sorted (u # map fst ts)"
  shows "let_through w l a en ts \<le> room w l a en"
  using assms(3,4)
proof (induction ts arbitrary: u en)
  case Nil
  then show ?case using assms(2) by (auto simp: room_def split: option.splits)
next
  case (Cons x ts)
  obtain t fi fe where x: "x = (t, fi, fe)" by (cases x)
  have ih: "let_through w l a (fst (bump w t fi fe en)) ts \<le> room w l a (fst (bump w t fi fe en))"
    using Cons.IH [of t] Cons.prems bump_ok [of w u en t fi fe] by (auto simp: x)
  have late: "let_through w l a en' ts = 0" if "a + w \<le> t" for en'
    using that Cons.prems(2) by (intro let_through_after) (auto simp: x)
  show ?case using Cons.prems(1)
  proof (cases rule: bump_cases [where t = t and fi = fi and fe = fe])
    case dropped
    then show ?thesis using ih by (simp add: x)
  next
    case (fresh y r)
    have old: "en = None \<or> (\<exists>v e. en = Some (v, Some e) \<and> e \<le> t)" using fresh(5) by (cases en) force+
    show ?thesis using ih late [of "Some (1, y)"] fresh(1-3) old assms(1,2)
      by (auto simp: x room_def split: if_splits)
  next
    case (counted v e r)
    then show ?thesis using ih assms(1,2) by (auto simp: x room_def split: if_splits option.splits)
  qed
qed

lemma let_through_bound:
  assumes "0 < w" "1 \<le> l" "entry_ok w u en" "sorted (u # map fst ts)"
  shows "let_through w l a en ts \<le> 2 * l - 1"
proof -
  have "room w l a en \<le> 2 * l - 1" using assms(2,3)
    by (auto simp: room_def entry_ok_def split: option.splits)
  then show ?thesis using let_through_room [OF assms, of a] by linarith
qed

end
