(* ===== verification/RateLimit.thy ===== *)
theory RateLimit
  imports Redis Py_Text Exceptions
begin

text \<open>
  The middleware that limits authentication requests (\<open>middleware/rate_limit.py\<close>). A request is handled in two steps, what the
  middleware does before the handler and what it does after it, each at one moment, with the commands in the order of the source and
  any of them failing; a run is a sequence of such steps, so that the steps of different requests interleave. The handler behind the
  middleware is the status it answers with. The properties: a client sees a limiter of its own, the number of requests that get
  through is bounded in every minute, and a client that keeps trying gets through again, unless a failing command left one of its
  counters without expiry.
\<close>

section \<open>The middleware\<close>

definition LIMITS :: "(string \<times> int \<times> int) list" where
  "LIMITS = [(''auth_failure'', 5, 60), (''auth_attempt'', 20, 60), (''registration'', 3, 3600),
             (''user_request'', 1000, 3600), (''ip_request'', 100, 3600)]"

definition limit_of :: "string \<Rightarrow> int" where
  "limit_of name = fst (the (map_of LIMITS name))"

definition window_of :: "string \<Rightarrow> int" where
  "window_of name = snd (the (map_of LIMITS name))"

record web_request =
  rq_path :: string
  rq_method :: string
  rq_forwarded :: "string option"
  rq_real_ip :: "string option"
  rq_client :: "string option"

definition given :: "string option \<Rightarrow> string option" where
  "given h = (if h = Some [] then None else h)"

definition get_client_ip :: "web_request \<Rightarrow> string" where
  "get_client_ip rq =
     (case given (rq_forwarded rq) of
        Some f \<Rightarrow> py_strip (hd (py_split '','' f))
      | None \<Rightarrow> (case given (rq_real_ip rq) of
                  Some ip \<Rightarrow> ip
                | None \<Rightarrow> (case rq_client rq of Some host \<Rightarrow> host | None \<Rightarrow> ''unknown'')))"

definition auth_key :: "string \<Rightarrow> string" where
  "auth_key ip = ''ratelimit:auth:'' @ ip"

definition fail_key :: "string \<Rightarrow> string" where
  "fail_key ip = ''ratelimit:auth_fail:'' @ ip"

definition register_key :: "string \<Rightarrow> string" where
  "register_key ip = ''ratelimit:register:'' @ ip"

definition check_auth_rate :: "'r redis \<Rightarrow> fates \<Rightarrow> int \<Rightarrow> string \<Rightarrow> 'r \<Rightarrow> 'r \<times> (bool \<times> int) option" where
  "check_auth_rate R fs t ip s =
     (case is_rate_limited R fs t (auth_key ip) (limit_of ''auth_attempt'') (window_of ''auth_attempt'') s of
        (s1, r) \<Rightarrow> (s1, map_option (\<lambda>(limited, current). (limited, max 0 (limit_of ''auth_attempt'' - current))) r))"

definition record_auth_failure :: "'r redis \<Rightarrow> fates \<Rightarrow> int \<Rightarrow> string \<Rightarrow> 'r \<Rightarrow> 'r \<times> unit option" where
  "record_auth_failure R fs t ip s =
     (case is_rate_limited R fs t (fail_key ip) (limit_of ''auth_failure'') (window_of ''auth_failure'') s of
        (s1, r) \<Rightarrow> (s1, map_option (\<lambda>_. ()) r))"

definition check_registration_limit :: "'r redis \<Rightarrow> fates \<Rightarrow> int \<Rightarrow> string \<Rightarrow> 'r \<Rightarrow> 'r \<times> bool option" where
  "check_registration_limit R fs t ip s =
     (case is_rate_limited R fs t (register_key ip) (limit_of ''registration'') (window_of ''registration'') s of
        (s1, r) \<Rightarrow> (s1, map_option fst r))"

definition check_auth_failure_limit :: "'r redis \<Rightarrow> fates \<Rightarrow> int \<Rightarrow> string \<Rightarrow> 'r \<Rightarrow> bool option" where
  "check_auth_failure_limit R fs t ip s =
     map_option fst (check_rate_limited R fs t (fail_key ip) (limit_of ''auth_failure'') s)"

text \<open>
  A refusal carries the limit, the name of the window and the seconds of the \<open>Retry-After\<close> header; its status is 429. A request
  during which a command raises is \<open>Crashed\<close>: it is answered with an error and reaches no handler.
\<close>

datatype verdict = Forwarded | Refused int string int | Crashed

type_synonym security_note = "string \<times> string \<times> string"

definition is_registration :: "web_request \<Rightarrow> bool" where
  "is_registration rq = (rq_path rq = ''/v1/auth/register'' \<and> rq_method rq = ''POST'')"

definition is_auth :: "web_request \<Rightarrow> bool" where
  "is_auth rq = (\<not> py_startswith (rq_path rq) ''/v1/health'' \<and> py_startswith (rq_path rq) ''/v1/auth'')"

definition is_login :: "web_request \<Rightarrow> bool" where
  "is_login rq = (rq_path rq \<in> {''/v1/auth/token'', ''/v1/auth/login''})"

text \<open>The middleware before the handler runs: the two checks on every authentication request, and the whole.\<close>

definition admit_attempt :: "'r redis \<Rightarrow> fates \<Rightarrow> int \<Rightarrow> string \<Rightarrow> 'r \<Rightarrow> 'r \<times> verdict" where
  "admit_attempt R fs t ip s =
     (case check_auth_rate R fs t ip s of
        (s1, None) \<Rightarrow> (s1, Crashed)
      | (s1, Some (limited, remaining)) \<Rightarrow>
          if limited then (s1, Refused (limit_of ''auth_attempt'') ''1 minute'' 60)
          else (case check_auth_failure_limit R fs t ip s1 of
                  None \<Rightarrow> (s1, Crashed)
                | Some failed \<Rightarrow> (s1, if failed then Refused (limit_of ''auth_failure'') ''1 minute'' 60 else Forwarded)))"

definition admit :: "'r redis \<Rightarrow> fates \<Rightarrow> int \<Rightarrow> web_request \<Rightarrow> 'r \<Rightarrow> 'r \<times> verdict" where
  "admit R fs t rq s =
     (if py_startswith (rq_path rq) ''/v1/health'' then (s, Forwarded)
      else let ip = get_client_ip rq
           in if py_startswith (rq_path rq) ''/v1/auth'' then
                (if is_registration rq then
                   (case check_registration_limit R fs t ip s of
                      (s1, None) \<Rightarrow> (s1, Crashed)
                    | (s1, Some limited) \<Rightarrow>
                        if limited then (s1, Refused (limit_of ''registration'') ''1 hour'' 900)
                        else admit_attempt R fs t ip s1)
                 else admit_attempt R fs t ip s)
              else (s, Forwarded))"

text \<open>
  The middleware after the handler answered, with the security event it logs; the answer itself is lost when the failure cannot
  be recorded.
\<close>

definition finish :: "'r redis \<Rightarrow> fates \<Rightarrow> int \<Rightarrow> web_request \<Rightarrow> nat \<Rightarrow> 'r \<Rightarrow> 'r \<times> security_note list option" where
  "finish R fs t rq status s =
     (if is_login rq \<and> status = 401
      then (case record_auth_failure R fs t (get_client_ip rq) s of
              (s1, r) \<Rightarrow> (s1, map_option (\<lambda>_. [(''auth.login_failed'', ''warning'', get_client_ip rq)]) r))
      else (s, Some []))"

text \<open>
  The steps of the middleware over time: a request arrives, or the handler of a forwarded one has answered. Each says which of its
  commands fail.
\<close>

datatype rl_event = Arrive web_request fates | Answer web_request nat fates

fun rl_step :: "'r redis \<Rightarrow> int \<times> rl_event \<Rightarrow> 'r \<Rightarrow> 'r \<times> bool" where
  "rl_step R (t, Arrive rq fs) s = (let (s1, v) = admit R fs t rq s in (s1, v = Forwarded))"
| "rl_step R (t, Answer rq status fs) s = (fst (finish R fs t rq status s), False)"

text \<open>A run, and for every step of it whether it forwarded a request.\<close>

fun rl_run :: "'r redis \<Rightarrow> (int \<times> rl_event) list \<Rightarrow> 'r \<Rightarrow> 'r \<times> bool list" where
  "rl_run R [] s = (s, [])"
| "rl_run R (e # es) s = (let (s1, b) = rl_step R e s; (s2, bs) = rl_run R es s1 in (s2, b # bs))"

text \<open>The dependency \<open>check_auth_rate_limit\<close>, which does not look at \<open>X-Real-IP\<close>.\<close>

definition dependency_ip :: "web_request \<Rightarrow> string" where
  "dependency_ip rq =
     (case given (rq_forwarded rq) of
        Some f \<Rightarrow> py_strip (hd (py_split '','' f))
      | None \<Rightarrow> (case rq_client rq of Some host \<Rightarrow> host | None \<Rightarrow> ''unknown''))"

definition check_auth_rate_limit :: "'r redis \<Rightarrow> fates \<Rightarrow> int \<Rightarrow> web_request \<Rightarrow> 'r \<Rightarrow> unit res option" where
  "check_auth_rate_limit R fs t rq s =
     map_option (\<lambda>(limited, _).
         if limited then Inl (RateLimitExceededError (limit_of ''auth_failure'') ''1 minute'' 60) else Inr ())
       (check_rate_limited R fs t (fail_key (dependency_ip rq)) (limit_of ''auth_failure'') s)"

section \<open>One client\<close>

text \<open>
  The middleware as one client sees it: three counters of its own (registrations, attempts, failures), whatever the other
  clients do.
\<close>

record client =
  cl_registrations :: entry
  cl_attempts :: entry
  cl_failures :: entry

definition failing :: "int \<Rightarrow> entry \<Rightarrow> bool" where
  "failing t en = (case alive t en of None \<Rightarrow> False | Some (v, e) \<Rightarrow> 5 \<le> v)"

text \<open>What a counting call does to a counter of the client, given the fates of its two commands.\<close>

definition count_in :: "int \<Rightarrow> fates \<Rightarrow> string \<Rightarrow> int \<Rightarrow> entry \<Rightarrow> entry \<times> int option" where
  "count_in w fs k t en = bump w t (fate_of fs (CIncr k)) (fate_of fs (CExpire k)) en"

text \<open>The two checks on every authentication request let it pass.\<close>

definition passes :: "int \<Rightarrow> fates \<Rightarrow> string \<Rightarrow> client \<Rightarrow> bool" where
  "passes t fs ip c \<longleftrightarrow> (\<exists>n. snd (count_in 60 fs (auth_key ip) t (cl_attempts c)) = Some n \<and> n \<le> 20)
     \<and> fate_of fs (CGet (fail_key ip)) = Fine \<and> \<not> failing t (cl_failures c)"

definition client_admit :: "int \<Rightarrow> web_request \<Rightarrow> fates \<Rightarrow> client \<Rightarrow> client \<times> bool" where
  "client_admit t rq fs c =
     (if \<not> is_auth rq then (c, True)
      else let ip = get_client_ip rq; reg = count_in 3600 fs (register_key ip) t (cl_registrations c);
               c1 = (if is_registration rq then c\<lparr>cl_registrations := fst reg\<rparr> else c)
           in if is_registration rq \<and> \<not> (\<exists>n. snd reg = Some n \<and> n \<le> 3) then (c1, False)
              else (c1\<lparr>cl_attempts := fst (count_in 60 fs (auth_key ip) t (cl_attempts c))\<rparr>, passes t fs ip c))"

fun client_step :: "int \<times> rl_event \<Rightarrow> client \<Rightarrow> client \<times> bool" where
  "client_step (t, Arrive rq fs) c = client_admit t rq fs c"
| "client_step (t, Answer rq status fs) c =
     (if is_login rq \<and> status = 401
      then c\<lparr>cl_failures := fst (count_in 60 fs (fail_key (get_client_ip rq)) t (cl_failures c))\<rparr> else c, False)"

fun client_run :: "(int \<times> rl_event) list \<Rightarrow> client \<Rightarrow> client \<times> bool list" where
  "client_run [] c = (c, [])"
| "client_run (e # es) c = (let (c1, b) = client_step e c; (c2, bs) = client_run es c1 in (c2, b # bs))"

definition client_view :: "'r redis \<Rightarrow> string \<Rightarrow> 'r \<Rightarrow> client" where
  "client_view R ip s =
     \<lparr>cl_registrations = r_peek R s (register_key ip), cl_attempts = r_peek R s (auth_key ip),
      cl_failures = r_peek R s (fail_key ip)\<rparr>"

fun event_ip :: "int \<times> rl_event \<Rightarrow> string" where
  "event_ip (t, Arrive rq fs) = get_client_ip rq"
| "event_ip (t, Answer rq status fs) = get_client_ip rq"

lemma keys_distinct [simp]:
  "auth_key ip \<noteq> fail_key jp" "auth_key ip \<noteq> register_key jp" "fail_key ip \<noteq> register_key jp"
  "fail_key ip \<noteq> auth_key jp" "register_key ip \<noteq> auth_key jp" "register_key ip \<noteq> fail_key jp"
  "auth_key ip = auth_key jp \<longleftrightarrow> ip = jp" "fail_key ip = fail_key jp \<longleftrightarrow> ip = jp" "register_key ip = register_key jp \<longleftrightarrow> ip = jp"
  by (simp_all add: auth_key_def fail_key_def register_key_def)

lemma limits [simp]:
  "limit_of ''auth_failure'' = 5" "limit_of ''auth_attempt'' = 20" "limit_of ''registration'' = 3"
  "window_of ''auth_failure'' = 60" "window_of ''auth_attempt'' = 60" "window_of ''registration'' = 3600"
  by (simp_all add: limit_of_def window_of_def LIMITS_def)

lemma registration_is_auth: "is_registration rq \<Longrightarrow> is_auth rq"
  by (simp add: is_registration_def is_auth_def)

lemma limiter_views:
  assumes R: "redis_ok R"
  shows "r_peek R (fst (check_registration_limit R fs t ip s))
      = (r_peek R s)(register_key ip := fst (count_in 3600 fs (register_key ip) t (r_peek R s (register_key ip))))"
    and "snd (check_registration_limit R fs t ip s)
      = map_option ((<) 3) (snd (count_in 3600 fs (register_key ip) t (r_peek R s (register_key ip))))"
    and "r_peek R (fst (check_auth_rate R fs t ip s))
      = (r_peek R s)(auth_key ip := fst (count_in 60 fs (auth_key ip) t (r_peek R s (auth_key ip))))"
    and "map_option fst (snd (check_auth_rate R fs t ip s))
      = map_option ((<) 20) (snd (count_in 60 fs (auth_key ip) t (r_peek R s (auth_key ip))))"
    and "check_auth_failure_limit R fs t ip s
      = (if fate_of fs (CGet (fail_key ip)) = Fine then Some (failing t (r_peek R s (fail_key ip))) else None)"
    and "r_peek R (fst (record_auth_failure R fs t ip s))
      = (r_peek R s)(fail_key ip := fst (count_in 60 fs (fail_key ip) t (r_peek R s (fail_key ip))))"
  by (simp_all add: check_registration_limit_def check_auth_rate_def check_auth_failure_limit_def record_auth_failure_def
      failing_def count_in_def case_prod_unfold is_rate_limited_peek [OF R] check_rate_limited_peek [OF R] option.map_comp comp_def)

lemma admit_attempt_view:
  assumes "redis_ok R" "admit_attempt R fs t ip s = (s', v)"
  shows "r_peek R s' = (r_peek R s)(auth_key ip := fst (count_in 60 fs (auth_key ip) t (r_peek R s (auth_key ip))))"
    and "v = Forwarded \<longleftrightarrow> passes t fs ip (client_view R ip s)"
proof -
  have s': "s' = fst (check_auth_rate R fs t ip s)"
    and v: "v = Forwarded \<longleftrightarrow> map_option fst (snd (check_auth_rate R fs t ip s)) = Some False
        \<and> check_auth_failure_limit R fs t ip s' = Some False"
    using assms(2) by (auto simp: admit_attempt_def split: prod.splits option.splits if_splits)
  show p: "r_peek R s' = (r_peek R s)(auth_key ip := fst (count_in 60 fs (auth_key ip) t (r_peek R s (auth_key ip))))"
    unfolding s' limiter_views [OF assms(1)] by (rule refl)
  show "v = Forwarded \<longleftrightarrow> passes t fs ip (client_view R ip s)"
    unfolding v limiter_views [OF assms(1)] p passes_def client_view_def
    by (cases "snd (count_in 60 fs (auth_key ip) t (r_peek R s (auth_key ip)))") auto
qed

lemma client_view_attempt:
  assumes "redis_ok R" "admit_attempt R fs t jp s = (s', v)"
  shows "client_view R ip s' = (if jp = ip then (client_view R ip s)\<lparr>cl_attempts :=
      fst (count_in 60 fs (auth_key ip) t (cl_attempts (client_view R ip s)))\<rparr> else client_view R ip s)"
  by (simp add: client_view_def admit_attempt_view(1) [OF assms])

lemma client_view_registration:
  assumes "redis_ok R" "check_registration_limit R fs t jp s = (s', r)"
  shows "client_view R ip s' = (if jp = ip then (client_view R ip s)\<lparr>cl_registrations :=
      fst (count_in 3600 fs (register_key ip) t (cl_registrations (client_view R ip s)))\<rparr> else client_view R ip s)"
    and "r = map_option ((<) 3) (snd (count_in 3600 fs (register_key jp) t (cl_registrations (client_view R jp s))))"
  using limiter_views(1,2) [OF assms(1), of fs t jp s] assms(2) by (simp_all add: client_view_def)

lemma admit_registration:
  assumes "is_registration rq"
  shows "admit R fs t rq s =
     (case check_registration_limit R fs t (get_client_ip rq) s of
        (s1, None) \<Rightarrow> (s1, Crashed)
      | (s1, Some limited) \<Rightarrow>
          if limited then (s1, Refused (limit_of ''registration'') ''1 hour'' 900) else admit_attempt R fs t (get_client_ip rq) s1)"
  using assms registration_is_auth [OF assms] by (simp add: admit_def is_auth_def Let_def)

lemma admit_plain:
  "\<not> is_registration rq \<Longrightarrow> admit R fs t rq s = (if is_auth rq then admit_attempt R fs t (get_client_ip rq) s else (s, Forwarded))"
  by (simp add: admit_def is_auth_def Let_def)

lemma passes_registrations [simp]: "passes t fs ip (c\<lparr>cl_registrations := x\<rparr>) = passes t fs ip c"
  by (simp add: passes_def)

lemma admit_client:
  assumes R: "redis_ok R" and a: "admit R fs t rq s = (s', v)"
  shows "client_view R ip s' = (if get_client_ip rq = ip then fst (client_admit t rq fs (client_view R ip s)) else client_view R ip s)
    \<and> (v = Forwarded \<longleftrightarrow> snd (client_admit t rq fs (client_view R (get_client_ip rq) s)))"
proof (cases "is_registration rq")
  case False
  show ?thesis
  proof (cases "is_auth rq")
    case True
    then have e: "admit_attempt R fs t (get_client_ip rq) s = (s', v)" using a False by (simp add: admit_plain)
    show ?thesis using True False unfolding client_view_attempt [OF R e] admit_attempt_view(2) [OF R e] client_admit_def Let_def by simp
  qed (use a False in \<open>simp add: admit_plain client_admit_def\<close>)
next
  case True
  let ?ip = "get_client_ip rq"
  obtain s1 r where r: "check_registration_limit R fs t ?ip s = (s1, r)" by fastforce
  note view = client_view_registration [OF R r]
  note auth = registration_is_auth [OF True]
  show ?thesis
  proof (cases "r = Some False")
    case False
    then have n: "\<not> (\<exists>n. snd (count_in 3600 fs (register_key ?ip) t (cl_registrations (client_view R ?ip s))) = Some n \<and> n \<le> 3)"
      using view(2) by (auto simp: not_less)
    have "s' = s1" "v \<noteq> Forwarded" using a r False by (auto simp: admit_registration [OF True] split: option.splits if_splits)
    then show ?thesis using n True auth unfolding client_admit_def Let_def by (simp add: view(1))
  next
    case ok: True
    then have n: "\<exists>n. snd (count_in 3600 fs (register_key ?ip) t (cl_registrations (client_view R ?ip s))) = Some n \<and> n \<le> 3"
      using view(2) by (auto simp: not_less)
    have e: "admit_attempt R fs t ?ip s1 = (s', v)" using a r ok by (simp add: admit_registration [OF True])
    show ?thesis using n True auth unfolding client_view_attempt [OF R e] admit_attempt_view(2) [OF R e] client_admit_def Let_def
      by (auto simp: view(1))
  qed
qed

lemma rl_step_client:
  assumes "redis_ok R" "rl_step R e s = (s', b)"
  shows "client_view R ip s' = (if event_ip e = ip then fst (client_step e (client_view R ip s)) else client_view R ip s)"
    and "b = snd (client_step e (client_view R (event_ip e) s))"
proof -
  obtain t x where e: "e = (t, x)" by (cases e)
  have "client_view R ip s' = (if event_ip e = ip then fst (client_step e (client_view R ip s)) else client_view R ip s)
    \<and> b = snd (client_step e (client_view R (event_ip e) s))"
  proof (cases x)
    case (Arrive rq fs)
    then show ?thesis using assms(2) admit_client [OF assms(1), of fs t rq s]
      by (cases "admit R fs t rq s") (simp add: e)
  next
    case (Answer rq status fs)
    then show ?thesis using assms(2)
      by (auto simp: e finish_def client_view_def case_prod_unfold limiter_views [OF assms(1)] split: if_splits)
  qed
  then show "client_view R ip s' = (if event_ip e = ip then fst (client_step e (client_view R ip s)) else client_view R ip s)"
    and "b = snd (client_step e (client_view R (event_ip e) s))" by simp_all
qed

text \<open>The steps of one client in a run, and their outcomes.\<close>

definition of_client :: "string \<Rightarrow> (int \<times> rl_event) list \<Rightarrow> (int \<times> rl_event) list" where
  "of_client ip es = filter (\<lambda>e. event_ip e = ip) es"

definition outcomes :: "string \<Rightarrow> (int \<times> rl_event) list \<Rightarrow> bool list \<Rightarrow> ((int \<times> rl_event) \<times> bool) list" where
  "outcomes ip es bs = filter (\<lambda>(e, b). event_ip e = ip) (zip es bs)"

lemma rl_run_client:
  assumes "redis_ok R"
  shows "client_view R ip (fst (rl_run R es s)) = fst (client_run (of_client ip es) (client_view R ip s))
    \<and> outcomes ip es (snd (rl_run R es s)) = zip (of_client ip es) (snd (client_run (of_client ip es) (client_view R ip s)))"
proof (induction es arbitrary: s)
  case Nil
  then show ?case by (simp add: of_client_def outcomes_def)
next
  case (Cons e es)
  obtain s1 b where s1: "rl_step R e s = (s1, b)" by fastforce
  show ?case using rl_step_client(1) [OF assms s1, of ip] rl_step_client(2) [OF assms s1] Cons.IH [of s1]
    by (auto simp: of_client_def outcomes_def s1 Let_def case_prod_unfold)
qed

section \<open>Bounds\<close>

fun auth_event :: "int \<times> rl_event \<Rightarrow> bool" where
  "auth_event (t, Arrive rq fs) = is_auth rq"
| "auth_event (t, Answer rq status fs) = False"

text \<open>The forwarded authentication requests of a list of outcomes that arrived in the minute from \<open>a\<close>.\<close>

definition forwarded_in :: "int \<Rightarrow> ((int \<times> rl_event) \<times> bool) list \<Rightarrow> nat" where
  "forwarded_in a outs = length (filter (\<lambda>(e, b). b \<and> auth_event e \<and> a \<le> fst e \<and> fst e < a + 60) outs)"

text \<open>The calls that count the attempts of a client, with the fates of their commands.\<close>

fun reaches_attempt :: "int \<times> rl_event \<Rightarrow> client \<Rightarrow> bool" where
  "reaches_attempt (t, Arrive rq fs) c \<longleftrightarrow> is_auth rq \<and> (is_registration rq \<longrightarrow>
     (\<exists>n. snd (count_in 3600 fs (register_key (get_client_ip rq)) t (cl_registrations c)) = Some n \<and> n \<le> 3))"
| "reaches_attempt (t, Answer rq status fs) c \<longleftrightarrow> False"

fun attempt_call :: "int \<times> rl_event \<Rightarrow> int \<times> fate \<times> fate" where
  "attempt_call (t, Arrive rq fs) =
     (t, fate_of fs (CIncr (auth_key (get_client_ip rq))), fate_of fs (CExpire (auth_key (get_client_ip rq))))"
| "attempt_call (t, Answer rq status fs) = (t, Fine, Fine)"

fun attempt_calls :: "(int \<times> rl_event) list \<Rightarrow> client \<Rightarrow> (int \<times> fate \<times> fate) list" where
  "attempt_calls [] c = []"
| "attempt_calls (e # es) c =
     (if reaches_attempt e c then [attempt_call e] else []) @ attempt_calls es (fst (client_step e c))"

lemma fst_attempt_call [simp]: "fst (attempt_call e) = fst e"
  by (cases e rule: attempt_call.cases) simp_all

lemma client_step_attempts:
  "cl_attempts (fst (client_step e c)) =
     (if reaches_attempt e c then case attempt_call e of (t, fi, fe) \<Rightarrow> fst (bump 60 t fi fe (cl_attempts c)) else cl_attempts c)"
  by (cases "(e, c)" rule: client_step.cases) (auto simp: client_admit_def Let_def count_in_def)

lemma client_step_forwarded:
  "snd (client_step e c) \<Longrightarrow> auth_event e \<Longrightarrow>
     reaches_attempt e c \<and> (case attempt_call e of (t, fi, fe) \<Rightarrow> \<exists>n. snd (bump 60 t fi fe (cl_attempts c)) = Some n \<and> n \<le> 20)"
  by (cases "(e, c)" rule: client_step.cases) (auto simp: client_admit_def Let_def count_in_def passes_def split: if_splits)

lemma forwarded_in_Cons:
  "forwarded_in a ((e, b) # outs) = (if b \<and> auth_event e \<and> a \<le> fst e \<and> fst e < a + 60 then 1 else 0) + forwarded_in a outs"
  by (simp add: forwarded_in_def)

lemma let_through_Cons:
  "let_through w l a en (x # ts) = (case x of (t, fi, fe) \<Rightarrow>
     (if (\<exists>n. snd (bump w t fi fe en) = Some n \<and> n \<le> l) \<and> a \<le> t \<and> t < a + w then 1 else 0)
     + let_through w l a (fst (bump w t fi fe en)) ts)"
  by (cases x) (simp add: case_prod_unfold)

lemma forwarded_let_through:
  "int (forwarded_in a (zip es (snd (client_run es c)))) \<le> let_through 60 20 a (cl_attempts c) (attempt_calls es c)"
proof (induction es arbitrary: c)
  case Nil
  then show ?case by (simp add: forwarded_in_def)
next
  case (Cons e es)
  obtain t fi fe where x: "attempt_call e = (t, fi, fe)" by (cases "attempt_call e")
  have t: "t = fst e" using fst_attempt_call [of e] x by simp
  note ih = Cons.IH [of "fst (client_step e c)"] and step = client_step_attempts [of e c, unfolded x, simplified]
  have run: "snd (client_run (e # es) c) = snd (client_step e c) # snd (client_run es (fst (client_step e c)))"
    by (simp add: Let_def case_prod_unfold)
  show ?case
  proof (cases "reaches_attempt e c")
    case True
    then show ?thesis using ih step client_step_forwarded [of e c]
      by (auto simp: run forwarded_in_Cons let_through_Cons x t simp del: client_run.simps)
  next
    case False
    then show ?thesis using ih step client_step_forwarded [of e c]
      by (auto simp: run forwarded_in_Cons simp del: client_run.simps)
  qed
qed

lemma attempt_calls_sub: "set (map fst (attempt_calls es c)) \<subseteq> set (map fst es)"
  by (induction es arbitrary: c) auto

lemma attempt_calls_sorted: "sorted (map fst es) \<Longrightarrow> sorted (map fst (attempt_calls es c))"
proof (induction es arbitrary: c)
  case (Cons e es)
  have "\<forall>x\<in>set (map fst es). fst e \<le> x" using Cons.prems by simp
  then have "\<forall>x\<in>set (map fst (attempt_calls es (fst (client_step e c)))). fst e \<le> x"
    using attempt_calls_sub [of es "fst (client_step e c)"] by blast
  then show ?case using Cons by simp
qed simp

section \<open>Getting through again\<close>

definition gone_by :: "int \<Rightarrow> entry \<Rightarrow> bool" where
  "gone_by B en = (case en of Some (v, Some e) \<Rightarrow> e \<le> B | Some (v, None) \<Rightarrow> False | None \<Rightarrow> True)"

lemma entry_ok_gone_by: "entry_ok w u en \<Longrightarrow> has_expiry en \<Longrightarrow> u + w \<le> B \<Longrightarrow> gone_by B en"
  by (auto simp: entry_ok_def gone_by_def has_expiry_def split: option.splits)

text \<open>The commands that fail, whether they leave a counter without expiry, and the steps that matter below.\<close>

fun event_fates :: "int \<times> rl_event \<Rightarrow> fates" where
  "event_fates (t, Arrive rq fs) = fs"
| "event_fates (t, Answer rq status fs) = fs"

definition expiry_kept :: "fates \<Rightarrow> bool" where
  "expiry_kept fs = list_all (\<lambda>(c, f). case c of CIncr k \<Rightarrow> f \<noteq> Lost | CExpire k \<Rightarrow> f \<noteq> Dropped | CGet k \<Rightarrow> True) fs"

fun fails_login :: "int \<times> rl_event \<Rightarrow> bool" where
  "fails_login (t, Arrive rq fs) = False"
| "fails_login (t, Answer rq status fs) = (is_login rq \<and> status = 401)"

fun registers :: "int \<times> rl_event \<Rightarrow> bool" where
  "registers (t, Arrive rq fs) = is_registration rq"
| "registers (t, Answer rq status fs) = False"

lemma expiry_kept_fate:
  assumes "expiry_kept fs"
  shows "fate_of fs (CIncr k) \<noteq> Lost" "fate_of fs (CExpire k) \<noteq> Dropped"
  using assms by (auto simp: expiry_kept_def fate_of_def list_all_iff split: option.splits dest!: map_of_SomeD)

lemma refused_attempt:
  assumes "entry_ok 60 u (cl_attempts c)" "gone_by B (cl_attempts c)" "gone_by (B - 60) (cl_failures c)" "\<not> passes t [] ip c"
  shows "t < B \<and> gone_by B (fst (count_in 60 [] (auth_key ip) t (cl_attempts c)))"
proof -
  have r: "\<not> (\<exists>n. snd (bump 60 t Fine Fine (cl_attempts c)) = Some n \<and> n \<le> 20) \<or> failing t (cl_failures c)"
    using assms(4) by (auto simp: passes_def count_in_def)
  show ?thesis using assms(1)
  proof (cases rule: bump_cases [where t = t and fi = Fine and fe = Fine])
    case (fresh x r')
    then have "failing t (cl_failures c)" using r by simp
    then have "t < B - 60" using assms(3)
      by (auto simp: failing_def alive_def gone_by_def split: option.splits if_splits)
    then show ?thesis using fresh by (auto simp: gone_by_def count_in_def)
  next
    case (counted v e r')
    then show ?thesis using assms(2) by (auto simp: gone_by_def count_in_def split: option.splits)
  qed simp
qed

lemma refused_registration:
  assumes "entry_ok 3600 u en" "gone_by (B + 3600) en"
    and "t < B \<or> \<not> (\<exists>n. snd (count_in 3600 [] k t en) = Some n \<and> n \<le> 3)"
  shows "t < B + 3600 \<and> gone_by (B + 3600) (fst (count_in 3600 [] k t en))"
  using assms(1)
proof (cases rule: bump_cases [where t = t and fi = Fine and fe = Fine])
  case (fresh x r)
  then show ?thesis using assms(3) by (auto simp: gone_by_def count_in_def)
next
  case (counted v e r)
  then show ?thesis using assms(2) by (auto simp: gone_by_def count_in_def split: option.splits)
qed simp

text \<open>A client all of whose requests are refused: what is true of its counters until the time \<open>B\<close>.\<close>

definition waiting :: "int \<Rightarrow> int \<Rightarrow> client \<Rightarrow> bool" where
  "waiting B u c \<longleftrightarrow> entry_ok 60 u (cl_attempts c) \<and> gone_by B (cl_attempts c) \<and> gone_by (B - 60) (cl_failures c)
     \<and> entry_ok 3600 u (cl_registrations c) \<and> gone_by (B + 3600) (cl_registrations c)"

lemma waiting_mono: "waiting B u c \<Longrightarrow> u \<le> t \<Longrightarrow> waiting B t c"
  using entry_ok_mono by (auto simp: waiting_def)

lemma refused_until:
  assumes "waiting B u c" "u \<le> t" "is_auth rq" "\<not> snd (client_admit t rq [] c)"
  shows "t < (if is_registration rq then B + 3600 else B) \<and> waiting B t (fst (client_admit t rq [] c))"
proof -
  let ?ip = "get_client_ip rq"
  let ?reg = "count_in 3600 [] (register_key ?ip) t (cl_registrations c)"
  let ?att = "count_in 60 [] (auth_key ?ip) t (cl_attempts c)"
  note w = assms(1) [unfolded waiting_def]
  have keep: "entry_ok 60 t (cl_attempts c)" "entry_ok 60 t (fst ?att)" "entry_ok 3600 t (fst ?reg)"
      "entry_ok 3600 t (cl_registrations c)"
    using w assms(2) entry_ok_mono bump_ok by (auto simp: count_in_def)
  show ?thesis
  proof (cases "is_registration rq \<and> \<not> (\<exists>n. snd ?reg = Some n \<and> n \<le> 3)")
    case True
    then have e: "fst (client_admit t rq [] c) = c\<lparr>cl_registrations := fst ?reg\<rparr>"
      using assms(3) by (simp add: client_admit_def Let_def)
    have "t < B + 3600 \<and> gone_by (B + 3600) (fst ?reg)"
      using True w by (intro refused_registration [where u = u]) auto
    then show ?thesis using True w keep unfolding e by (simp add: waiting_def)
  next
    case False
    then have e: "client_admit t rq [] c = ((if is_registration rq then c\<lparr>cl_registrations := fst ?reg\<rparr> else c)\<lparr>cl_attempts := fst ?att\<rparr>, passes t [] ?ip c)"
      using assms(3) by (auto simp: client_admit_def Let_def)
    then have a: "t < B \<and> gone_by B (fst ?att)" using assms(4) w by (intro refused_attempt [where u = u]) auto
    then have "gone_by (B + 3600) (fst ?reg)" using w by (intro conjunct2 [OF refused_registration [where u = u]]) auto
    then show ?thesis using a w keep unfolding e by (auto simp: waiting_def)
  qed
qed

lemma client_step_idle: "\<not> fails_login e \<Longrightarrow> \<not> auth_event e \<Longrightarrow> fst (client_step e c) = c"
  by (cases "(e, c)" rule: client_step.cases) (auto simp: client_admit_def)

lemma all_refused:
  assumes "waiting B u c" "sorted (u # map fst es)" "\<forall>e\<in>set es. \<not> fails_login e \<and> event_fates e = []"
    "\<forall>(e, b)\<in>set (zip es (snd (client_run es c))). auth_event e \<longrightarrow> \<not> b" "e \<in> set es" "auth_event e"
  shows "fst e < (if registers e then B + 3600 else B)"
  using assms
proof (induction es arbitrary: u c)
  case (Cons x es)
  define c1 where "c1 = fst (client_step x c)"
  obtain t y where x: "x = (t, y)" by (cases x)
  have ut: "u \<le> t" using Cons.prems(2) by (simp add: x)
  have rest: "\<forall>(e, b)\<in>set (zip es (snd (client_run es c1))). auth_event e \<longrightarrow> \<not> b"
    and hd: "auth_event x \<longrightarrow> \<not> snd (client_step x c)"
    using Cons.prems(4) by (auto simp: c1_def Let_def case_prod_unfold)
  have ih: "e \<in> set es \<Longrightarrow> fst e < (if registers e then B + 3600 else B)" if "waiting B t c1"
    using Cons.IH [OF that] Cons.prems(2,3,6) rest by (auto simp: x)
  show ?case
  proof (cases "auth_event x")
    case False
    then have "c1 = c" using Cons.prems(3) client_step_idle [of x c] by (simp add: c1_def)
    then show ?thesis using ih waiting_mono [OF Cons.prems(1) ut] Cons.prems(5,6) False by auto
  next
    case True
    then obtain rq where rq: "y = Arrive rq []" "is_auth rq" using Cons.prems(3) by (cases y) (auto simp: x)
    have "\<not> snd (client_admit t rq [] c)" using hd True by (simp add: x rq)
    from refused_until [OF Cons.prems(1) ut rq(2) this]
    show ?thesis using ih Cons.prems(5) by (auto simp: c1_def x rq)
  qed
qed simp

text \<open>The counters of a client throughout a run in which no counter loses its expiry.\<close>

definition sound :: "int \<Rightarrow> client \<Rightarrow> bool" where
  "sound u c \<longleftrightarrow> entry_ok 60 u (cl_attempts c) \<and> entry_ok 60 u (cl_failures c) \<and> entry_ok 3600 u (cl_registrations c)
     \<and> has_expiry (cl_attempts c) \<and> has_expiry (cl_failures c) \<and> has_expiry (cl_registrations c)"

lemma sound_mono: "sound u c \<Longrightarrow> u \<le> t \<Longrightarrow> sound t c"
  using entry_ok_mono by (auto simp: sound_def)

lemma count_in_sound:
  assumes "entry_ok w u en" "has_expiry en" "u \<le> t" "expiry_kept fs"
  shows "entry_ok w t (fst (count_in w fs k t en)) \<and> has_expiry (fst (count_in w fs k t en))"
  using bump_ok [OF assms(1,3)] bump_has_expiry [OF assms(1,2)] expiry_kept_fate [OF assms(4)] by (simp add: count_in_def)

lemma client_step_sound:
  assumes "sound u c" "u \<le> fst e" "expiry_kept (event_fates e)"
  shows "sound (fst e) (fst (client_step e c))"
proof (cases e rule: event_fates.cases)
  case (1 t rq fs)
  note w = sound_mono [OF assms(1,2), unfolded sound_def] assms(1) [unfolded sound_def]
  have "entry_ok 3600 t (fst (count_in 3600 fs k t (cl_registrations c))) \<and> has_expiry (fst (count_in 3600 fs k t (cl_registrations c)))"
    "entry_ok 60 t (fst (count_in 60 fs k t (cl_attempts c))) \<and> has_expiry (fst (count_in 60 fs k t (cl_attempts c)))" for k
    using w assms(2,3) 1 by (simp_all add: count_in_sound [of _ u])
  then show ?thesis using w 1 by (auto simp: client_admit_def sound_def Let_def)
next
  case (2 t rq status fs)
  note w = sound_mono [OF assms(1,2), unfolded sound_def] assms(1) [unfolded sound_def]
  have "entry_ok 60 t (fst (count_in 60 fs k t (cl_failures c))) \<and> has_expiry (fst (count_in 60 fs k t (cl_failures c)))" for k
    using w assms(2,3) 2 by (simp add: count_in_sound [of _ u])
  then show ?thesis using w 2 by (auto simp: sound_def)
qed

lemma client_run_sound:
  assumes "sound u c" "sorted (u # map fst es)" "\<forall>e\<in>set es. fst e \<le> t \<and> expiry_kept (event_fates e)" "u \<le> t"
  shows "sound t (fst (client_run es c))"
  using assms
proof (induction es arbitrary: u c)
  case Nil
  then show ?case using sound_mono by auto
next
  case (Cons e es)
  have "sound (fst e) (fst (client_step e c))" using Cons.prems by (intro client_step_sound) auto
  then show ?case using Cons.IH [of "fst e"] Cons.prems by (simp add: Let_def case_prod_unfold)
qed

text \<open>
  A counter of attempts that has lost its expiry at 20 or more is never reset: from then on no authentication request of the
  client is forwarded.
\<close>

lemma lost_expiry_locks_out:
  assumes "cl_attempts c = Some (v, None)" "20 \<le> v" "(e, True) \<in> set (zip es (snd (client_run es c)))"
  shows "\<not> auth_event e"
  using assms
proof (induction es arbitrary: c v)
  case (Cons x es)
  have b: "\<exists>v'\<ge>v. fst (bump 60 t fi fe (Some (v, None))) = Some (v', None)"
    "\<And>n. snd (bump 60 t fi fe (Some (v, None))) = Some n \<Longrightarrow> 20 < n" for t fi fe
    using Cons.prems(2) by (auto simp: bump_def add_to_def alive_def split: fate.splits)
  obtain t fi fe where x: "attempt_call x = (t, fi, fe)" by (cases "attempt_call x")
  have "\<exists>v'\<ge>v. cl_attempts (fst (client_step x c)) = Some (v', None)"
    using client_step_attempts [of x c] b(1) Cons.prems(1) x by auto
  then obtain v' where v': "v \<le> v'" "cl_attempts (fst (client_step x c)) = Some (v', None)" by blast
  have hd: "snd (client_step x c) \<Longrightarrow> \<not> auth_event x"
    using client_step_forwarded [of x c] b(2) [of t fi fe] Cons.prems(1) x by fastforce
  show ?case using Cons.IH [OF v'(2)] v'(1) Cons.prems(2,3) hd by (auto simp: Let_def case_prod_unfold)
qed simp

lemma rl_run_append:
  "fst (rl_run R (es @ fs) s) = fst (rl_run R fs (fst (rl_run R es s)))"
  "snd (rl_run R (es @ fs) s) = snd (rl_run R es s) @ snd (rl_run R fs (fst (rl_run R es s)))"
  by (induction es arbitrary: s) (simp_all add: Let_def case_prod_unfold)

lemma rl_run_length: "length (snd (rl_run R es s)) = length es"
  by (induction es arbitrary: s) (simp_all add: Let_def case_prod_unfold)

section \<open>Properties\<close>

definition no_counters :: client where
  "no_counters = \<lparr>cl_registrations = None, cl_attempts = None, cl_failures = None\<rparr>"

lemma sorted_start:
  fixes ts :: "int list"
  assumes "sorted ts" "\<forall>x\<in>set ts. x \<le> t"
  shows "\<exists>u\<le>t. sorted (u # ts)"
  using assms by (cases ts) auto

text \<open>The requests of the witnesses: a client behind a proxy, another one, and what they ask for.\<close>

definition demo_web :: "string \<Rightarrow> string \<Rightarrow> web_request" where
  "demo_web ip path =
     \<lparr>rq_path = path, rq_method = ''POST'', rq_forwarded = Some ip, rq_real_ip = None, rq_client = Some ''10.0.0.1''\<rparr>"

definition demo_login :: web_request where
  "demo_login = demo_web ''1.2.3.4, 10.0.0.9'' ''/v1/auth/login''"

definition demo_burst :: "(int \<times> rl_event) list" where
  "demo_burst = (0, Arrive demo_login []) # replicate 19 (59, Arrive demo_login []) @ replicate 25 (60, Arrive demo_login [])"

text \<open>
  C11: Whatever the order in which the steps of concurrent requests interleave and whichever commands fail, at most 39
  authentication requests of one client address are forwarded to the handlers in any sixty seconds: the counter is a fixed
  window that starts with its first request, so the limit of 20 per minute holds per window, and two windows meet in one minute.
\<close>

theorem auth_requests_bounded:
  assumes "redis_ok R" "sorted (map fst es)" "client_view R ip s = no_counters"
  shows "forwarded_in a (outcomes ip es (snd (rl_run R es s))) \<le> 39"
proof -
  let ?es = "of_client ip es"
  define ts where "ts = attempt_calls ?es no_counters"
  have "sorted (map fst ?es)" using assms(2) by (simp add: of_client_def sorted_filter)
  then have "sorted (map fst ts)" unfolding ts_def by (rule attempt_calls_sorted)
  then obtain u where "sorted (u # map fst ts)" using sorted_start [of "map fst ts" "Max (set (map fst ts))"] by auto
  then have "let_through 60 20 a None ts \<le> 39"
    using let_through_bound [of 60 20 u None ts a] by (simp add: entry_ok_def)
  then have "int (forwarded_in a (zip ?es (snd (client_run ?es no_counters)))) \<le> 39"
    using forwarded_let_through [of a ?es no_counters] by (simp add: ts_def no_counters_def)
  then show ?thesis using rl_run_client [OF assms(1), of ip es s] by (simp add: assms(3))
qed

theorem auth_requests_bounded_witness:
  "forwarded_in 59 (outcomes ''1.2.3.4'' demo_burst (snd (rl_run list_redis demo_burst []))) = 39
   \<and> forwarded_in 59 (outcomes ''1.2.3.4'' demo_burst (snd (rl_run list_redis demo_burst []))) \<le> 39"
proof -
  have "sorted (map fst demo_burst)" "client_view list_redis ''1.2.3.4'' [] = no_counters"
    by (simp_all add: demo_burst_def sorted_append client_view_def no_counters_def list_redis_def)
  then have "forwarded_in 59 (outcomes ''1.2.3.4'' demo_burst (snd (rl_run list_redis demo_burst []))) \<le> 39"
    using auth_requests_bounded [OF list_redis_ok] by blast
  moreover have "forwarded_in 59 (outcomes ''1.2.3.4'' demo_burst (snd (rl_run list_redis demo_burst []))) = 39"
    by code_simp
  ultimately show ?thesis by blast
qed

text \<open>
  C7: A client that was refused gets through again, if no failing command left one of its counters without expiry. Take any run up
  to a time \<open>t\<close> in which no step of the client loses an expiry (an INCR whose reply is lost, or an EXPIRE that is not made), and any
  continuation in which no command of the client's steps fails and no further failed login of it is recorded. If the client still
  tries 120 seconds after \<open>t\<close> or later, or registers 3720 seconds after \<open>t\<close> or later, then at least one of the authentication
  requests it made in the continuation is forwarded.
\<close>

theorem refused_client_gets_through:
  assumes "redis_ok R" "client_view R ip s = no_counters" "sorted (map fst (before @ after))"
    "\<forall>e\<in>set before. fst e \<le> t" "\<forall>e\<in>set after. t \<le> fst e"
    "\<forall>e\<in>set (of_client ip before). expiry_kept (event_fates e)"
    "\<forall>e\<in>set (of_client ip after). \<not> fails_login e \<and> event_fates e = []"
    "e \<in> set after" "event_ip e = ip" "auth_event e" "t + (if registers e then 3720 else 120) \<le> fst e"
  shows "\<exists>x. (x, True) \<in> set (outcomes ip after (drop (length before) (snd (rl_run R (before @ after) s)))) \<and> auth_event x"
proof (rule ccontr)
  assume none: "\<nexists>x. (x, True) \<in> set (outcomes ip after (drop (length before) (snd (rl_run R (before @ after) s)))) \<and> auth_event x"
  define s1 where "s1 = fst (rl_run R before s)"
  define c where "c = client_view R ip s1"
  let ?es = "of_client ip after"
  have srt: "sorted (map fst (of_client ip before))" "sorted (map fst ?es)"
    using assms(3) by (simp_all add: of_client_def sorted_filter sorted_append)
  have c: "c = fst (client_run (of_client ip before) no_counters)"
    using rl_run_client [OF assms(1), of ip before s] by (simp add: c_def s1_def assms(2))
  have bt: "\<forall>e\<in>set (of_client ip before). fst e \<le> t \<and> expiry_kept (event_fates e)"
    using assms(4,6) by (simp add: of_client_def)
  then obtain u where u: "sorted (u # map fst (of_client ip before))" "u \<le> t" using sorted_start [OF srt(1), of t] by auto
  have "sound u no_counters" by (simp add: sound_def no_counters_def entry_ok_def has_expiry_def)
  then have "sound t c" unfolding c using u bt by (intro client_run_sound) auto
  then have w: "waiting (t + 120) t c"
    by (auto simp: sound_def waiting_def intro: entry_ok_gone_by [where u = t])
  have "outcomes ip after (drop (length before) (snd (rl_run R (before @ after) s))) = zip ?es (snd (client_run ?es c))"
    using rl_run_client [OF assms(1), of ip after s1] by (simp add: rl_run_append rl_run_length s1_def c_def)
  then have ref: "\<forall>(x, b)\<in>set (zip ?es (snd (client_run ?es c))). auth_event x \<longrightarrow> \<not> b" using none by auto
  have "fst e < (if registers e then t + 120 + 3600 else t + 120)"
    using assms(5,8-10) srt(2) by (intro all_refused [OF w _ assms(7) ref]) (auto simp: of_client_def)
  then show False using assms(11) by (simp split: if_splits)
qed

text \<open>Six failed logins, the first of them counted by a request whose next command fails; then the client tries again.\<close>

definition demo_before :: "(int \<times> rl_event) list" where
  "demo_before = (0, Arrive demo_login [(CGet (fail_key ''1.2.3.4''), Dropped)])
     # concat (replicate 6 [(0, Arrive demo_login []), (0, Answer demo_login 401 [])])"

definition demo_after :: "(int \<times> rl_event) list" where
  "demo_after = [(10, Arrive demo_login []), (50, Arrive demo_login []), (130, Arrive demo_login [])]"

theorem refused_client_gets_through_witness:
  "snd (rl_run list_redis (demo_before @ take 2 demo_after) []) = False # concat (replicate 5 [True, False]) @ replicate 4 False
   \<and> (\<exists>x. (x, True) \<in> set (outcomes ''1.2.3.4'' demo_after
         (drop (length demo_before) (snd (rl_run list_redis (demo_before @ demo_after) [])))) \<and> auth_event x)"
proof
  show "snd (rl_run list_redis (demo_before @ take 2 demo_after) []) = False # concat (replicate 5 [True, False]) @ replicate 4 False"
    by code_simp
  have ip: "event_ip (130, Arrive demo_login []) = ''1.2.3.4''" by code_simp
  have "auth_event (130, Arrive demo_login [])" "\<not> registers (130, Arrive demo_login [])"
    "list_all (\<lambda>e. \<not> fails_login e \<and> event_fates e = []) (of_client ''1.2.3.4'' demo_after)"
    "list_all (\<lambda>e. expiry_kept (event_fates e)) (of_client ''1.2.3.4'' demo_before)" by code_simp+
  moreover have "client_view list_redis ''1.2.3.4'' [] = no_counters" 
    by (simp add: client_view_def no_counters_def list_redis_def)
  moreover have "sorted (map fst (demo_before @ demo_after))" "list_all (\<lambda>e. fst e \<le> 5) demo_before"
    "list_all (\<lambda>e. 5 \<le> fst e) demo_after" by code_simp+
  ultimately show "\<exists>x. (x, True) \<in> set (outcomes ''1.2.3.4'' demo_after
         (drop (length demo_before) (snd (rl_run list_redis (demo_before @ demo_after) [])))) \<and> auth_event x"
    using refused_client_gets_through [OF list_redis_ok, of "''1.2.3.4''" "[]" demo_before demo_after 5 "(130, Arrive demo_login [])"] ip
    by (simp add: list_all_iff demo_after_def del: registers.simps)
qed

text \<open>A run that ends with a client locked out: the EXPIRE of its first request is not made.\<close>

lemma lost_expiry_run:
  "cl_attempts (client_view list_redis ''1.2.3.4'' (fst (rl_run list_redis
     ((0, Arrive demo_login [(CExpire (auth_key ''1.2.3.4''), Dropped)]) # replicate 19 (1, Arrive demo_login [])) [])))
   = Some (20, None)"
  by code_simp

text \<open>
  C39: Clients do not disturb each other. If two runs start from stores that agree on the counters of a client and have the
  same steps of that client, then the client gets the same outcomes in both, whatever the other clients do in between.
\<close>

theorem clients_isolated:
  assumes "redis_ok R" "client_view R ip s = client_view R ip s'" "of_client ip es = of_client ip es'"
  shows "outcomes ip es (snd (rl_run R es s)) = outcomes ip es' (snd (rl_run R es' s'))"
  using rl_run_client [OF assms(1), of ip es s] rl_run_client [OF assms(1), of ip es' s'] assms(2,3) by simp

definition demo_other :: "(int \<times> rl_event) list" where
  "demo_other = replicate 22 (3, Arrive (demo_web ''5.6.7.8'' ''/v1/auth/token'') [])"

theorem clients_isolated_witness:
  "outcomes ''1.2.3.4'' (demo_before @ demo_other @ demo_after) (snd (rl_run list_redis (demo_before @ demo_other @ demo_after) []))
   = outcomes ''1.2.3.4'' (demo_before @ demo_after) (snd (rl_run list_redis (demo_before @ demo_after) []))"
proof -
  have "of_client ''1.2.3.4'' demo_other = []" by code_simp
  then show ?thesis
    by (intro clients_isolated [OF list_redis_ok]) (simp_all add: of_client_def)
qed

end
