(* ===== verification/Spec2Isabelle.thy ===== *)
theory Spec2Isabelle
  imports ProcedureRun AgentAccess Scheduler RateLimit
begin

text \<open>
  A verification of the MCPWorks API, a service that hosts functions in namespaces and lets
  agents (language models with tools) call them. File names below are relative to \<open>src/src/mcpworks_api/\<close>.

  \<^bold>\<open>The program and how its parts interact.\<close> An account owns namespaces; a namespace holds services, a service holds functions, and a
  function has immutable, numbered versions of which one is active. A namespace can be shared with another user
  by an invitation that is accepted, declined or revoked. A procedure is a versioned sequence of function calls with mappings between
  their results. An agent lives in a namespace of its own name; it has replicas in containers, schedules, webhooks, channels
  and encrypted state. Triggered by one of these, an agent is orchestrated: a language model is called with the tools the agent may use,
  each tool call is routed to a function, a platform tool, an external server or a procedure, within limits, and the run
  is recorded. HTTP requests pass through middleware that limits rates and meters executions with counters in Redis.

  \<^bold>\<open>How code becomes definitions.\<close> A method of a service is a function of the database (a record with one list of rows per table) that
  returns an exception or a new database and a result; an exception rolls the request back, so a sequence of requests is a fold
  (\<open>Machines\<close>). Strings are lists of characters below 256, integers are \<open>int\<close>, dates are seconds, identifiers are drawn from a
  counter, dicts are association lists in insertion order, and JSON is a datatype without floats (\<open>Py_Base\<close>, \<open>Py_Text\<close>,
  \<open>Json_Text\<close>). What is outside the repository is an argument: the language model and the backends (\<open>world\<close>, \<open>pworld\<close>), the container
  daemon, the clock and random draws (\<open>host\<close>), the cipher (\<open>aead\<close>), the collation of the database, and Redis (\<open>redis\<close>).
  What the code relies on is a named hypothesis: \<open>aead_correct\<close> (decryption inverts encryption) and \<open>redis_ok\<close> (the
  documented effect of the commands); witnesses instantiate both.

  \<^bold>\<open>The theories.\<close>
  \<^item> \<open>Py_Base\<close>, \<open>Py_Text\<close>, \<open>Json_Text\<close>: the Python the code uses (\<open>split\<close>, \<open>join\<close>, \<open>strip\<close>, \<open>replace\<close>, \<open>str\<close>, \<open>json.dumps\<close>,
    \<open>json.loads\<close>) and generic lemmas on lists and rows; \<open>json.loads\<close> inverts \<open>json.dumps\<close>.
  \<^item> \<open>Machines\<close>, \<open>KeyedStore\<close>: the interfaces. \<open>request_machine\<close> lifts an invariant from one request to sequences, \<open>version_history\<close> says
    that stored versions never change, \<open>keyed_store\<close> that a store refines a map. Each is interpreted on the models of the services.
  \<^item> \<open>Exceptions\<close>: \<open>core/exceptions.py\<close> with the HTTP statuses.
  \<^item> \<open>Glob\<close>, \<open>AgentAccess\<close>: \<open>fnmatch\<close> and \<open>core/agent_access.py\<close>. The rule engine is equivalent to a declarative policy; deny rules
    win; adding a deny rule or lowering the trust score never grants a call; key filtering is exact.
  \<^item> \<open>Database\<close>, \<open>FunctionStore\<close>, \<open>NamespaceStore\<close>, \<open>Shares\<close>, \<open>Platform\<close>: the tables (\<open>models/\<close>) and the services of
    \<open>services/function.py\<close>, \<open>services/namespace.py\<close> and \<open>services/namespace_share.py\<close>. All their requests together keep the integrity
    of the tables; versions are immutable; locked functions keep their versions; publishing round-trips; access to a namespace is
    exactly ownership or an accepted share with the permission, and revocation cuts it; shares follow their life cycle.
  \<^item> \<open>JsonPath\<close>, \<open>Procedures\<close>, \<open>ProcedureRun\<close>: \<open>services/jsonpath.py\<close>, \<open>services/procedure_service.py\<close> and
    \<open>run_procedure_orchestration\<close> of \<open>tasks/orchestrator.py\<close>. Paths round-trip; procedure versions are immutable; a run calls only
    what the active version prescribes, ends within bounds also when it raises, and its record agrees with what it reports.
  \<^item> \<open>AiTools\<close>, \<open>Orchestrator\<close>: \<open>core/tool_permissions.py\<close>, \<open>core/ai_tools.py\<close> and \<open>run_orchestration\<close>. Offered function tools resolve;
    names round-trip; every call that reaches a backend is authorised and goes where its name says; a run ends within its limits and
    what it reports and records is stated for every way it ends.
  \<^item> \<open>ReplicaNames\<close>, \<open>Encryption\<close>, \<open>AgentRows\<close>, \<open>AgentService\<close>, \<open>AgentInv\<close>, \<open>AgentCluster\<close>: \<open>core/replica_names.py\<close>,
    \<open>core/encryption.py\<close> and \<open>services/agent_service.py\<close>. All requests keep the agent tables consistent, whatever the
    container daemon answers; scaling reaches its target within the slots of the tier; encrypted state refines a map and stays within
    its limit; a webhook address leads to one webhook.
  \<^item> \<open>Redis\<close>, \<open>RateLimit\<close>: the limiter of \<open>core/redis.py\<close> and \<open>middleware/rate_limit.py\<close>. Every Redis command can
    fail, before its effect or after. Requests of one client are bounded in every minute and clients do not disturb each other,
    whatever fails; a refused client gets through again unless a failure left a counter of it without expiry, which locks it out.
  \<^item> \<open>Scheduler\<close>: \<open>tasks/scheduler.py\<close> on the same tables, as a machine whose steps are the transactions of the loop and of the tasks under way,
    with requests, failing transactions and restarts between them. The tables stay consistent; a job that is claimed or running is in
    flight in a task, which ends, or was lost at a restart or a failed status write, after which nothing settles it; all other
    jobs are settled when the loop reaps. One due schedule without a next time stops the polling for all accounts.

  \<^bold>\<open>Bounds and termination.\<close> Every definition is total. Only the reader of \<open>json.loads\<close> has fuel, one more than the length of the text,
  which is enough for every text that \<open>json.dumps\<close> prints (the round trip in \<open>Json_Text\<close>). The loop over the replies of the model ends by
  the iteration limit of the tier, which its termination proof uses; the loop over the steps of a procedure is structural, with at
  most the attempts each step allows; the search for a replica name runs over its ten draws and then over the finite pool. a task of
  the scheduler ends after at most seven transactions. Redis counters are integers without a bound (Redis stops at 64 bits).

  \<^bold>\<open>What is not modelled, and why.\<close>
  \<^item> Text that has no effect on control: log lines, metrics, telemetry, prompts, messages of exceptions.
  \<^item> Floats and strings above code point 255; the columns of a row that only a listing shows.
  \<^item> Concurrency inside a database transaction: a request is one step, and so is each transaction of the scheduler. A procedure run is
    one step as well, although it commits several transactions, so requests that change the tables in the course of a run are not
    covered. The middleware is modelled in the steps between which the handlers run, each at one moment.
  \<^item> What \<open>run_orchestration\<close> does before its loop (decrypting the key, loading tools and state, connecting to servers), the result of
    which is the configuration \<open>agent_cfg\<close>; an exception there reaches the caller before any call is made.
  \<^item> The object mapper: a relationship is read as the rows of the table at that moment. \<open>create_agent\<close> and others read \<open>agent.replicas\<close>
    without having it loaded, which an asynchronous session may refuse.
  \<^item> The HTTP layer (\<open>api/v1/\<close>, \<open>schemas/\<close>, \<open>main.py\<close>, \<open>dependencies.py\<close>), which decodes requests and calls the services; the MCP
    transport and its handlers (\<open>mcp/\<close>), which do the same for tool calls; the administration pages.
  \<^item> The sandbox (\<open>backends/\<close>, \<open>sandbox/\<close>, \<open>deploy/\<close>) that runs user code in a separate process, the agent runtime in its container,
    mail, payment, the external identity providers, the clients of language models and of other servers: effects outside
    the process, parameters of the model where modelled code calls them.
  \<^item> The schema migrations, static pages and templates.
\<close>

end
